(* ===== verification/Prelude.thy ===== *)
theory Prelude
  imports Complex_Main "HOL-Library.Word" "HOL-Library.Multiset"
begin

text \<open>
  The base of the development: the names of the machine types, the result type of fallible
  code, byte-order conversions and the framing interface that every length-prefixed format
  of the program is an instance of, and the fact collections the component proofs use.
\<close>

section \<open>Collections\<close>

named_theorems f64_simps \<open>evaluation and order facts of the binary64 model\<close>
named_theorems wire_simps \<open>lengths, bounds and inverses of byte encodings\<close>
named_theorems frame_simps \<open>fields that an operation leaves alone\<close>

section \<open>Machine types\<close>

type_synonym u8 = "8 word"
type_synonym u16 = "16 word"
type_synonym u32 = "32 word"
type_synonym u64 = "64 word"
type_synonym bytes = "u8 list"

text \<open>
  Rust's \<open>usize\<close> indexes and lengths are \<^typ>\<open>nat\<close>; \<open>i8\<close>, \<open>i32\<close> and \<open>i64\<close> values are
  \<^typ>\<open>int\<close>, with the conversions that can change a value written out below.
\<close>

definition i64_max :: int where "i64_max = 2 ^ 63 - 1"
definition i64_min :: int where "i64_min = - (2 ^ 63)"

definition in_i64 :: "int \<Rightarrow> bool" where
  "in_i64 x \<longleftrightarrow> i64_min \<le> x \<and> x \<le> i64_max"

text \<open>\<open>saturating_add\<close> and its kin clamp to the type's range.\<close>

definition sat_i64 :: "int \<Rightarrow> int" where
  "sat_i64 x = max i64_min (min i64_max x)"

lemma sat_i64_id [simp]: "in_i64 x \<Longrightarrow> sat_i64 x = x"
  by (simp add: sat_i64_def in_i64_def)

lemma sat_i64_in [simp, intro]: "in_i64 (sat_i64 x)"
  by (simp add: sat_i64_def in_i64_def i64_min_def i64_max_def)

text \<open>\<open>x as i64\<close> for a \<open>u64\<close>, \<open>x as u64\<close> for an \<open>i64\<close>: two's complement both ways.\<close>

definition u64_as_i64 :: "u64 \<Rightarrow> int" where "u64_as_i64 x = sint x"
definition i64_as_u64 :: "int \<Rightarrow> u64" where "i64_as_u64 x = word_of_int x"

lemma in_i64_sint [simp, intro]: "in_i64 (u64_as_i64 x)"
  using sint_range_size [of x]
  by (simp add: u64_as_i64_def in_i64_def i64_min_def i64_max_def word_size)

lemma u64_as_i64_inverse [simp]: "i64_as_u64 (u64_as_i64 x) = x"
  by (simp add: u64_as_i64_def i64_as_u64_def)

lemma i64_as_u64_inverse: "in_i64 x \<Longrightarrow> u64_as_i64 (i64_as_u64 x) = x"
  unfolding u64_as_i64_def i64_as_u64_def in_i64_def i64_min_def i64_max_def
  by (simp add: signed_of_int signed_take_bit_int_eq_self)

section \<open>Results\<close>

text \<open>\<open>Result<T, E>\<close> is \<open>'e + 'a\<close>: \<^const>\<open>Inl\<close> the error, \<^const>\<open>Inr\<close> the value.\<close>

fun rbind :: "'e + 'a \<Rightarrow> ('a \<Rightarrow> 'e + 'b) \<Rightarrow> 'e + 'b" where
  "rbind (Inl e) f = Inl e"
| "rbind (Inr x) f = f x"

fun map_err :: "('e \<Rightarrow> 'f) \<Rightarrow> 'e + 'a \<Rightarrow> 'f + 'a" where
  "map_err h (Inl e) = Inl (h e)"
| "map_err h (Inr x) = Inr x"

fun ok_or :: "'e \<Rightarrow> 'a option \<Rightarrow> 'e + 'a" where
  "ok_or e None = Inl e"
| "ok_or e (Some x) = Inr x"

lemma rbind_Inr_iff: "rbind r f = Inr y \<longleftrightarrow> (\<exists>x. r = Inr x \<and> f x = Inr y)"
  by (cases r) auto

lemma rbind_Inl_iff:
  "rbind r f = Inl e \<longleftrightarrow> r = Inl e \<or> (\<exists>x. r = Inr x \<and> f x = Inl e)"
  by (cases r) auto

lemma map_err_Inr_iff [simp]: "map_err h r = Inr y \<longleftrightarrow> r = Inr y"
  by (cases r) auto

lemma ok_or_Inr_iff [simp]: "ok_or e m = Inr y \<longleftrightarrow> m = Some y"
  by (cases m) auto

section \<open>Bytes\<close>

text \<open>A bslice \<open>bytes[a..b]\<close>; every use in the code has checked \<open>b\<close> against the length.\<close>

definition bslice :: "nat \<Rightarrow> nat \<Rightarrow> 'a list \<Rightarrow> 'a list" where
  "bslice a b xs = take (b - a) (drop a xs)"

lemma length_bslice [wire_simps]: "b \<le> length xs \<Longrightarrow> length (bslice a b xs) = b - a"
  by (simp add: bslice_def)

lemma bslice_append: "a \<le> b \<Longrightarrow> b \<le> c \<Longrightarrow> bslice a b xs @ bslice b c xs = bslice a c xs"
  using take_add [of "b - a" "c - b" "drop a xs"] by (simp add: bslice_def)

lemma bslice_0: "bslice 0 n xs = take n xs"
  by (simp add: bslice_def)

text \<open>Big-endian digits of a number, most significant first, and back.\<close>

fun to_be :: "nat \<Rightarrow> nat \<Rightarrow> bytes" where
  "to_be 0 k = []"
| "to_be (Suc n) k = to_be n (k div 256) @ [of_nat k]"

definition of_be :: "bytes \<Rightarrow> nat" where
  "of_be bs = foldl (\<lambda>a b. a * 256 + unat b) 0 bs"

lemma of_be_snoc [simp]: "of_be (bs @ [b]) = of_be bs * 256 + unat b"
  by (simp add: of_be_def)

lemma of_be_Nil [simp]: "of_be [] = 0"
  by (simp add: of_be_def)

lemma length_to_be [simp]: "length (to_be n k) = n"
  by (induction n arbitrary: k) auto

lemma unat_byte_of_nat: "unat (of_nat k :: u8) = k mod 256"
  by (simp add: unat_of_nat)

lemma unat_byte_less [simp]: "unat (b::u8) < 256"
  using unsigned_less [of b, where 'a = nat] by simp

lemma of_be_to_be: "k < 256 ^ n \<Longrightarrow> of_be (to_be n k) = k"
proof (induction n arbitrary: k)
  case 0
  then show ?case by simp
next
  case (Suc n)
  then have "k div 256 < 256 ^ n"
    by (simp add: less_mult_imp_div_less mult.commute)
  with Suc.IH have "of_be (to_be n (k div 256)) = k div 256" by blast
  then show ?case by (simp add: unat_byte_of_nat)
qed

lemma to_be_of_be: "length bs = n \<Longrightarrow> to_be n (of_be bs) = bs"
proof (induction n arbitrary: bs)
  case 0
  then show ?case by simp
next
  case (Suc n)
  then obtain cs b where bs: "bs = cs @ [b]" and len: "length cs = n"
    by (cases bs rule: rev_cases) auto
  have b: "unat b < 256" using unat_byte_less .
  have "unat (of_nat (of_be cs * 256 + unat b) :: u8) = unat b"
    using b by (simp only: unat_byte_of_nat) simp
  then have "(of_nat (of_be cs * 256 + unat b) :: u8) = b"
    by (simp only: word_unat_eq_iff)
  moreover have "(of_be cs * 256 + unat b) div 256 = of_be cs" using b by simp
  ultimately show ?case using Suc.IH [OF len] bs by simp
qed

lemma of_be_less: "of_be bs < 256 ^ length bs"
proof (induction bs rule: rev_induct)
  case Nil
  then show ?case by simp
next
  case (snoc b bs)
  have "unat b < 256" using unat_byte_less .
  then have "of_be bs * 256 + unat b < (of_be bs + 1) * 256" by simp
  also have "\<dots> \<le> 256 ^ length bs * 256" using snoc.IH by simp
  finally show ?case by (simp add: mult.commute)
qed

section \<open>Fixed-width integers on the wire\<close>

definition u16_to_be :: "u16 \<Rightarrow> bytes" where "u16_to_be x = to_be 2 (unat x)"
definition u32_to_be :: "u32 \<Rightarrow> bytes" where "u32_to_be x = to_be 4 (unat x)"
definition u64_to_be :: "u64 \<Rightarrow> bytes" where "u64_to_be x = to_be 8 (unat x)"

definition u16_from_be :: "bytes \<Rightarrow> u16" where "u16_from_be bs = of_nat (of_be bs)"
definition u32_from_be :: "bytes \<Rightarrow> u32" where "u32_from_be bs = of_nat (of_be bs)"
definition u64_from_be :: "bytes \<Rightarrow> u64" where "u64_from_be bs = of_nat (of_be bs)"

definition u32_to_le :: "u32 \<Rightarrow> bytes" where "u32_to_le x = rev (u32_to_be x)"
definition u32_from_le :: "bytes \<Rightarrow> u32" where "u32_from_le bs = u32_from_be (rev bs)"

text \<open>
  The contract of a fixed-width encoding: every format of the program reads its integers
  through one, so the facts about reading a field back are proved once, here.
\<close>

locale fixed_codec =
  fixes width :: nat and enc :: "'a \<Rightarrow> bytes" and dec :: "bytes \<Rightarrow> 'a"
  assumes length_enc: "length (enc x) = width"
    and dec_enc: "dec (enc x) = x"
    and enc_dec: "length bs = width \<Longrightarrow> enc (dec bs) = bs"
begin

lemma enc_inject: "enc x = enc y \<longleftrightarrow> x = y"
  by (metis dec_enc)

lemma dec_take: "width = n \<Longrightarrow> dec (take n (enc x @ rest)) = x"
  by (simp add: length_enc dec_enc)

lemma dec_bslice: "length pre = a \<Longrightarrow> b = a + width \<Longrightarrow> dec (bslice a b (pre @ enc x @ rest)) = x"
  by (simp add: bslice_def length_enc dec_enc)

lemma enc_split: "width \<le> length bs \<Longrightarrow> enc (dec (take width bs)) @ drop width bs = bs"
  by (simp add: enc_dec)

end

interpretation be16: fixed_codec 2 u16_to_be u16_from_be
proof unfold_locales
  show "u16_from_be (u16_to_be x) = x" for x :: u16
    using unsigned_less [of x, where 'a = nat] by (simp add: u16_to_be_def u16_from_be_def of_be_to_be)
  show "length bs = 2 \<Longrightarrow> u16_to_be (u16_from_be bs) = bs" for bs
    using of_be_less [of bs] by (simp add: u16_to_be_def u16_from_be_def unat_of_nat to_be_of_be)
qed (simp add: u16_to_be_def)

interpretation be32: fixed_codec 4 u32_to_be u32_from_be
proof unfold_locales
  show "u32_from_be (u32_to_be x) = x" for x :: u32
    using unsigned_less [of x, where 'a = nat] by (simp add: u32_to_be_def u32_from_be_def of_be_to_be)
  show "length bs = 4 \<Longrightarrow> u32_to_be (u32_from_be bs) = bs" for bs
    using of_be_less [of bs] by (simp add: u32_to_be_def u32_from_be_def unat_of_nat to_be_of_be)
qed (simp add: u32_to_be_def)

interpretation be64: fixed_codec 8 u64_to_be u64_from_be
proof unfold_locales
  show "u64_from_be (u64_to_be x) = x" for x :: u64
    using unsigned_less [of x, where 'a = nat] by (simp add: u64_to_be_def u64_from_be_def of_be_to_be)
  show "length bs = 8 \<Longrightarrow> u64_to_be (u64_from_be bs) = bs" for bs
    using of_be_less [of bs] by (simp add: u64_to_be_def u64_from_be_def unat_of_nat to_be_of_be)
qed (simp add: u64_to_be_def)

interpretation le32: fixed_codec 4 u32_to_le u32_from_le
proof unfold_locales
  show "length (u32_to_le x) = 4" for x by (simp add: u32_to_le_def be32.length_enc)
  show "u32_from_le (u32_to_le x) = x" for x by (simp add: u32_to_le_def u32_from_le_def be32.dec_enc)
  show "u32_to_le (u32_from_le bs) = bs" if "length bs = 4" for bs
    using be32.enc_dec [of "rev bs"] that by (simp only: u32_to_le_def u32_from_le_def length_rev rev_rev_ident)
qed

lemmas codec_simps [wire_simps] =
  be16.length_enc be16.dec_enc be16.enc_dec be32.length_enc be32.dec_enc be32.enc_dec
  be64.length_enc be64.dec_enc be64.enc_dec le32.length_enc le32.dec_enc le32.enc_dec

section \<open>Length-prefixed items\<close>

text \<open>
  The contract of one self-delimiting item of a stream: extension fields, NTS-KE records and
  the entries of the cookie file are each such an item, and each parser is a loop over its
  \<open>item_dec\<close>. From it: an item is read back whatever follows it, parsing makes progress, and
  a concatenation of items can be split in one way only.
\<close>

locale framed_item =
  fixes item_ok :: "'a \<Rightarrow> bool"
    and item_enc :: "'a \<Rightarrow> bytes"
    and item_dec :: "bytes \<Rightarrow> ('a \<times> bytes) option"
  assumes item_dec_enc: "item_ok x \<Longrightarrow> item_dec (item_enc x @ rest) = Some (x, rest)"
    and item_dec_sound: "item_dec bs = Some (x, rest) \<Longrightarrow> bs = item_enc x @ rest \<and> item_ok x"
    and item_enc_nonempty: "item_enc x \<noteq> []"
begin

lemma item_progress: "item_dec bs = Some (x, rest) \<Longrightarrow> length rest < length bs"
  using item_dec_sound [of bs x rest] item_enc_nonempty [of x] by auto

lemma item_prefix_unique:
  assumes "item_ok x" "item_ok y" "item_enc x @ r = item_enc y @ r'"
  shows "x = y \<and> r = r'"
proof -
  have "Some (x, r) = item_dec (item_enc y @ r')"
    by (simp only: item_dec_enc [OF assms(1)] flip: assms(3))
  then show ?thesis by (simp add: item_dec_enc [OF assms(2)])
qed

lemma items_unique:
  "list_all item_ok xs \<Longrightarrow> list_all item_ok ys \<Longrightarrow>
   concat (map item_enc xs) = concat (map item_enc ys) \<Longrightarrow> xs = ys"
proof (induction xs arbitrary: ys)
  case Nil
  then show ?case using item_enc_nonempty by (cases ys) auto
next
  case (Cons x xs)
  from Cons.prems(3) item_enc_nonempty obtain y ys' where ys: "ys = y # ys'" by (cases ys) auto
  have "x = y \<and> concat (map item_enc xs) = concat (map item_enc ys')"
    using Cons.prems ys by (intro item_prefix_unique) auto
  with Cons ys show ?case by auto
qed

end

end
