(* ===== verification/F64.thy ===== *)
theory F64
  imports Prelude "HOL-Library.Product_Lexorder"
begin

text \<open>
  IEEE 754 binary64, the \<open>f64\<close> of the daemon's arithmetic. A value is a NaN, an infinity, or
  a sign with a rational magnitude; every operation computes the exact rational result and
  rounds it once, to nearest with ties to even, with gradual underflow and overflow to
  infinity, as the hardware does. NaN payloads and NaN signs, which Rust leaves unspecified,
  are not distinguished; signed zeros are, because \<open>total_cmp\<close> sees them.
\<close>

section \<open>Values\<close>

datatype f64 = NaN | Inf bool | Fin bool rat

fun is_nan :: "f64 \<Rightarrow> bool" where
  "is_nan NaN = True"
| "is_nan (Inf s) = False"
| "is_nan (Fin s m) = False"

fun is_finite :: "f64 \<Rightarrow> bool" where
  "is_finite (Fin s m) = True"
| "is_finite (Inf s) = False"
| "is_finite NaN = False"

text \<open>The exact value of a finite number.\<close>

fun val :: "f64 \<Rightarrow> rat" where
  "val (Fin s m) = (if s then - m else m)"
| "val (Inf s) = 0"
| "val NaN = 0"

section \<open>Rounding\<close>

fun nlog2 :: "nat \<Rightarrow> nat" where
  "nlog2 n = (if n < 2 then 0 else Suc (nlog2 (n div 2)))"

declare nlog2.simps [simp del]

text \<open>\<open>\<lfloor>log\<^sub>2 x\<rfloor>\<close> of a positive rational.\<close>

definition ilog2 :: "rat \<Rightarrow> int" where
  "ilog2 x = (let (n, d) = quotient_of x;
                  k = int (nlog2 (nat n)) - int (nlog2 (nat d))
              in if 2 powi k \<le> x then k else k - 1)"

text \<open>Round half to even.\<close>

definition rhe :: "rat \<Rightarrow> int" where
  "rhe x = (let f = \<lfloor>x\<rfloor>; r = x - of_int f
            in if r < 1 / 2 then f
               else if 1 / 2 < r then f + 1
               else if even f then f else f + 1)"

text \<open>The distance between neighbouring doubles at \<open>x\<close>: 53 bits, subnormals below.\<close>

definition quantum :: "rat \<Rightarrow> rat" where
  "quantum x = 2 powi (max (ilog2 x - 52) (- 1074))"

definition round_mag :: "rat \<Rightarrow> rat" where
  "round_mag x = (if x \<le> 0 then 0 else of_int (rhe (x / quantum x)) * quantum x)"

definition f64_top :: rat where
  "f64_top = 2 ^ 1024"

definition rnd :: "bool \<Rightarrow> rat \<Rightarrow> f64" where
  "rnd s x = (let y = round_mag x in if f64_top \<le> y then Inf s else Fin s y)"

text \<open>A decimal literal of the source is the double nearest to it.\<close>

definition lit :: "rat \<Rightarrow> f64" where
  "lit x = rnd (x < 0) \<bar>x\<bar>"

section \<open>Facts about rounding\<close>

lemma nlog2_bounds: "0 < n \<Longrightarrow> 2 ^ nlog2 n \<le> n \<and> n < 2 * 2 ^ nlog2 n"
proof (induction n rule: nlog2.induct)
  case (1 n)
  show ?case
  proof (cases "n < 2")
    case True
    with "1.prems" have "n = 1" by simp
    then show ?thesis by (simp add: nlog2.simps)
  next
    case False
    with "1.IH" have "2 ^ nlog2 (n div 2) \<le> n div 2 \<and> n div 2 < 2 * 2 ^ nlog2 (n div 2)"
      by simp
    with False show ?thesis by (subst (1 2) nlog2.simps) auto
  qed
qed

lemma ilog2_bounds:
  assumes "0 < x"
  shows "2 powi ilog2 x \<le> x" and "x < 2 powi (ilog2 x + 1)"
proof -
  obtain n d where q: "quotient_of x = (n, d)" by (cases "quotient_of x")
  have d: "0 < d" and x: "x = of_int n / of_int d"
    using q quotient_of_denom_pos quotient_of_div by auto
  have n: "0 < n" using assms d x by (simp add: zero_less_divide_iff)
  define a b where "a = nlog2 (nat n)" and "b = nlog2 (nat d)"
  have na: "2 ^ a \<le> nat n" "nat n < 2 * 2 ^ a"
    using nlog2_bounds [of "nat n"] n by (auto simp: a_def)
  have nb: "2 ^ b \<le> nat d" "nat d < 2 * 2 ^ b"
    using nlog2_bounds [of "nat d"] d by (auto simp: b_def)
  have of_nat_n: "(of_nat (nat n) :: rat) = of_int n" and of_nat_d: "(of_nat (nat d) :: rat) = of_int d"
    using n d by simp_all
  have n1: "(2::rat) ^ a \<le> of_int n" "of_int n < (2::rat) * 2 ^ a"
    using na of_nat_mono [OF na(1), where 'a = rat] of_nat_less_iff [where 'a = rat, THEN iffD2, OF na(2)]
    by (simp_all add: of_nat_n)
  have d1: "(2::rat) ^ b \<le> of_int d" "of_int d < (2::rat) * 2 ^ b"
    using nb of_nat_mono [OF nb(1), where 'a = rat] of_nat_less_iff [where 'a = rat, THEN iffD2, OF nb(2)]
    by (simp_all add: of_nat_d)
  let ?k = "int a - int b"
  have k: "(2::rat) powi ?k = 2 ^ a / 2 ^ b" by (simp add: power_int_diff)
  have up: "x < 2 powi (?k + 1)"
  proof -
    have "x < 2 * 2 ^ a / 2 ^ b"
      unfolding x using n1 d1 n d by (intro frac_less) auto
    then show ?thesis by (simp add: power_int_add k mult.commute)
  qed
  have lo: "2 powi (?k - 1) \<le> x"
  proof -
    have "2 ^ a / (2 * 2 ^ b) \<le> x"
      unfolding x using n1 d1 n d by (intro frac_le) auto
    then show ?thesis by (simp add: power_int_diff k)
  qed
  have e: "ilog2 x = (if 2 powi ?k \<le> x then ?k else ?k - 1)"
    by (simp add: ilog2_def q a_def b_def Let_def)
  show "2 powi ilog2 x \<le> x" using lo by (auto simp: e)
  show "x < 2 powi (ilog2 x + 1)" using up by (auto simp: e)
qed

lemma two_powi_less: "(2::rat) powi a < 2 powi b \<longleftrightarrow> a < b"
  using power_int_strict_increasing [of a b "2::rat"] power_int_increasing [of b a "2::rat"]
  by (cases "a < b") auto

lemma ilog2_eqI: "2 powi e \<le> x \<Longrightarrow> x < 2 powi (e + 1) \<Longrightarrow> ilog2 x = e"
proof -
  assume a: "2 powi e \<le> x" "x < 2 powi (e + 1)"
  have "0 < x" using a(1) by (rule less_le_trans [rotated]) simp
  note b = ilog2_bounds [OF this]
  have "(2::rat) powi e < 2 powi (ilog2 x + 1)" "(2::rat) powi ilog2 x < 2 powi (e + 1)"
    using a b by linarith+
  then show ?thesis by (simp add: two_powi_less)
qed

lemma ilog2_mono: "0 < x \<Longrightarrow> x \<le> y \<Longrightarrow> ilog2 x \<le> ilog2 y"
proof -
  assume a: "0 < x" "x \<le> y"
  have "(2::rat) powi ilog2 x < 2 powi (ilog2 y + 1)"
    using ilog2_bounds [of x] ilog2_bounds [of y] a by linarith
  then show ?thesis by (simp add: two_powi_less)
qed

lemma ilog2_base: "1 \<le> x \<Longrightarrow> x < 2 \<Longrightarrow> ilog2 x = 0"
  by (rule ilog2_eqI) simp_all

lemma ilog2_up: "2 \<le> x \<Longrightarrow> ilog2 x = ilog2 (x / 2) + 1"
  using ilog2_bounds [of "x / 2"]
  by (intro ilog2_eqI) (simp_all add: power_int_add)

lemma ilog2_down: "0 < x \<Longrightarrow> x < 1 \<Longrightarrow> ilog2 x = ilog2 (2 * x) - 1"
  using ilog2_bounds [of "2 * x"]
  by (intro ilog2_eqI) (simp_all add: power_int_add power_int_diff)

lemma floor_rat_numeral:
  "\<lfloor>(numeral a :: rat) / numeral b\<rfloor> = numeral a div numeral b"
  "\<lfloor>1 / (numeral b :: rat)\<rfloor> = 1 div numeral b"
  using floor_divide_of_int_eq [of "numeral a" "numeral b", where 'a = rat]
    floor_divide_of_int_eq [of 1 "numeral b", where 'a = rat] by simp_all

lemmas ilog2_eval = ilog2_base ilog2_up ilog2_down

lemmas rnd_eval = lit_def rnd_def f64_top_def round_mag_def quantum_def rhe_def ilog2_eval Let_def floor_rat_numeral

lemma rhe_of_int [simp]: "rhe (of_int n) = n"
  by (simp add: rhe_def)

lemma rhe_bounds: "\<lfloor>x\<rfloor> \<le> rhe x" "rhe x \<le> \<lfloor>x\<rfloor> + 1"
  by (simp_all add: rhe_def Let_def)

lemma rhe_mono: "x \<le> y \<Longrightarrow> rhe x \<le> rhe y"
proof -
  assume le: "x \<le> y"
  then have f: "\<lfloor>x\<rfloor> \<le> \<lfloor>y\<rfloor>" by (rule floor_mono)
  show "rhe x \<le> rhe y"
  proof (cases "\<lfloor>x\<rfloor> = \<lfloor>y\<rfloor>")
    case True
    with le show ?thesis by (auto simp: rhe_def Let_def)
  next
    case False
    with f rhe_bounds [of x] rhe_bounds [of y] show ?thesis by linarith
  qed
qed

lemma rhe_le: "x \<le> of_int n \<Longrightarrow> rhe x \<le> n"
  using rhe_mono [of x "of_int n"] by simp

lemma rhe_ge: "of_int n \<le> x \<Longrightarrow> n \<le> rhe x"
  using rhe_mono [of "of_int n" x] by simp

lemma quantum_pos [simp]: "0 < quantum x"
  by (simp add: quantum_def)

lemma quantum_nz [simp]: "quantum x \<noteq> 0"
  using quantum_pos [of x] by linarith

lemma round_mag_le: "0 < x \<Longrightarrow> x \<le> of_int n * quantum x \<Longrightarrow> round_mag x \<le> of_int n * quantum x"
  by (simp add: round_mag_def) (rule rhe_le, simp add: pos_divide_le_eq)

lemma round_mag_ge: "0 < x \<Longrightarrow> of_int n * quantum x \<le> x \<Longrightarrow> of_int n * quantum x \<le> round_mag x"
  by (simp add: round_mag_def) (rule rhe_ge, simp add: pos_le_divide_eq)

lemma powi_mult_quantum:
  assumes "max (ilog2 x - 52) (- 1074) \<le> k"
  obtains n :: int where "2 powi k = of_int n * quantum x"
proof
  let ?m = "max (ilog2 x - 52) (- 1074)"
  have "(2::rat) powi k = 2 powi (k - ?m) * 2 powi ?m"
    by (simp flip: power_int_add)
  also have "(2::rat) powi (k - ?m) = of_int (2 ^ nat (k - ?m))"
    using assms by (simp add: power_int_def)
  finally show "2 powi k = of_int (2 ^ nat (k - ?m)) * quantum x"
    by (simp add: quantum_def)
qed

lemma round_mag_le_powi:
  assumes "0 < x" "x \<le> 2 powi k" "max (ilog2 x - 52) (- 1074) \<le> k"
  shows "round_mag x \<le> 2 powi k"
  using powi_mult_quantum [OF assms(3)] assms(1,2) round_mag_le by metis

lemma round_mag_ge_powi:
  assumes "0 < x" "2 powi k \<le> x" "max (ilog2 x - 52) (- 1074) \<le> k"
  shows "2 powi k \<le> round_mag x"
  using powi_mult_quantum [OF assms(3)] assms(1,2) round_mag_ge by metis

lemma round_mag_nonneg [simp]: "0 \<le> round_mag x"
proof -
  have "0 \<le> rhe (x / quantum x)" if "0 < x"
    using that quantum_pos [of x] by (intro rhe_ge) (simp add: divide_nonneg_pos)
  then show ?thesis
    by (auto simp: round_mag_def intro!: mult_nonneg_nonneg less_imp_le [OF quantum_pos])
qed

text \<open>Rounding is monotone: the fact every order property of the arithmetic rests on.\<close>

lemma round_mag_mono:
  assumes "x \<le> y"
  shows "round_mag x \<le> round_mag y"
proof (cases "0 < x")
  case False
  then show ?thesis by (simp add: round_mag_def [of x])
next
  case x: True
  with assms have y: "0 < y" by simp
  have le: "ilog2 x \<le> ilog2 y" using x assms by (rule ilog2_mono)
  show ?thesis
  proof (cases "max (ilog2 x - 52) (- 1074) = max (ilog2 y - 52) (- 1074)")
    case True
    then have q: "quantum x = quantum y" by (simp add: quantum_def)
    have "rhe (x / quantum y) \<le> rhe (y / quantum y)"
      using assms by (intro rhe_mono divide_right_mono) (auto intro: less_imp_le)
    then show ?thesis using x y by (simp add: round_mag_def q mult_right_mono less_imp_le)
  next
    case False
    with le have m: "ilog2 x < ilog2 y" "max (ilog2 y - 52) (- 1074) \<le> ilog2 y"
      and mx: "max (ilog2 x - 52) (- 1074) \<le> ilog2 y" by linarith+
    have "(2::rat) powi (ilog2 x + 1) \<le> 2 powi ilog2 y"
      using m by (intro power_int_increasing) auto
    then have "x \<le> 2 powi ilog2 y" using ilog2_bounds(2) [OF x] by linarith
    then have "round_mag x \<le> 2 powi ilog2 y" using x mx by (intro round_mag_le_powi)
    also have "\<dots> \<le> round_mag y" using y ilog2_bounds(1) [OF y] m(2) by (rule round_mag_ge_powi)
    finally show ?thesis .
  qed
qed

section \<open>Representable magnitudes\<close>

definition rep :: "rat \<Rightarrow> bool" where
  "rep x \<longleftrightarrow> 0 \<le> x \<and> round_mag x = x"

lemma repI: "0 < x \<Longrightarrow> x = of_int n * quantum x \<Longrightarrow> rep x"
  unfolding rep_def round_mag_def
  by (metis less_imp_le not_less nonzero_mult_div_cancel_right quantum_nz rhe_of_int)

lemma round_mag_0 [simp]: "round_mag 0 = 0"
  by (simp add: round_mag_def)

lemma rep_0 [simp]: "rep 0"
  by (simp add: rep_def)

lemma rep_nonneg: "rep x \<Longrightarrow> 0 \<le> x"
  by (simp add: rep_def)

lemma rep_powi: "- 1074 \<le> k \<Longrightarrow> rep (2 powi k)"
proof -
  assume k: "- 1074 \<le> k"
  have e: "ilog2 (2 powi k) = k" by (rule ilog2_eqI) (simp_all add: power_int_add)
  then have "max (ilog2 (2 powi k) - 52) (- 1074) \<le> k" using k by simp
  from powi_mult_quantum [OF this] obtain n :: int
    where "2 powi k = of_int n * quantum (2 powi k)" .
  then show ?thesis by (intro repI) auto
qed

lemma rep_1 [simp]: "rep 1"
  using rep_powi [of 0] by simp

lemma rep_2 [simp]: "rep 2"
  using rep_powi [of 1] by simp

text \<open>A rounded value is representable: a second rounding changes nothing.\<close>

lemma rep_round_mag [simp]: "rep (round_mag x)"
proof (cases "0 < x")
  case False
  then show ?thesis by (simp add: round_mag_def)
next
  case x: True
  define e where "e = ilog2 x"
  define m where "m = max (e - 52) (- 1074)"
  have q: "quantum x = 2 powi m" by (simp add: quantum_def e_def m_def)
  let ?n = "rhe (x / quantum x)"
  have y: "round_mag x = of_int ?n * 2 powi m" using x by (simp add: round_mag_def q)
  have hi: "round_mag x \<le> 2 powi (max (e + 1) (- 1074))"
    using x ilog2_bounds(2) [OF x] power_int_increasing [of "e + 1" "max (e + 1) (- 1074)" "2::rat"]
    by (intro round_mag_le_powi) (auto simp: e_def)
  show ?thesis
  proof (cases "round_mag x = 0 \<or> round_mag x = 2 powi (max (e + 1) (- 1074))")
    case True
    then show ?thesis by (auto simp: rep_powi)
  next
    case False
    then have pos: "0 < round_mag x" using round_mag_nonneg [of x] by linarith
    have lt: "round_mag x < 2 powi (max (e + 1) (- 1074))" using hi False by simp
    have "(2::rat) powi ilog2 (round_mag x) < 2 powi (max (e + 1) (- 1074))"
      using ilog2_bounds(1) [OF pos] lt by linarith
    then have "ilog2 (round_mag x) < max (e + 1) (- 1074)" by (simp add: two_powi_less)
    moreover have "e \<le> ilog2 (round_mag x)" if "- 1022 \<le> e"
    proof -
      have "2 powi e \<le> round_mag x"
        using x ilog2_bounds(1) [OF x] that by (intro round_mag_ge_powi) (auto simp: e_def)
      then have "(2::rat) powi e < 2 powi (ilog2 (round_mag x) + 1)"
        using ilog2_bounds(2) [OF pos] by linarith
      then show ?thesis by (simp add: two_powi_less)
    qed
    ultimately have "max (ilog2 (round_mag x) - 52) (- 1074) = m"
      unfolding m_def by (cases "- 1022 \<le> e") auto
    then have "quantum (round_mag x) = 2 powi m" by (simp add: quantum_def)
    with y pos show ?thesis by (metis repI)
  qed
qed

lemma round_mag_idem [simp]: "round_mag (round_mag x) = round_mag x"
  using rep_round_mag [of x] by (simp add: rep_def)

lemma rep_round_le: "rep y \<Longrightarrow> x \<le> y \<Longrightarrow> round_mag x \<le> y"
  using round_mag_mono [of x y] by (simp add: rep_def)

lemma rep_round_ge: "rep y \<Longrightarrow> y \<le> x \<Longrightarrow> y \<le> round_mag x"
  using round_mag_mono [of y x] by (simp add: rep_def)

section \<open>Arithmetic\<close>

text \<open>The exact result \<open>v\<close> of an operation, rounded; \<open>z\<close> is the sign of an exact zero.\<close>

definition fround :: "bool \<Rightarrow> rat \<Rightarrow> f64" where
  "fround z v = (if v = 0 then Fin z 0 else rnd (v < 0) \<bar>v\<bar>)"

fun fneg :: "f64 \<Rightarrow> f64" where
  "fneg NaN = NaN"
| "fneg (Inf s) = Inf (\<not> s)"
| "fneg (Fin s m) = Fin (\<not> s) m"

fun fabs :: "f64 \<Rightarrow> f64" where
  "fabs NaN = NaN"
| "fabs (Inf s) = Inf False"
| "fabs (Fin s m) = Fin False m"

fun fadd :: "f64 \<Rightarrow> f64 \<Rightarrow> f64" where
  "fadd NaN y = NaN"
| "fadd x NaN = NaN"
| "fadd (Inf s) (Inf t) = (if s = t then Inf s else NaN)"
| "fadd (Inf s) (Fin t n) = Inf s"
| "fadd (Fin s m) (Inf t) = Inf t"
| "fadd (Fin s m) (Fin t n) = fround (s \<and> t) (val (Fin s m) + val (Fin t n))"

definition fsub :: "f64 \<Rightarrow> f64 \<Rightarrow> f64" where
  "fsub x y = fadd x (fneg y)"

fun fmul :: "f64 \<Rightarrow> f64 \<Rightarrow> f64" where
  "fmul NaN y = NaN"
| "fmul x NaN = NaN"
| "fmul (Inf s) (Inf t) = Inf (s \<noteq> t)"
| "fmul (Inf s) (Fin t n) = (if n = 0 then NaN else Inf (s \<noteq> t))"
| "fmul (Fin s m) (Inf t) = (if m = 0 then NaN else Inf (s \<noteq> t))"
| "fmul (Fin s m) (Fin t n) = rnd (s \<noteq> t) (m * n)"

fun fdiv :: "f64 \<Rightarrow> f64 \<Rightarrow> f64" where
  "fdiv NaN y = NaN"
| "fdiv x NaN = NaN"
| "fdiv (Inf s) (Inf t) = NaN"
| "fdiv (Inf s) (Fin t n) = Inf (s \<noteq> t)"
| "fdiv (Fin s m) (Inf t) = Fin (s \<noteq> t) 0"
| "fdiv (Fin s m) (Fin t n) =
     (if n = 0 then (if m = 0 then NaN else Inf (s \<noteq> t)) else rnd (s \<noteq> t) (m / n))"

text \<open>The square root, correctly rounded: an integer root of the scaled argument decides it.\<close>

fun isqrt :: "nat \<Rightarrow> nat" where
  "isqrt n = (if n = 0 then 0
              else let s = 2 * isqrt (n div 4) in if (s + 1) * (s + 1) \<le> n then s + 1 else s)"

declare isqrt.simps [simp del]

definition sqrt_mag :: "rat \<Rightarrow> rat" where
  "sqrt_mag x =
     (if x \<le> 0 then 0
      else let q = 2 powi (ilog2 x div 2 - 52);
               y = x / (q * q);
               s = of_nat (isqrt (nat \<lfloor>y\<rfloor>));
               h = (s + 1 / 2) * (s + 1 / 2)
           in (if h < y \<or> (h = y \<and> odd (isqrt (nat \<lfloor>y\<rfloor>))) then s + 1 else s) * q)"

fun fsqrt :: "f64 \<Rightarrow> f64" where
  "fsqrt NaN = NaN"
| "fsqrt (Inf s) = (if s then NaN else Inf False)"
| "fsqrt (Fin s m) =
     (let v = val (Fin s m)
      in if v = 0 then Fin s m else if v < 0 then NaN else Fin False (sqrt_mag v))"

section \<open>Comparison\<close>

fun fkey :: "f64 \<Rightarrow> int \<times> rat" where
  "fkey (Inf s) = (if s then - 1 else 1, 0)"
| "fkey (Fin s m) = (0, val (Fin s m))"
| "fkey NaN = (2, 0)"

definition flt :: "f64 \<Rightarrow> f64 \<Rightarrow> bool" where
  "flt x y \<longleftrightarrow> \<not> is_nan x \<and> \<not> is_nan y \<and> fkey x < fkey y"

definition fle :: "f64 \<Rightarrow> f64 \<Rightarrow> bool" where
  "fle x y \<longleftrightarrow> \<not> is_nan x \<and> \<not> is_nan y \<and> fkey x \<le> fkey y"

definition feq :: "f64 \<Rightarrow> f64 \<Rightarrow> bool" where
  "feq x y \<longleftrightarrow> \<not> is_nan x \<and> \<not> is_nan y \<and> fkey x = fkey y"

text \<open>\<open>f64::max\<close> and \<open>f64::min\<close> ignore a NaN; \<open>clamp\<close> keeps one.\<close>

definition fmax :: "f64 \<Rightarrow> f64 \<Rightarrow> f64" where
  "fmax x y = (if is_nan x then y else if is_nan y then x else if flt x y then y else x)"

definition fmin :: "f64 \<Rightarrow> f64 \<Rightarrow> f64" where
  "fmin x y = (if is_nan x then y else if is_nan y then x else if flt y x then y else x)"

definition fclamp :: "f64 \<Rightarrow> f64 \<Rightarrow> f64 \<Rightarrow> f64" where
  "fclamp x lo hi = (if flt x lo then lo else if flt hi x then hi else x)"

text \<open>\<open>total_cmp\<close>: IEEE totalOrder, as the linear order of the type.\<close>

fun tkey :: "f64 \<Rightarrow> int \<times> rat \<times> bool" where
  "tkey (Inf s) = (if s then - 1 else 1, 0, \<not> s)"
| "tkey (Fin s m) = (0, val (Fin s m), \<not> s)"
| "tkey NaN = (2, 0, True)"

lemma tkey_inj: "tkey x = tkey y \<Longrightarrow> x = y"
  by (cases x; cases y) (auto split: if_splits)

instantiation f64 :: linorder
begin

definition less_eq_f64 :: "f64 \<Rightarrow> f64 \<Rightarrow> bool" where
  "x \<le> y \<longleftrightarrow> tkey x \<le> tkey y"

definition less_f64 :: "f64 \<Rightarrow> f64 \<Rightarrow> bool" where
  "x < y \<longleftrightarrow> tkey x < tkey y"

instance
  by standard (auto simp: less_eq_f64_def less_f64_def intro: tkey_inj)

end

section \<open>Conversions\<close>

definition f_of_int :: "int \<Rightarrow> f64" where
  "f_of_int n = fround False (of_int n)"

text \<open>\<open>as i64\<close> and its kin truncate towards zero and saturate; a NaN is zero.\<close>

definition rat_trunc :: "rat \<Rightarrow> int" where
  "rat_trunc v = (if 0 \<le> v then \<lfloor>v\<rfloor> else - \<lfloor>- v\<rfloor>)"

fun f_to_int :: "int \<Rightarrow> int \<Rightarrow> f64 \<Rightarrow> int" where
  "f_to_int lo hi NaN = 0"
| "f_to_int lo hi (Inf s) = (if s then lo else hi)"
| "f_to_int lo hi (Fin s m) = max lo (min hi (rat_trunc (val (Fin s m))))"

abbreviation f_to_i64 :: "f64 \<Rightarrow> int" where
  "f_to_i64 \<equiv> f_to_int i64_min i64_max"

text \<open>\<open>(2.0f64).powi(n)\<close>, exact for every exponent the code passes; \<open>x.powi(2)\<close>.\<close>

definition f_pow2 :: "int \<Rightarrow> f64" where
  "f_pow2 n = rnd False (2 powi n)"

definition f_sq :: "f64 \<Rightarrow> f64" where
  "f_sq x = fmul x x"

text \<open>\<open>iter().sum()\<close> folds from negative zero, the identity of addition.\<close>

definition f_sum :: "f64 list \<Rightarrow> f64" where
  "f_sum xs = foldl fadd (Fin True 0) xs"

section \<open>Order facts\<close>

abbreviation fzero :: f64 where "fzero \<equiv> Fin False 0"

definition fnonneg :: "f64 \<Rightarrow> bool" where
  "fnonneg x \<longleftrightarrow> fle fzero x"

lemma is_finite_not_nan [simp]: "is_finite x \<Longrightarrow> \<not> is_nan x"
  by (cases x) auto

lemma fle_refl [simp]: "fle x x \<longleftrightarrow> \<not> is_nan x"
  by (simp add: fle_def)

lemma fle_trans: "fle x y \<Longrightarrow> fle y z \<Longrightarrow> fle x z"
  by (auto simp: fle_def)

lemma flt_le_trans: "flt x y \<Longrightarrow> fle y z \<Longrightarrow> flt x z"
  by (auto simp: fle_def flt_def)

lemma fle_lt_trans: "fle x y \<Longrightarrow> flt y z \<Longrightarrow> flt x z"
  by (auto simp: fle_def flt_def)

lemma flt_trans: "flt x y \<Longrightarrow> flt y z \<Longrightarrow> flt x z"
  by (auto simp: flt_def)

lemma flt_imp_fle: "flt x y \<Longrightarrow> fle x y"
  by (auto simp: fle_def flt_def)

lemma flt_irrefl [simp]: "\<not> flt x x"
  by (simp add: flt_def)

lemma not_flt: "\<not> is_nan x \<Longrightarrow> \<not> is_nan y \<Longrightarrow> \<not> flt x y \<longleftrightarrow> fle y x"
  by (auto simp: fle_def flt_def)

lemma not_fle: "\<not> is_nan x \<Longrightarrow> \<not> is_nan y \<Longrightarrow> \<not> fle x y \<longleftrightarrow> flt y x"
  by (auto simp: fle_def flt_def)

lemma flt_nan [simp]: "\<not> flt NaN x" "\<not> flt x NaN" "\<not> fle NaN x" "\<not> fle x NaN"
  by (simp_all add: fle_def flt_def)

lemma fle_not_nan: "fle x y \<Longrightarrow> \<not> is_nan x \<and> \<not> is_nan y"
  by (simp add: fle_def)

lemma fle_val: "is_finite x \<Longrightarrow> is_finite y \<Longrightarrow> fle x y \<longleftrightarrow> val x \<le> val y"
  by (cases x; cases y) (auto simp: fle_def)

lemma flt_val: "is_finite x \<Longrightarrow> is_finite y \<Longrightarrow> flt x y \<longleftrightarrow> val x < val y"
  by (cases x; cases y) (auto simp: flt_def)

text \<open>A number between two finite numbers is finite.\<close>

lemma is_finite_between: "fle lo x \<Longrightarrow> fle x hi \<Longrightarrow> is_finite lo \<Longrightarrow> is_finite hi \<Longrightarrow> is_finite x"
  by (cases x; cases lo; cases hi) (auto simp: fle_def split: if_splits)

text \<open>The total order refines the arithmetic one.\<close>

lemma fle_of_le: "x \<le> y \<Longrightarrow> \<not> is_nan x \<Longrightarrow> \<not> is_nan y \<Longrightarrow> fle x y"
  by (cases x; cases y) (auto simp: less_eq_f64_def fle_def split: if_splits)

lemma less_of_flt: "flt x y \<Longrightarrow> x < y"
  by (cases x; cases y) (auto simp: less_f64_def flt_def split: if_splits)

lemma fle_of_less: "x < y \<Longrightarrow> \<not> is_nan x \<Longrightarrow> \<not> is_nan y \<Longrightarrow> fle x y"
  by (simp add: fle_of_le less_imp_le)

lemma le_nan_is_nan: "x \<le> y \<Longrightarrow> is_nan x \<Longrightarrow> is_nan y"
  by (cases x; cases y) (auto simp: less_eq_f64_def split: if_splits)

lemma fclamp_bounds:
  assumes "\<not> is_nan x" "fle lo hi"
  shows "fle lo (fclamp x lo hi)" and "fle (fclamp x lo hi) hi"
  using assms by (auto simp: fclamp_def fle_def flt_def)

lemma fclamp_finite:
  "\<not> is_nan x \<Longrightarrow> fle lo hi \<Longrightarrow> is_finite lo \<Longrightarrow> is_finite hi \<Longrightarrow> is_finite (fclamp x lo hi)"
  by (rule is_finite_between [OF fclamp_bounds])

lemma fclamp_id: "fle lo x \<Longrightarrow> fle x hi \<Longrightarrow> fclamp x lo hi = x"
  by (auto simp: fclamp_def fle_def flt_def)

lemma fmax_ge2: "\<not> is_nan y \<Longrightarrow> fle y (fmax x y)"
  by (auto simp: fmax_def fle_def flt_def)

lemma fmax_ge1: "\<not> is_nan x \<Longrightarrow> fle x (fmax x y)"
  by (auto simp: fmax_def fle_def flt_def)

lemma fmin_le2: "\<not> is_nan y \<Longrightarrow> fle (fmin x y) y"
  by (auto simp: fmin_def fle_def flt_def)

lemma fmin_le1: "\<not> is_nan x \<Longrightarrow> fle (fmin x y) x"
  by (auto simp: fmin_def fle_def flt_def)

lemma fmax_cases: "fmax x y = x \<or> fmax x y = y"
  by (simp add: fmax_def)

lemma fmin_cases: "fmin x y = x \<or> fmin x y = y"
  by (simp add: fmin_def)

lemma fmax_finite: "is_finite x \<Longrightarrow> is_finite y \<Longrightarrow> is_finite (fmax x y)"
  by (simp add: fmax_def)

lemma fmin_finite: "is_finite x \<Longrightarrow> is_finite y \<Longrightarrow> is_finite (fmin x y)"
  by (simp add: fmin_def)

lemma fmax_not_nan: "\<not> is_nan y \<Longrightarrow> \<not> is_nan (fmax x y)"
  by (simp add: fmax_def)

section \<open>Rounded results\<close>

lemma f64_top_pos [simp]: "0 < f64_top" "\<not> f64_top \<le> 0"
  by (simp_all add: f64_top_def)

lemma rnd_not_nan [simp]: "\<not> is_nan (rnd s x)"
  by (simp add: rnd_def Let_def)

lemma fround_not_nan [simp]: "\<not> is_nan (fround z v)"
  by (simp add: fround_def)

lemma rnd_finite: "x \<le> 2 ^ 1023 \<Longrightarrow> is_finite (rnd s x)"
proof -
  assume "x \<le> 2 ^ 1023"
  then have "round_mag x \<le> 2 powi 1023" using rep_powi [of 1023] by (intro rep_round_le) auto
  then have "round_mag x < f64_top" by (simp add: f64_top_def)
  then show ?thesis by (simp add: rnd_def Let_def)
qed

lemma fround_finite: "\<bar>v\<bar> \<le> 2 ^ 1023 \<Longrightarrow> is_finite (fround z v)"
  by (simp add: fround_def rnd_finite)

lemma fkey_rnd:
  "fkey (rnd s x) = (if f64_top \<le> round_mag x then (if s then - 1 else 1, 0)
                     else (0, if s then - round_mag x else round_mag x))"
  by (simp add: rnd_def Let_def)

lemma fround_mono: "v \<le> w \<Longrightarrow> fle (fround z v) (fround z' w)"
proof -
  assume "v \<le> w"
  moreover have "round_mag \<bar>v\<bar> \<le> round_mag \<bar>w\<bar>" if "0 \<le> v" "v \<le> w"
    using that by (intro round_mag_mono) simp
  moreover have "round_mag \<bar>w\<bar> \<le> round_mag \<bar>v\<bar>" if "w \<le> 0" "v \<le> w"
    using that by (intro round_mag_mono) simp
  moreover have "0 \<le> round_mag \<bar>v\<bar>" "0 \<le> round_mag \<bar>w\<bar>"
      "- round_mag \<bar>v\<bar> \<le> round_mag \<bar>w\<bar>"
    using round_mag_nonneg [of "\<bar>v\<bar>"] round_mag_nonneg [of "\<bar>w\<bar>"] by linarith+
  ultimately show ?thesis
    unfolding fle_def
    by (cases "v < 0"; cases "0 < w") (auto simp: fround_def fkey_rnd)
qed

text \<open>Values the arithmetic can produce: representable magnitudes in range.\<close>

fun f64_ok :: "f64 \<Rightarrow> bool" where
  "f64_ok (Fin s m) \<longleftrightarrow> rep m \<and> m < f64_top"
| "f64_ok (Inf s) \<longleftrightarrow> True"
| "f64_ok NaN \<longleftrightarrow> True"

lemma f64_ok_rnd [simp]: "f64_ok (rnd s x)"
  by (simp add: rnd_def Let_def)

lemma f64_ok_fround [simp]: "f64_ok (fround z v)"
  by (simp add: fround_def)

lemma fround_val_key: "f64_ok x \<Longrightarrow> is_finite x \<Longrightarrow> fkey (fround z (val x)) = fkey x"
  by (cases x) (auto simp: fround_def fkey_rnd rep_def)

lemma fle_round_iff:
  assumes "f64_ok x" "is_finite x"
  shows "val x \<le> v \<Longrightarrow> fle x (fround z v)" and "v \<le> val x \<Longrightarrow> fle (fround z v) x"
  using fround_mono [of "val x" v True z] fround_mono [of v "val x" z True]
    fround_val_key [OF assms, of True] assms
  by (auto simp: fle_def)

section \<open>Bounds of the operations\<close>

lemma rnd_abs_le:
  assumes "rep b" "b \<le> 2 ^ 1023" "x \<le> b"
  shows "is_finite (rnd s x)" and "\<bar>val (rnd s x)\<bar> \<le> b"
proof -
  show "is_finite (rnd s x)" using assms by (intro rnd_finite) simp
  moreover have "round_mag x \<le> b" using assms by (intro rep_round_le)
  ultimately show "\<bar>val (rnd s x)\<bar> \<le> b"
    using round_mag_nonneg [of x] by (auto simp: rnd_def Let_def split: if_splits)
qed

lemma fround_abs_le:
  assumes "rep b" "b \<le> 2 ^ 1023" "\<bar>v\<bar> \<le> b"
  shows "is_finite (fround z v)" and "\<bar>val (fround z v)\<bar> \<le> b"
  using rnd_abs_le [OF assms(1,2), of "\<bar>v\<bar>"] assms(3) rep_nonneg [OF assms(1)]
  by (auto simp: fround_def)

lemma val_fneg [simp]: "val (fneg x) = - val x"
  by (cases x) auto

lemma is_finite_fneg [simp]: "is_finite (fneg x) \<longleftrightarrow> is_finite x"
  by (cases x) auto

lemma is_finite_fabs [simp]: "is_finite (fabs x) \<longleftrightarrow> is_finite x"
  by (cases x) auto

lemma f64_ok_fneg [simp]: "f64_ok (fneg x) \<longleftrightarrow> f64_ok x"
  by (cases x) auto

lemma fneg_fneg [simp]: "fneg (fneg x) = x"
  by (cases x) auto

lemma val_fabs: "f64_ok x \<Longrightarrow> val (fabs x) = \<bar>val x\<bar>"
  by (cases x) (auto dest: rep_nonneg)

lemma fadd_fin: "is_finite x \<Longrightarrow> is_finite y \<Longrightarrow> \<exists>z. fadd x y = fround z (val x + val y)"
  by (cases x; cases y) auto

lemma fsub_fin: "is_finite x \<Longrightarrow> is_finite y \<Longrightarrow> \<exists>z. fsub x y = fround z (val x - val y)"
  using fadd_fin [of x "fneg y"] by (simp add: fsub_def)

lemma fadd_not_nan: "is_finite x \<Longrightarrow> \<not> is_nan y \<Longrightarrow> \<not> is_nan (fadd x y)"
  by (cases x; cases y) auto

lemma fadd_abs_le:
  assumes "is_finite x" "is_finite y" "\<bar>val x + val y\<bar> \<le> b" "rep b" "b \<le> 2 ^ 1023"
  shows "is_finite (fadd x y)" and "\<bar>val (fadd x y)\<bar> \<le> b"
  using fadd_fin [OF assms(1,2)] fround_abs_le [OF assms(4,5,3)] by auto

lemma fmul_abs_le:
  assumes "is_finite x" "is_finite y" "\<bar>val x * val y\<bar> \<le> b" "rep b" "b \<le> 2 ^ 1023"
  shows "is_finite (fmul x y)" and "\<bar>val (fmul x y)\<bar> \<le> b"
proof -
  obtain s m t n where xy: "x = Fin s m" "y = Fin t n" using assms by (cases x; cases y) auto
  then have "m * n \<le> b" using assms(3) by (auto split: if_splits)
  from rnd_abs_le [OF assms(4,5) this, of "s \<noteq> t"] xy
  show "is_finite (fmul x y)" "\<bar>val (fmul x y)\<bar> \<le> b" by auto
qed

lemma fdiv_abs_le:
  assumes "is_finite x" "fle (Fin False 1) y" "\<bar>val x\<bar> \<le> b" "rep b" "b \<le> 2 ^ 1023"
  shows "is_finite (fdiv x y)" and "\<bar>val (fdiv x y)\<bar> \<le> b"
proof -
  obtain s m where x: "x = Fin s m" using assms by (cases x) auto
  show "is_finite (fdiv x y)" "\<bar>val (fdiv x y)\<bar> \<le> b"
  proof (atomize (full), cases y)
    case NaN
    with assms show "is_finite (fdiv x y) \<and> \<bar>val (fdiv x y)\<bar> \<le> b" by simp
  next
    case (Inf t)
    with x rep_nonneg [OF assms(4)] show "is_finite (fdiv x y) \<and> \<bar>val (fdiv x y)\<bar> \<le> b" by simp
  next
    case (Fin t n)
    with assms(2) have n: "1 \<le> \<bar>n\<bar>" "n \<noteq> 0" by (auto simp: fle_def split: if_splits)
    have "\<bar>m / n\<bar> \<le> \<bar>m\<bar>" using n mult_left_mono [of 1 "\<bar>n\<bar>" "\<bar>m\<bar>"] by (simp add: divide_le_eq)
    also have "\<dots> \<le> b" using assms(3) x by (simp split: if_splits)
    finally have "m / n \<le> b" by linarith
    from rnd_abs_le [OF assms(4,5) this, of "s \<noteq> t"] x Fin n
    show "is_finite (fdiv x y) \<and> \<bar>val (fdiv x y)\<bar> \<le> b" by simp
  qed
qed

section \<open>Non-negative numbers\<close>

lemma fnonneg_cases:
  "fnonneg x \<longleftrightarrow> x = Inf False \<or> (is_finite x \<and> 0 \<le> val x)"
  by (cases x) (auto simp: fnonneg_def fle_def split: if_splits)

lemma fnonneg_not_nan: "fnonneg x \<Longrightarrow> \<not> is_nan x"
  by (auto simp: fnonneg_cases)

lemma fnonneg_fround: "0 \<le> v \<Longrightarrow> fnonneg (fround z v)"
  using fround_mono [of 0 v True z] by (auto simp: fnonneg_def fround_def fle_def)

lemma fnonneg_rnd: "fnonneg (rnd False x)"
  by (simp add: fnonneg_cases rnd_def Let_def)

lemma fadd_nonneg: "fnonneg x \<Longrightarrow> fnonneg y \<Longrightarrow> fnonneg (fadd x y)"
proof -
  assume nn: "fnonneg x" "fnonneg y"
  show ?thesis
  proof (cases "is_finite x \<and> is_finite y")
    case True
    then obtain z where "fadd x y = fround z (val x + val y)" using fadd_fin by blast
    moreover have "0 \<le> val x + val y" using nn True by (auto simp: fnonneg_cases)
    ultimately show ?thesis by (simp add: fnonneg_fround)
  next
    case False
    with nn show ?thesis by (cases x; cases y) (auto simp: fnonneg_cases)
  qed
qed

lemma f_sq_nonneg: "\<not> is_nan x \<Longrightarrow> fnonneg (f_sq x)"
  by (cases x) (auto simp: f_sq_def fnonneg_rnd, simp add: fnonneg_cases)

lemma foldl_fadd_nonneg: "fnonneg a \<Longrightarrow> list_all fnonneg xs \<Longrightarrow> fnonneg (foldl fadd a xs)"
  by (induction xs arbitrary: a) (auto intro: fadd_nonneg)

lemma f_sum_nonneg: "list_all fnonneg xs \<Longrightarrow> fnonneg (f_sum xs)"
  unfolding f_sum_def by (rule foldl_fadd_nonneg) (simp_all add: fnonneg_cases)

lemma sqrt_mag_nonneg [simp]: "0 \<le> sqrt_mag x"
  by (simp add: sqrt_mag_def Let_def)

lemma fsqrt_nonneg: "fnonneg x \<Longrightarrow> fnonneg (fsqrt x)"
  by (cases x) (auto simp: fnonneg_cases Let_def split: if_splits)

lemma fmax_nonneg: "fnonneg y \<Longrightarrow> fnonneg (fmax x y)"
  by (auto simp: fmax_def fnonneg_def fle_def flt_def)

section \<open>Monotonicity and closure\<close>

lemma rnd_0 [simp]: "rnd s 0 = Fin s 0"
  by (simp add: rnd_def f64_top_def)

lemma fdiv_fin:
  "is_finite x \<Longrightarrow> f64_ok x \<Longrightarrow> 0 < c \<Longrightarrow> \<exists>z. fdiv x (Fin False c) = fround z (val x / c)"
  by (cases x) (auto simp: fround_def rep_def divide_less_0_iff split: if_splits)

lemma f_of_int_ok [simp]: "f64_ok (f_of_int n)"
  by (simp add: f_of_int_def)

lemma f_of_int_mono: "a \<le> b \<Longrightarrow> fle (f_of_int a) (f_of_int b)"
  unfolding f_of_int_def by (rule fround_mono) simp

lemma i64_abs_le: "in_i64 n \<Longrightarrow> \<bar>rat_of_int n\<bar> \<le> 2 powi 63"
proof -
  assume "in_i64 n"
  then have "\<bar>n\<bar> \<le> 2 ^ 63" by (auto simp: in_i64_def i64_min_def i64_max_def)
  then have "rat_of_int \<bar>n\<bar> \<le> rat_of_int (2 ^ 63)" by (simp only: of_int_le_iff)
  then show ?thesis by simp
qed

lemma f_of_int_finite:
  assumes "in_i64 n"
  shows "is_finite (f_of_int n)" "\<bar>val (f_of_int n)\<bar> \<le> 2 powi 63"
  using fround_abs_le [OF rep_powi _ i64_abs_le [OF assms], of False]
  by (simp_all add: f_of_int_def)

lemma fdiv_mono:
  assumes "fle x y" "is_finite x" "is_finite y" "f64_ok x" "f64_ok y" "0 < c"
  shows "fle (fdiv x (Fin False c)) (fdiv y (Fin False c))"
proof -
  have "val x / c \<le> val y / c"
    using assms by (intro divide_right_mono) (simp_all add: fle_val)
  then show ?thesis
    using fdiv_fin [OF assms(2,4,6)] fdiv_fin [OF assms(3,5,6)] by (auto intro: fround_mono)
qed

lemma fdiv_ok [simp]: "f64_ok (fdiv x y)"
  by (cases x; cases y) auto

lemma fadd_ok [simp]: "f64_ok (fadd x y)"
  by (cases x; cases y) auto

lemma fmul_ok [simp]: "f64_ok (fmul x y)"
  by (cases x; cases y) auto

lemma fsub_ok [simp]: "f64_ok (fsub x y)"
  by (simp add: fsub_def)

lemma fdiv_pos_le:
  assumes "is_finite x" "1 \<le> c" "\<bar>val x\<bar> \<le> b" "rep b" "b \<le> 2 ^ 1023"
  shows "is_finite (fdiv x (Fin False c))" "\<bar>val (fdiv x (Fin False c))\<bar> \<le> b"
  using assms by (intro fdiv_abs_le; simp add: fle_def)+

lemma lit_ok [simp]: "f64_ok (lit x)"
  by (simp add: lit_def)

lemma f_pow2_nonneg: "fnonneg (f_pow2 n)"
  by (simp add: f_pow2_def fnonneg_rnd)

lemma fmul_nonneg: "fnonneg x \<Longrightarrow> is_finite y \<Longrightarrow> f64_ok x \<Longrightarrow> f64_ok y \<Longrightarrow> 0 \<le> val y
    \<Longrightarrow> is_finite x \<Longrightarrow> fnonneg (fmul x y)"
  by (cases x; cases y) (auto simp: fnonneg_cases rnd_def Let_def rep_def split: if_splits)

lemma two_lit: "lit 2 = Fin False 2"
  by (simp add: rnd_eval)

lemma fadd_mono:
  assumes "fle x x'" "fle y y'" "is_finite x'" "is_finite y'" "is_finite x" "is_finite y"
  shows "fle (fadd x y) (fadd x' y')"
proof -
  have "val x + val y \<le> val x' + val y'" using assms by (simp add: fle_val add_mono)
  then show ?thesis
    using fadd_fin [OF assms(5,6)] fadd_fin [OF assms(3,4)] by (auto intro: fround_mono)
qed

lemma fadd_mono_nonneg:
  assumes "fle x x'" "fle y y'" "fnonneg x" "fnonneg y"
  shows "fle (fadd x y) (fadd x' y')"
proof -
  have nn: "fnonneg x'" "fnonneg y'"
    using assms by (auto simp: fnonneg_def intro: fle_trans)
  show ?thesis
  proof (cases "is_finite x' \<and> is_finite y'")
    case True
    then have "is_finite x" "is_finite y"
      using assms is_finite_between [of fzero x x'] is_finite_between [of fzero y y']
      by (auto simp: fnonneg_def)
    with True assms show ?thesis by (intro fadd_mono) auto
  next
    case False
    then have "fadd x' y' = Inf False" using nn by (cases x'; cases y') (auto simp: fnonneg_cases)
    moreover have "\<not> is_nan (fadd x y)" using fadd_nonneg [OF assms(3,4)] fnonneg_not_nan by blast
    ultimately show ?thesis by (cases "fadd x y") (auto simp: fle_def)
  qed
qed

lemma fmul_fin:
  "is_finite x \<Longrightarrow> f64_ok x \<Longrightarrow> 0 < c \<Longrightarrow> \<exists>z. fmul (Fin False c) x = fround z (c * val x)"
  by (cases x) (auto simp: fround_def rep_def mult_less_0_iff split: if_splits)

lemma fmul_mono:
  assumes "fle x y" "f64_ok x" "f64_ok y" "0 < c" "fnonneg x"
  shows "fle (fmul (Fin False c) x) (fmul (Fin False c) y)"
proof (cases "is_finite y")
  case True
  then have "is_finite x" using assms is_finite_between [of fzero x y] by (simp add: fnonneg_def)
  with True assms have "c * val x \<le> c * val y" by (simp add: fle_val)
  then show ?thesis
    using fmul_fin [of x c] fmul_fin [of y c] True \<open>is_finite x\<close> assms
    by (auto intro!: fround_mono mult_left_mono)
next
  case False
  then have "y = Inf False" using assms by (cases x; cases y) (auto simp: fle_def fnonneg_cases split: if_splits)
  with assms show ?thesis
    by (cases x) (auto simp: fle_def fnonneg_cases rnd_def Let_def split: if_splits)
qed

lemma fmul_const_mono:
  assumes "fle x y" "is_finite x" "is_finite y" "f64_ok x" "f64_ok y" "0 < c"
  shows "fle (fmul x (Fin False c)) (fmul y (Fin False c))"
proof -
  have "\<exists>z. fmul x (Fin False c) = fround z (c * val x)" if "is_finite x" "f64_ok x" for x
    using that \<open>0 < c\<close> by (cases x) (auto simp: fround_def rep_def mult_less_0_iff mult.commute split: if_splits)
  moreover have "c * val x \<le> c * val y" using assms by (simp add: fle_val)
  ultimately show ?thesis using assms by (metis fround_mono)
qed

lemma fsub_mono:
  assumes "fle x y" "is_finite x" "is_finite y" "is_finite z"
  shows "fle (fsub x z) (fsub y z)"
proof -
  have "val x - val z \<le> val y - val z" using assms by (simp add: fle_val)
  then show ?thesis
    using fsub_fin [OF assms(2,4)] fsub_fin [OF assms(3,4)] by (auto intro!: fround_mono diff_right_mono)
qed

lemma fmax_mono: "fle x y \<Longrightarrow> \<not> is_nan z \<Longrightarrow> fle (fmax x z) (fmax y z)"
  by (auto simp: fmax_def fle_def flt_def)

lemma fmax_ok [simp]: "f64_ok x \<Longrightarrow> f64_ok y \<Longrightarrow> f64_ok (fmax x y)"
  by (simp add: fmax_def)

lemma fmin_ok [simp]: "f64_ok x \<Longrightarrow> f64_ok y \<Longrightarrow> f64_ok (fmin x y)"
  by (simp add: fmin_def)

lemma fle_antisym_val: "fle x y \<Longrightarrow> fle y x \<Longrightarrow> is_finite x \<Longrightarrow> is_finite y \<Longrightarrow> val x = val y"
  by (simp add: fle_val)

section \<open>Exactness and rounding error\<close>

lemma powi_int_quotient: "a \<le> b \<Longrightarrow> (2::rat) powi b = of_int (2 ^ nat (b - a)) * 2 powi a"
  by (simp add: power_int_add [symmetric] flip: power_int_of_nat)

lemma rep_dyadic:
  assumes "0 \<le> n" "n \<le> 2 ^ 53" "- 1074 \<le> k"
  shows "rep (of_int n * 2 powi k)"
proof -
  consider "n = 0" | "n = 2 ^ 53" | "0 < n" "n < 2 ^ 53" using assms by linarith
  then show ?thesis
  proof cases
    case 1
    then show ?thesis by simp
  next
    case 2
    have "of_int n * 2 powi k = (2::rat) powi (53 + k)" by (simp add: 2 power_int_add)
    with assms show ?thesis by (simp only: rep_powi)
  next
    case 3
    let ?x = "of_int n * 2 powi k :: rat"
    have pos: "0 < ?x" using 3 by simp
    have "rat_of_int n < 2 powi 53" using 3 by (simp add: of_int_less_numeral_iff flip: of_int_power)
    then have "?x < 2 powi (53 + k)" by (simp add: power_int_add)
    moreover have "2 powi ilog2 ?x \<le> ?x" using ilog2_bounds [OF pos] by simp
    ultimately have "(2::rat) powi ilog2 ?x < 2 powi (53 + k)" by linarith
    then have q: "max (ilog2 ?x - 52) (- 1074) \<le> k" using assms(3) by (simp add: two_powi_less)
    have "?x = of_int (n * 2 ^ nat (k - max (ilog2 ?x - 52) (- 1074))) * quantum ?x"
      using powi_int_quotient [OF q] by (simp add: quantum_def)
    then show ?thesis by (rule repI [OF pos])
  qed
qed

lemma rep_of_int: "0 \<le> n \<Longrightarrow> n \<le> 2 ^ 53 \<Longrightarrow> rep (of_int n)"
  using rep_dyadic [of n 0] by simp

lemma f_of_int_exact:
  assumes "\<bar>n\<bar> \<le> 2 ^ 53"
  shows "is_finite (f_of_int n)" "val (f_of_int n) = of_int n"
proof -
  have r: "rep (of_int \<bar>n\<bar>)" using assms by (intro rep_of_int) auto
  have b: "rat_of_int \<bar>n\<bar> \<le> 2 ^ 53" using assms by (simp add: of_int_le_numeral_iff flip: of_int_power)
  then have "rat_of_int \<bar>n\<bar> < f64_top" by (rule le_less_trans) (simp add: f64_top_def)
  with r show "is_finite (f_of_int n)" "val (f_of_int n) = of_int n"
    by (auto simp: f_of_int_def fround_def rnd_def Let_def rep_def)
qed

lemma round_mag_error:
  assumes "0 < x"
  shows "\<bar>round_mag x - x\<bar> \<le> quantum x"
proof -
  let ?q = "quantum x"
  have f: "of_int \<lfloor>x / ?q\<rfloor> \<le> x / ?q" "x / ?q < of_int \<lfloor>x / ?q\<rfloor> + 1" by linarith+
  have "rat_of_int \<lfloor>x / ?q\<rfloor> \<le> of_int (rhe (x / ?q))" "rat_of_int (rhe (x / ?q)) \<le> of_int (\<lfloor>x / ?q\<rfloor> + 1)"
    by (simp_all only: of_int_le_iff rhe_bounds)
  with f have "\<bar>of_int (rhe (x / ?q)) - x / ?q\<bar> \<le> 1"
    unfolding abs_le_iff of_int_add of_int_1 by linarith
  then have "\<bar>of_int (rhe (x / ?q)) - x / ?q\<bar> * ?q \<le> ?q"
    using mult_right_mono [of _ 1 ?q] by simp
  moreover have "\<bar>of_int (rhe (x / ?q)) - x / ?q\<bar> * ?q = \<bar>of_int (rhe (x / ?q)) * ?q - x\<bar>"
  proof -
    have "\<bar>of_int (rhe (x / ?q)) - x / ?q\<bar> * ?q = \<bar>(of_int (rhe (x / ?q)) - x / ?q) * ?q\<bar>"
      by (simp only: abs_mult abs_of_pos [OF quantum_pos])
    then show ?thesis by (simp add: left_diff_distrib)
  qed
  ultimately show ?thesis using assms by (simp add: round_mag_def)
qed

lemma quantum_mono: "0 < x \<Longrightarrow> x \<le> y \<Longrightarrow> quantum x \<le> quantum y"
  using ilog2_mono [of x y] by (auto simp: quantum_def intro!: power_int_increasing)

lemma rnd_error:
  assumes "0 \<le> x" "x \<le> b" "0 < b" "b \<le> 2 ^ 1023"
  shows "\<bar>val (rnd False x) - x\<bar> \<le> quantum b"
proof (cases "x = 0")
  case True
  then show ?thesis by (simp add: less_imp_le)
next
  case False
  then have "\<bar>round_mag x - x\<bar> \<le> quantum b"
    using round_mag_error [of x] quantum_mono [of x b] assms by linarith
  moreover have "is_finite (rnd False x)" using assms by (intro rnd_finite) simp
  ultimately show ?thesis by (simp add: rnd_def Let_def split: if_splits)
qed

lemma fround_error:
  assumes "\<bar>v\<bar> \<le> b" "0 < b" "b \<le> 2 ^ 1023"
  shows "is_finite (fround z v)" "\<bar>val (fround z v) - v\<bar> \<le> quantum b"
proof -
  have fin: "is_finite (rnd s \<bar>v\<bar>)" for s using assms by (intro rnd_finite) simp
  then show "is_finite (fround z v)" by (simp add: fround_def)
  have "val (rnd True \<bar>v\<bar>) = - val (rnd False \<bar>v\<bar>)"
    using fin [of False] by (simp add: rnd_def Let_def split: if_splits)
  moreover have "\<bar>val (rnd False \<bar>v\<bar>) - \<bar>v\<bar>\<bar> \<le> quantum b" using assms by (intro rnd_error) simp_all
  ultimately show "\<bar>val (fround z v) - v\<bar> \<le> quantum b"
    using quantum_pos [of b] by (cases "v < 0"; cases "v = 0") (auto simp: fround_def less_imp_le)
qed

lemma rhe_half: "\<bar>of_int (rhe x) - x\<bar> \<le> 1 / 2"
proof -
  have "0 \<le> x - of_int \<lfloor>x\<rfloor>" "x - of_int \<lfloor>x\<rfloor> < 1" by linarith+
  then show ?thesis unfolding rhe_def Let_def by (auto simp: abs_le_iff)
qed

lemma rep_ge_integer:
  assumes "rep m" "2 ^ 52 \<le> m"
  shows "m = of_int \<lfloor>m\<rfloor>"
proof -
  have pos: "0 < m" using assms(2) by (rule less_le_trans [rotated]) simp
  have "ilog2 (2 powi 52) = 52" by (rule ilog2_eqI) (simp_all add: two_powi_less)
  then have "52 \<le> ilog2 m" using ilog2_mono [of "2 powi 52" m] assms(2) by simp
  then have "quantum m = of_int (2 ^ nat (ilog2 m - 52))"
    using powi_int_quotient [of 0 "ilog2 m - 52"] by (simp add: quantum_def max_def)
  then have "m = of_int (rhe (m / quantum m) * 2 ^ nat (ilog2 m - 52))"
    using assms(1) pos by (simp add: rep_def round_mag_def)
  then show ?thesis by (metis floor_of_int)
qed

lemmas f64_ok_ops = f_of_int_ok fdiv_ok fadd_ok fmul_ok fsub_ok lit_ok fmax_ok fmin_ok

end
