(* ===== verification/NtpTime.thy ===== *)
theory NtpTime
  imports F64
begin

text \<open>
  NTP's time formats (\<open>ntp/src/timestamp.rs\<close>): the 32.32 fixed-point timestamp, the signed
  interval every computation is done in, and the 16.16 short format. Timestamps are raw
  64-bit words, so a timestamp says nothing about its era; intervals are signed 64-bit
  values, and the functions that turn one into the other wrap as the code does.
\<close>

unbundle bit_operations_syntax

section \<open>Definitions\<close>

type_synonym ntp_timestamp = u64
type_synonym ntp_duration = int
type_synonym ntp_short = u32

definition UNIX_TO_NTP_ERA0 :: int where "UNIX_TO_NTP_ERA0 = 2208988800"
definition ONE_SECOND :: int where "ONE_SECOND = 2 ^ 32"

definition ts_unknown :: ntp_timestamp where "ts_unknown = 0"

definition from_unix :: "int \<Rightarrow> u32 \<Rightarrow> ntp_timestamp" where
  "from_unix seconds nanos =
     (let secs = ucast (i64_as_u64 seconds + of_int UNIX_TO_NTP_ERA0) :: u32;
          frac = push_bit 32 (ucast (min nanos 999999999) :: u64) div 1000000000
      in push_bit 32 (ucast secs) OR frac)"

text \<open>\<open>wrapping_sub\<close> reads the wrapped difference as signed.\<close>

definition ts_wrapping_sub :: "ntp_timestamp \<Rightarrow> ntp_timestamp \<Rightarrow> ntp_duration" where
  "ts_wrapping_sub self earlier = u64_as_i64 (self - earlier)"

definition ts_wrapping_add :: "ntp_timestamp \<Rightarrow> ntp_duration \<Rightarrow> ntp_timestamp" where
  "ts_wrapping_add self d = self + i64_as_u64 d"

definition ts_seconds :: "ntp_timestamp \<Rightarrow> u32" where
  "ts_seconds self = ucast (drop_bit 32 self)"

definition ts_is_unknown :: "ntp_timestamp \<Rightarrow> bool" where
  "ts_is_unknown self \<longleftrightarrow> self = 0"

definition dur_from_seconds_f64 :: "f64 \<Rightarrow> ntp_duration" where
  "dur_from_seconds_f64 seconds =
     (if is_nan seconds then 0
      else let scaled = fmul seconds (f_of_int ONE_SECOND)
           in if fle (f_of_int i64_max) scaled then i64_max
              else if fle scaled (f_of_int i64_min) then i64_min
              else f_to_i64 scaled)"

definition as_seconds_f64 :: "ntp_duration \<Rightarrow> f64" where
  "as_seconds_f64 d = fdiv (f_of_int d) (f_of_int ONE_SECOND)"

text \<open>\<open>div_euclid\<close> and \<open>rem_euclid\<close> by a positive divisor round towards minus infinity.\<close>

definition whole_seconds :: "ntp_duration \<Rightarrow> int" where
  "whole_seconds d = d div ONE_SECOND"

definition subsec_nanos :: "ntp_duration \<Rightarrow> u32" where
  "subsec_nanos d =
     (let frac = word_of_int (d mod ONE_SECOND) :: u64
      in ucast (drop_bit 32 (frac * 1000000000)))"

definition dur_abs :: "ntp_duration \<Rightarrow> ntp_duration" where
  "dur_abs d = sat_i64 \<bar>d\<bar>"

definition dur_is_negative :: "ntp_duration \<Rightarrow> bool" where
  "dur_is_negative d \<longleftrightarrow> d < 0"

definition dur_add :: "ntp_duration \<Rightarrow> ntp_duration \<Rightarrow> ntp_duration" where
  "dur_add a b = sat_i64 (a + b)"

definition dur_sub :: "ntp_duration \<Rightarrow> ntp_duration \<Rightarrow> ntp_duration" where
  "dur_sub a b = sat_i64 (a - b)"

text \<open>Division of intervals: zero for a zero divisor, otherwise truncating.\<close>

definition dur_div :: "ntp_duration \<Rightarrow> int \<Rightarrow> ntp_duration" where
  "dur_div d rhs = (if rhs = 0 then 0 else sgn d * sgn rhs * (\<bar>d\<bar> div \<bar>rhs\<bar>))"

definition to_unix_near :: "ntp_timestamp \<Rightarrow> int \<Rightarrow> int \<times> u32" where
  "to_unix_near self near_unix_seconds =
     (let near = from_unix near_unix_seconds 0;
          delta = ts_wrapping_sub self near
      in (near_unix_seconds + whole_seconds delta, subsec_nanos delta))"

definition short_from_seconds_f64 :: "f64 \<Rightarrow> ntp_short" where
  "short_from_seconds_f64 seconds =
     (if is_nan seconds \<or> fle seconds fzero then 0
      else let scaled = fmul seconds (f_of_int 65536)
           in if fle (f_of_int (2 ^ 32 - 1)) scaled then - 1
              else word_of_int (f_to_int 0 (2 ^ 32 - 1) scaled))"

definition short_as_seconds_f64 :: "ntp_short \<Rightarrow> f64" where
  "short_as_seconds_f64 x = fdiv (f_of_int (uint x)) (f_of_int 65536)"

definition short_as_duration :: "ntp_short \<Rightarrow> ntp_duration" where
  "short_as_duration x = uint x * 2 ^ 16"

section \<open>Fixed-point arithmetic\<close>

text \<open>A Unix time in ticks of \<open>2\<^sup>-\<^sup>3\<^sup>2\<close> seconds, without an era.\<close>

definition unix_ticks :: "int \<Rightarrow> int \<Rightarrow> int" where
  "unix_ticks seconds nanos = seconds * 2 ^ 32 + nanos * 2 ^ 32 div 10 ^ 9"

lemma or_push_bit_32:
  assumes "uint (y :: u64) < 2 ^ 32"
  shows "push_bit 32 x OR y = push_bit 32 x + y"
proof (rule disjunctive_add [symmetric])
  fix n
  have "\<not> bit y n" if "32 \<le> n"
  proof -
    have "uint y = take_bit 32 (uint y)" using assms by (simp add: take_bit_int_eq_self)
    then have "\<not> bit (uint y) n" using that by (metis bit_take_bit_iff not_le)
    then show ?thesis using bit_imp_le_length [of y n] by (auto simp: bit_uint_iff)
  qed
  then show "\<not> bit (push_bit 32 x) n \<or> \<not> bit y n" by (auto simp: bit_push_bit_iff)
qed

lemma push_bit_32_low: "push_bit 32 (ucast (ucast x :: u32) :: u64) = push_bit 32 (x :: u64)"
  by (rule bit_word_eqI) (auto simp: bit_push_bit_iff bit_ucast_iff)

lemma uint_nanos_frac:
  assumes "uint (n :: u32) \<le> 999999999"
  shows "uint (push_bit 32 (ucast n :: u64) div 1000000000) = uint n * 2 ^ 32 div 10 ^ 9"
proof -
  have "uint (push_bit 32 (ucast n :: u64)) = uint n * 2 ^ 32"
    using assms
    by (simp add: push_bit_eq_mult uint_word_ariths unsigned_ucast_eq take_bit_int_eq_self)
  then show ?thesis by (simp add: uint_div)
qed

lemma from_unix_ticks:
  assumes "uint n \<le> 999999999"
  shows "from_unix s n = word_of_int (unix_ticks (s + UNIX_TO_NTP_ERA0) (uint n))"
proof -
  have m: "min n 999999999 = n" using assms by (simp add: min_def word_le_def)
  let ?f = "push_bit 32 (ucast n :: u64) div 1000000000"
  have f: "uint ?f = uint n * 2 ^ 32 div 10 ^ 9" using assms by (rule uint_nanos_frac)
  have "uint ?f < 2 ^ 32" using assms by (simp add: f)
  then have "from_unix s n = push_bit 32 (i64_as_u64 s + of_int UNIX_TO_NTP_ERA0) + ?f"
    by (simp add: from_unix_def m push_bit_32_low or_push_bit_32 Let_def)
  also have "?f = word_of_int (uint n * 2 ^ 32 div 10 ^ 9)"
    by (metis f word_of_int_uint)
  finally show ?thesis
    by (simp add: push_bit_eq_mult i64_as_u64_def unix_ticks_def)
qed

lemma unix_ticks_frac: "0 \<le> n \<Longrightarrow> n \<le> 999999999 \<Longrightarrow> 0 \<le> n * 2 ^ 32 div 10 ^ 9 \<and> n * 2 ^ 32 div 10 ^ 9 < (2::int) ^ 32"
  by auto

section \<open>Differences\<close>

lemma ts_wrapping_sub_of_int:
  assumes "in_i64 (a - b)"
  shows "ts_wrapping_sub (word_of_int a) (word_of_int b) = a - b"
proof -
  have "(word_of_int a :: u64) - word_of_int b = i64_as_u64 (a - b)"
    by (simp add: i64_as_u64_def)
  then show ?thesis
    using i64_as_u64_inverse [OF assms] by (simp add: ts_wrapping_sub_def)
qed

lemma in_i64_ts_wrapping_sub [simp, intro]: "in_i64 (ts_wrapping_sub a b)"
  by (simp add: ts_wrapping_sub_def)

lemma ts_wrapping_add_sub: "in_i64 d \<Longrightarrow> ts_wrapping_sub (ts_wrapping_add a d) a = d"
  by (simp add: ts_wrapping_sub_def ts_wrapping_add_def i64_as_u64_inverse)

lemma ts_wrapping_sub_add: "ts_wrapping_add b (ts_wrapping_sub a b) = a"
  by (simp add: ts_wrapping_sub_def ts_wrapping_add_def)

lemma subsec_nanos_val: "uint (subsec_nanos d) = d mod 2 ^ 32 * 10 ^ 9 div 2 ^ 32"
proof -
  define r where "r = d mod ONE_SECOND"
  have r: "0 \<le> r" "r < 2 ^ 32" by (simp_all add: r_def ONE_SECOND_def)
  have "uint (word_of_int r * 1000000000 :: u64) = r * 10 ^ 9"
    using r by (simp add: uint_word_ariths unsigned_of_int take_bit_int_eq_self)
  then have "uint (drop_bit 32 (word_of_int r * 1000000000 :: u64)) = r * 10 ^ 9 div 2 ^ 32"
    by (simp add: uint_div drop_bit_eq_div)
  moreover have "r * 10 ^ 9 div 2 ^ 32 < 2 ^ 32" "0 \<le> r * 10 ^ 9 div 2 ^ 32" using r by auto
  ultimately show ?thesis
    by (simp add: subsec_nanos_def flip: r_def)
       (simp add: unsigned_ucast_eq take_bit_int_eq_self r_def ONE_SECOND_def)
qed

lemma frac_round_trip:
  fixes n :: int
  assumes "0 \<le> n" "n \<le> 999999999"
  shows "n * 2 ^ 32 div 10 ^ 9 * 10 ^ 9 div 2 ^ 32 \<le> n"
    and "n \<le> n * 2 ^ 32 div 10 ^ 9 * 10 ^ 9 div 2 ^ 32 + 1"
proof -
  let ?f = "n * 2 ^ 32 div 10 ^ 9"
  have lo: "?f * 10 ^ 9 \<le> n * 2 ^ 32" by (simp add: minus_mod_eq_div_mult [symmetric])
  have "n * 2 ^ 32 < ?f * 10 ^ 9 + 10 ^ 9"
    using pos_mod_bound [of "10 ^ 9" "n * 2 ^ 32"]
    by (simp add: minus_mod_eq_div_mult [symmetric])
  with lo show "?f * 10 ^ 9 div 2 ^ 32 \<le> n" and "n \<le> ?f * 10 ^ 9 div 2 ^ 32 + 1"
    by simp_all
qed

lemma ticks_div_mod:
  fixes f :: int
  assumes "0 \<le> f" "f < 2 ^ 32"
  shows "(k * 2 ^ 32 + f) div 2 ^ 32 = k" and "(k * 2 ^ 32 + f) mod 2 ^ 32 = f"
  using assms by auto

lemma to_unix_near_window:
  assumes n: "uint n \<le> 999999999" and w: "- (2 ^ 31) \<le> s - near" "s - near < 2 ^ 31"
  shows "fst (to_unix_near (from_unix s n) near) = s"
    and "uint (snd (to_unix_near (from_unix s n) near)) = uint n * 2 ^ 32 div 10 ^ 9 * 10 ^ 9 div 2 ^ 32"
proof -
  let ?f = "uint n * 2 ^ 32 div 10 ^ 9"
  have f: "0 \<le> ?f" "?f < 2 ^ 32"
    using unix_ticks_frac [of "uint n"] n by simp_all
  let ?d = "unix_ticks (s + UNIX_TO_NTP_ERA0) (uint n) - unix_ticks (near + UNIX_TO_NTP_ERA0) 0"
  have d: "?d = (s - near) * 2 ^ 32 + ?f" by (simp add: unix_ticks_def algebra_simps)
  have "in_i64 ?d" using w f unfolding d in_i64_def i64_min_def i64_max_def by auto
  then have sub: "ts_wrapping_sub (from_unix s n) (from_unix near 0) = (s - near) * 2 ^ 32 + ?f"
    using n by (simp add: from_unix_ticks ts_wrapping_sub_of_int d del: of_int_add of_int_diff)
  have "((s - near) * 2 ^ 32 + ?f) div 2 ^ 32 = s - near"
    and m: "((s - near) * 2 ^ 32 + ?f) mod 2 ^ 32 = ?f" using ticks_div_mod [OF f] by blast+
  then show "fst (to_unix_near (from_unix s n) near) = s"
    by (simp add: to_unix_near_def sub whole_seconds_def ONE_SECOND_def Let_def)
  have "snd (to_unix_near (from_unix s n) near) = subsec_nanos ((s - near) * 2 ^ 32 + ?f)"
    by (simp only: to_unix_near_def sub Let_def snd_conv)
  then show "uint (snd (to_unix_near (from_unix s n) near)) = ?f * 10 ^ 9 div 2 ^ 32"
    by (simp only: subsec_nanos_val m)
qed

section \<open>Properties\<close>

text \<open>
  The wrapping difference of two timestamps is the true interval between the two moments
  they stand for, whatever eras they fall in, as long as the interval fits the signed 64-bit
  format (about 68 years): \<open>t1\<close> and \<open>t2\<close> are moments in ticks since 1900, of any size.
\<close>
theorem era_independent_difference:
  "in_i64 (t1 - t2) \<Longrightarrow> ts_wrapping_sub (word_of_int t1) (word_of_int t2) = t1 - t2"
  by (rule ts_wrapping_sub_of_int)

theorem era_independent_difference_witness:
  "ts_wrapping_sub (word_of_int (2 ^ 64)) (word_of_int (2 ^ 64 - 2 ^ 32)) = 2 ^ 32"
  using era_independent_difference [of "2 ^ 64" "2 ^ 64 - 2 ^ 32"]
  by (simp add: in_i64_def i64_min_def i64_max_def)

text \<open>
  Converting a Unix time to an NTP timestamp and back, against a reference within 68 years
  of it, gives the same second and a nanosecond count at most one below the original, across
  the 2036 era change and for reference times before 1970 alike.
\<close>
theorem unix_round_trip:
  assumes "uint n \<le> 999999999" and "- (2 ^ 31) \<le> s - near" and "s - near < 2 ^ 31"
  shows "fst (to_unix_near (from_unix s n) near) = s
    \<and> uint (snd (to_unix_near (from_unix s n) near)) \<le> uint n
    \<and> uint n \<le> uint (snd (to_unix_near (from_unix s n) near)) + 1"
  using to_unix_near_window [OF assms] frac_round_trip [of "uint n"] assms(1) by simp

theorem unix_round_trip_witness:
  "fst (to_unix_near (from_unix 2208988800 500000000) 2208988799) = 2208988800"
  using unix_round_trip [of 500000000 2208988800 2208988799] by simp

end
