(* ===== verification/Sample.thy ===== *)
theory Sample
  imports NtpTime
begin

text \<open>
  One measurement (\<open>timed/src/sample.rs\<close>): the reduction of an exchange's four timestamps to
  offset, delay and dispersion, its refusals, and the ageing of a dispersion.
\<close>

section \<open>Definitions\<close>

definition PHI :: f64 where "PHI = lit (15 / 1000000)"
definition MIN_DISPERSION :: f64 where "MIN_DISPERSION = lit (1 / 1000)"

record sample =
  s_offset :: f64
  s_delay :: f64
  s_dispersion :: f64
  s_at :: f64

record exchange =
  ex_origin :: ntp_timestamp
  ex_receive :: ntp_timestamp
  ex_transmit :: ntp_timestamp
  ex_destination :: ntp_timestamp

datatype sample_error = LocalWentBackwards | ServerWentBackwards | TooFar f64

definition log2_seconds :: "int \<Rightarrow> f64" where
  "log2_seconds e = f_pow2 (max (- 32) (min 8 e))"

definition reduce :: "exchange \<Rightarrow> int \<Rightarrow> int \<Rightarrow> f64 \<Rightarrow> f64 \<Rightarrow> sample_error + sample" where
  "reduce ex local_precision server_precision max_delay now =
     (let round_trip = ts_wrapping_sub (ex_destination ex) (ex_origin ex) in
      if dur_is_negative round_trip then Inl LocalWentBackwards
      else let server_held = ts_wrapping_sub (ex_transmit ex) (ex_receive ex) in
      if dur_is_negative server_held then Inl ServerWentBackwards
      else let delay = fmax (as_seconds_f64 (dur_sub round_trip server_held)) MIN_DISPERSION in
      if flt max_delay delay then Inl (TooFar delay)
      else
        let forward = ts_wrapping_sub (ex_receive ex) (ex_origin ex);
            backward = ts_wrapping_sub (ex_transmit ex) (ex_destination ex);
            offset = fdiv (as_seconds_f64 (dur_add forward backward)) (lit 2);
            dispersion = fadd (fadd (log2_seconds local_precision) (log2_seconds server_precision))
                           (fmul PHI (as_seconds_f64 round_trip))
        in Inr \<lparr>s_offset = offset, s_delay = delay, s_dispersion = dispersion, s_at = now\<rparr>)"

definition aged_dispersion :: "sample \<Rightarrow> f64 \<Rightarrow> f64" where
  "aged_dispersion s now = fadd (s_dispersion s) (fmul PHI (fmax (fsub now (s_at s)) fzero))"

section \<open>Facts about the arithmetic\<close>

lemma tick_lit: "f_of_int ONE_SECOND = Fin False (2 ^ 32)"
proof -
  have "rep (2 ^ 32)" using rep_powi [of 32] by simp
  then show ?thesis by (simp add: f_of_int_def ONE_SECOND_def fround_def rnd_def rep_def f64_top_def)
qed

lemma as_seconds_finite:
  assumes "in_i64 d"
  shows "is_finite (as_seconds_f64 d)" "\<bar>val (as_seconds_f64 d)\<bar> \<le> 2 powi 63"
  unfolding as_seconds_f64_def tick_lit
  using fdiv_pos_le [of "f_of_int d" "2 ^ 32" "2 powi 63"] f_of_int_finite [OF assms] rep_powi [of 63]
  by simp_all

lemma as_seconds_ok [simp]: "f64_ok (as_seconds_f64 d)"
  by (simp add: as_seconds_f64_def)

lemma as_seconds_mono:
  assumes "a \<le> b" "in_i64 a" "in_i64 b"
  shows "fle (as_seconds_f64 a) (as_seconds_f64 b)"
  unfolding as_seconds_f64_def tick_lit
  using assms f_of_int_finite by (intro fdiv_mono f_of_int_mono) simp_all

lemma in_i64_dur_sub [simp, intro]: "in_i64 (dur_sub a b)"
  by (simp add: dur_sub_def)

lemma in_i64_dur_add [simp, intro]: "in_i64 (dur_add a b)"
  by (simp add: dur_add_def)

lemma min_dispersion_val: "is_finite MIN_DISPERSION" "0 < val MIN_DISPERSION" "fnonneg MIN_DISPERSION"
  unfolding MIN_DISPERSION_def by (simp_all add: fnonneg_cases rnd_eval)

lemma phi_val: "is_finite PHI" "0 < val PHI" "val PHI \<le> 1" "fnonneg PHI"
  unfolding PHI_def by (simp_all add: fnonneg_cases rnd_eval)

lemma phi_ok [simp]: "f64_ok PHI" "f64_ok MIN_DISPERSION"
  by (simp_all add: PHI_def MIN_DISPERSION_def lit_def)

lemma log2_seconds_bounds: "is_finite (log2_seconds e)" "\<bar>val (log2_seconds e)\<bar> \<le> 2 powi 8"
    "fnonneg (log2_seconds e)"
proof -
  let ?k = "max (- 32) (min 8 e)"
  have le: "(2::rat) powi ?k \<le> 2 powi 8" by (rule power_int_increasing) simp_all
  show "fnonneg (log2_seconds e)" by (simp add: log2_seconds_def f_pow2_nonneg)
  show "is_finite (log2_seconds e)" "\<bar>val (log2_seconds e)\<bar> \<le> 2 powi 8"
    unfolding log2_seconds_def f_pow2_def
    using rnd_abs_le [OF rep_powi [of 8] _ le, of False] by simp_all
qed

lemma pos_fin: "is_finite x \<Longrightarrow> 0 < val x \<Longrightarrow> f64_ok x \<Longrightarrow> x = Fin False (val x)"
  by (cases x) (auto dest: rep_nonneg split: if_splits)

lemma phi_fin: "PHI = Fin False (val PHI)"
  using phi_val phi_ok by (intro pos_fin)

lemma phi_mono: "fle x y \<Longrightarrow> f64_ok x \<Longrightarrow> f64_ok y \<Longrightarrow> fnonneg x \<Longrightarrow> fle (fmul PHI x) (fmul PHI y)"
  using fmul_mono [of x y "val PHI"] phi_val by (simp flip: phi_fin)

lemma phi_nonneg: "fnonneg x \<Longrightarrow> f64_ok x \<Longrightarrow> fnonneg (fmul PHI x)"
proof -
  have "fnonneg (fmul (Fin False c) x)" if "fnonneg x" "f64_ok x" "0 < c" for c
    using that by (cases x) (auto simp: fnonneg_cases rnd_def Let_def rep_def split: if_splits)
  then show "fnonneg x \<Longrightarrow> f64_ok x \<Longrightarrow> ?thesis" using phi_val(2) phi_fin by metis
qed

lemma as_seconds_nonneg: "0 \<le> d \<Longrightarrow> in_i64 d \<Longrightarrow> fnonneg (as_seconds_f64 d)"
proof -
  assume "0 \<le> d" "in_i64 d"
  then have "fle (as_seconds_f64 0) (as_seconds_f64 d)"
    by (intro as_seconds_mono) (simp_all add: in_i64_def i64_min_def i64_max_def)
  moreover have "as_seconds_f64 0 = fzero"
    by (simp add: as_seconds_f64_def tick_lit) (simp add: f_of_int_def fround_def)
  ultimately show ?thesis by (simp add: fnonneg_def)
qed

lemma as_seconds_small: "in_i64 d \<Longrightarrow> is_finite (as_seconds_f64 d) \<and> \<bar>val (as_seconds_f64 d)\<bar> \<le> 2 powi 31"
proof -
  assume d: "in_i64 d"
  obtain z where z: "as_seconds_f64 d = fround z (val (f_of_int d) / 2 ^ 32)"
    unfolding as_seconds_f64_def tick_lit
    using fdiv_fin [of "f_of_int d" "2 ^ 32"] f_of_int_finite [OF d] by auto
  have "\<bar>val (f_of_int d) / 2 ^ 32\<bar> \<le> 2 powi 31"
    using f_of_int_finite(2) [OF d] by (simp add: abs_divide divide_le_eq)
  then show ?thesis
    using fround_abs_le [OF rep_powi [of 31], of _ z] by (simp add: z)
qed

lemma halve_small:
  assumes "in_i64 d"
  shows "is_finite (fdiv (as_seconds_f64 d) (lit 2)) \<and> \<bar>val (fdiv (as_seconds_f64 d) (lit 2))\<bar> \<le> 2 powi 30"
proof -
  obtain z where z: "fdiv (as_seconds_f64 d) (lit 2) = fround z (val (as_seconds_f64 d) / 2)"
    unfolding two_lit using fdiv_fin [of "as_seconds_f64 d" 2] as_seconds_small [OF assms] by auto
  have "\<bar>val (as_seconds_f64 d) / 2\<bar> \<le> 2 powi 30"
    using as_seconds_small [OF assms] by (simp add: abs_divide)
  then show ?thesis
    using fround_abs_le [OF rep_powi [of 30], of _ z] by (simp add: z)
qed

lemma reduce_ok:
  assumes "reduce ex lp sp max_delay now = Inr s"
  shows "0 \<le> ts_wrapping_sub (ex_destination ex) (ex_origin ex)"
    and "0 \<le> ts_wrapping_sub (ex_transmit ex) (ex_receive ex)"
    and "s_delay s = fmax (as_seconds_f64 (dur_sub (ts_wrapping_sub (ex_destination ex) (ex_origin ex))
           (ts_wrapping_sub (ex_transmit ex) (ex_receive ex)))) MIN_DISPERSION"
    and "\<not> flt max_delay (s_delay s)"
    and "s_offset s = fdiv (as_seconds_f64 (dur_add (ts_wrapping_sub (ex_receive ex) (ex_origin ex))
           (ts_wrapping_sub (ex_transmit ex) (ex_destination ex)))) (lit 2)"
    and "s_dispersion s = fadd (fadd (log2_seconds lp) (log2_seconds sp))
           (fmul PHI (as_seconds_f64 (ts_wrapping_sub (ex_destination ex) (ex_origin ex))))"
    and "s_at s = now"
  using assms by (auto simp: reduce_def Let_def dur_is_negative_def split: if_splits)

text \<open>A sample as \<open>reduce\<close> leaves it: what every later stage may rely on.\<close>

definition sample_ok :: "sample \<Rightarrow> bool" where
  "sample_ok s \<longleftrightarrow> is_finite (s_offset s) \<and> is_finite (s_delay s) \<and> fle MIN_DISPERSION (s_delay s)
     \<and> fnonneg (s_dispersion s) \<and> is_finite (s_dispersion s)"

lemma reduce_sample_ok:
  assumes "reduce ex lp sp max_delay now = Inr s"
  shows "sample_ok s"
proof -
  note r = reduce_ok [OF assms]
  let ?rt = "ts_wrapping_sub (ex_destination ex) (ex_origin ex)"
  let ?l = "fadd (log2_seconds lp) (log2_seconds sp)" and ?g = "fmul PHI (as_seconds_f64 ?rt)"
  have d: "is_finite (s_delay s)" "fle MIN_DISPERSION (s_delay s)"
    unfolding r(3) using as_seconds_small min_dispersion_val
    by (simp_all add: fmax_finite fmax_ge2)
  have o: "is_finite (s_offset s)" unfolding r(5) using halve_small by simp
  have l: "is_finite ?l" "\<bar>val ?l\<bar> \<le> 2 powi 9" "fnonneg ?l"
  proof -
    have "\<bar>val (log2_seconds lp) + val (log2_seconds sp)\<bar> \<le> 2 powi 9"
      using log2_seconds_bounds(2) [of lp] log2_seconds_bounds(2) [of sp] by simp
    then show "is_finite ?l" "\<bar>val ?l\<bar> \<le> 2 powi 9"
      using fadd_abs_le [of "log2_seconds lp" "log2_seconds sp" "2 powi 9"] rep_powi [of 9]
        log2_seconds_bounds(1) by simp_all
    show "fnonneg ?l" using log2_seconds_bounds(3) by (simp add: fadd_nonneg)
  qed
  have g: "is_finite ?g" "\<bar>val ?g\<bar> \<le> 2 powi 31" "fnonneg ?g"
  proof -
    have "\<bar>val PHI * val (as_seconds_f64 ?rt)\<bar> \<le> 1 * 2 powi 31"
      unfolding abs_mult using phi_val as_seconds_small [of ?rt] by (intro mult_mono) auto
    then show "is_finite ?g" "\<bar>val ?g\<bar> \<le> 2 powi 31"
      using fmul_abs_le [of PHI "as_seconds_f64 ?rt" "2 powi 31"] rep_powi [of 31]
        as_seconds_small [of ?rt] phi_val(1) by simp_all
    show "fnonneg ?g" using r(1) by (simp add: phi_nonneg as_seconds_nonneg)
  qed
  have "\<bar>val ?l + val ?g\<bar> \<le> 2 powi 32" using l(2) g(2) by simp
  then have "is_finite (s_dispersion s)"
    unfolding r(6) using fadd_abs_le(1) [OF l(1) g(1) _ rep_powi [of 32]] by simp
  moreover have "fnonneg (s_dispersion s)" unfolding r(6) using l(3) g(3) by (rule fadd_nonneg)
  ultimately show ?thesis using d o by (simp add: sample_ok_def)
qed

lemma half_second:
  "as_seconds_f64 (dur_sub (2 ^ 31) 0) = lit (1 / 2)"
  "\<not> flt (lit 1) (fmax (as_seconds_f64 (dur_sub (2 ^ 31) 0)) MIN_DISPERSION)"
proof -
  have half: "f_of_int (2 ^ 31) = Fin False (2 ^ 31)"
    using rep_powi [of 31] by (simp add: f_of_int_def fround_def rnd_def rep_def f64_top_def)
  show *: "as_seconds_f64 (dur_sub (2 ^ 31) 0) = lit (1 / 2)"
    by (simp add: as_seconds_f64_def tick_lit dur_sub_def sat_i64_def i64_min_def i64_max_def half [simplified])
       (simp add: rnd_eval)
  show "\<not> flt (lit 1) (fmax (as_seconds_f64 (dur_sub (2 ^ 31) 0)) MIN_DISPERSION)"
    unfolding * MIN_DISPERSION_def fmax_def flt_def by (simp add: rnd_eval)
qed

section \<open>Properties\<close>

text \<open>
  Every accepted sample is usable: its delay is finite, at least the 1 ms floor and not
  above the limit given, its offset is finite and within half the 68-year range of the format,
  its dispersion is finite and not negative, and it carries the time it was taken at.
\<close>
theorem reduce_bounds:
  assumes "reduce ex lp sp max_delay now = Inr s"
  shows "sample_ok s \<and> \<not> flt max_delay (s_delay s) \<and> \<bar>val (s_offset s)\<bar> \<le> 2 powi 30 \<and> s_at s = now"
  using reduce_sample_ok [OF assms] reduce_ok [OF assms] halve_small by simp

theorem reduce_bounds_witness:
  "\<exists>s. reduce \<lparr>ex_origin = 0, ex_receive = 2 ^ 32, ex_transmit = 2 ^ 32, ex_destination = 2 ^ 31\<rparr>
         (- 20) (- 20) (lit 1) fzero = Inr s
       \<and> sample_ok s \<and> \<not> flt (lit 1) (s_delay s) \<and> \<bar>val (s_offset s)\<bar> \<le> 2 powi 30 \<and> s_at s = fzero"
proof -
  let ?ex = "\<lparr>ex_origin = 0, ex_receive = 2 ^ 32, ex_transmit = 2 ^ 32, ex_destination = 2 ^ 31\<rparr>"
  have sub: "ts_wrapping_sub (2 ^ 31) 0 = 2 ^ 31" "ts_wrapping_sub (2 ^ 32) (2 ^ 32) = 0"
    by (simp_all add: ts_wrapping_sub_def u64_as_i64_def)
  have "\<exists>s. reduce ?ex (- 20) (- 20) (lit 1) fzero = Inr s"
    unfolding reduce_def Let_def exchange.simps sub dur_is_negative_def
    using half_second(2) by simp
  then obtain s where "reduce ?ex (- 20) (- 20) (lit 1) fzero = Inr s" ..
  with reduce_bounds [OF this] show ?thesis by blast
qed

text \<open>What an exchange with a server whose clock is ahead by \<open>x\<close> reduces to.\<close>

lemma reduce_of_exchange:
  assumes "reduce \<lparr>ex_origin = word_of_int t, ex_receive = word_of_int (t + out + x),
             ex_transmit = word_of_int (t + out + hold + x),
             ex_destination = word_of_int (t + out + hold + back)\<rparr> lp sp max_delay now = Inr s"
    and "0 \<le> out" "0 \<le> hold" "0 \<le> back" "out + hold + back \<le> 2 ^ 60" "\<bar>x\<bar> \<le> 2 ^ 60"
  shows "s_delay s = fmax (as_seconds_f64 (out + back)) MIN_DISPERSION"
    and "s_offset s = fdiv (as_seconds_f64 (2 * x + (out - back))) (lit 2)"
proof -
  have i64: "in_i64 n" if "\<bar>n\<bar> \<le> 2 ^ 62" for n
    using that by (auto simp: in_i64_def i64_min_def i64_max_def)
  have sub: "ts_wrapping_sub (word_of_int a) (word_of_int b) = a - b" if "\<bar>a - b\<bar> \<le> 2 ^ 62" for a b
    by (rule ts_wrapping_sub_of_int) (rule i64, fact that)
  have "ts_wrapping_sub (word_of_int (t + out + hold + back)) (word_of_int t) = out + hold + back"
    "ts_wrapping_sub (word_of_int (t + out + hold + x)) (word_of_int (t + out + x)) = hold"
    "ts_wrapping_sub (word_of_int (t + out + x)) (word_of_int t) = out + x"
    "ts_wrapping_sub (word_of_int (t + out + hold + x)) (word_of_int (t + out + hold + back)) = x - back"
    using assms by (subst sub; simp)+
  note r = reduce_ok(3,5) [OF assms(1), simplified exchange.simps this]
  show "s_delay s = fmax (as_seconds_f64 (out + back)) MIN_DISPERSION"
    using assms by (simp add: r(1) dur_sub_def i64 algebra_simps)
  show "s_offset s = fdiv (as_seconds_f64 (2 * x + (out - back))) (lit 2)"
    using assms by (simp add: r(2) dur_add_def i64 algebra_simps)
qed

text \<open>
  The asymmetry bound: when the server is \<open>x\<close> ticks ahead and the packets spend \<open>out\<close> and
  \<open>back\<close> ticks in flight, the offset measured is between \<open>x - (out + back) / 2\<close> and
  \<open>x + (out + back) / 2\<close>, each rounded as the code rounds, and the delay reported is at least
  \<open>out + back\<close>. Whatever the eras of the two clocks, half the delay bounds the error.
\<close>
theorem sample_truth_within_half_delay:
  assumes "reduce \<lparr>ex_origin = word_of_int t, ex_receive = word_of_int (t + out + x),
             ex_transmit = word_of_int (t + out + hold + x),
             ex_destination = word_of_int (t + out + hold + back)\<rparr> lp sp max_delay now = Inr s"
    and "0 \<le> out" "0 \<le> hold" "0 \<le> back" "out + hold + back \<le> 2 ^ 60" "\<bar>x\<bar> \<le> 2 ^ 60"
  shows "fle (fdiv (as_seconds_f64 (2 * x - (out + back))) (lit 2)) (s_offset s)
    \<and> fle (s_offset s) (fdiv (as_seconds_f64 (2 * x + (out + back))) (lit 2))
    \<and> fle (as_seconds_f64 (out + back)) (s_delay s)"
proof -
  have i64: "in_i64 n" if "\<bar>n\<bar> \<le> 2 ^ 62" for n
    using that by (auto simp: in_i64_def i64_min_def i64_max_def)
  have mono: "fle (fdiv (as_seconds_f64 a) (lit 2)) (fdiv (as_seconds_f64 b) (lit 2))"
    if "a \<le> b" "\<bar>a\<bar> \<le> 2 ^ 62" "\<bar>b\<bar> \<le> 2 ^ 62" for a b
    unfolding two_lit using that i64 as_seconds_small by (intro fdiv_mono as_seconds_mono) auto
  show ?thesis
    unfolding reduce_of_exchange [OF assms] using assms as_seconds_small [of "out + back"] i64
    by (auto intro!: mono fmax_ge1)
qed

theorem sample_truth_within_half_delay_witness:
  "\<exists>s. reduce \<lparr>ex_origin = 0, ex_receive = word_of_int (2 ^ 30 + 7), ex_transmit = word_of_int (2 ^ 30 + 7),
             ex_destination = word_of_int (2 ^ 31)\<rparr> (- 20) (- 20) (lit 1) fzero = Inr s
     \<and> fle (fdiv (as_seconds_f64 (2 * 7 - 2 ^ 31)) (lit 2)) (s_offset s)"
proof -
  let ?ex = "\<lparr>ex_origin = word_of_int 0, ex_receive = word_of_int (0 + 2 ^ 30 + 7),
     ex_transmit = word_of_int (0 + 2 ^ 30 + 0 + 7), ex_destination = word_of_int (0 + 2 ^ 30 + 0 + 2 ^ 30)\<rparr>"
  have sub: "ts_wrapping_sub (word_of_int (0 + 2 ^ 30 + 0 + 2 ^ 30)) (word_of_int 0) = 2 ^ 31"
    "ts_wrapping_sub (word_of_int (0 + 2 ^ 30 + 0 + 7)) (word_of_int (0 + 2 ^ 30 + 7)) = 0"
    by (simp_all add: ts_wrapping_sub_def u64_as_i64_def)
  have "\<exists>s. reduce ?ex (- 20) (- 20) (lit 1) fzero = Inr s"
    unfolding reduce_def Let_def exchange.simps sub dur_is_negative_def
    using half_second(2) by simp
  then obtain s where s: "reduce ?ex (- 20) (- 20) (lit 1) fzero = Inr s" ..
  from sample_truth_within_half_delay [OF this] s show ?thesis by simp
qed

end
