(* ===== verification/ClockFilter.thy ===== *)
theory ClockFilter
  imports Sample
begin

text \<open>
  The clock filter (\<open>timed/src/filter.rs\<close>): the eight-stage shift register of one source, the
  least-delay choice, its dispersion, jitter and freshness, and the root distance selection
  ranks by. The locale \<open>sample_register\<close> is what the rest of the program relies on.
\<close>

section \<open>Definitions\<close>

definition NSTAGE :: nat where "NSTAGE = 8"
definition MAX_DISPERSION :: f64 where "MAX_DISPERSION = lit 16"

record filtered =
  f_offset :: f64
  f_delay :: f64
  f_dispersion :: f64
  f_jitter :: f64
  f_at :: f64

record clock_filter =
  stages :: "sample option list"
  last_reported :: "f64 option"

datatype filter_outcome = Update filtered | Stale

definition filter_new :: clock_filter where
  "filter_new = \<lparr>stages = replicate NSTAGE None, last_reported = None\<rparr>"

definition filter_reset :: "clock_filter \<Rightarrow> clock_filter" where
  "filter_reset cf = cf\<lparr>stages := replicate NSTAGE None, last_reported := None\<rparr>"

definition filter_is_empty :: "clock_filter \<Rightarrow> bool" where
  "filter_is_empty cf \<longleftrightarrow> stages cf ! 0 = None"

text \<open>The samples held, newest first, and the same in order of delay (a stable sort).\<close>

definition held :: "clock_filter \<Rightarrow> sample list" where
  "held cf = List.map_filter id (stages cf)"

definition rank_samples :: "clock_filter \<Rightarrow> sample list" where
  "rank_samples cf = sort_key s_delay (held cf)"

text \<open>What slot \<open>i\<close> of the ranked register weighs in with.\<close>

definition slot_dispersion :: "sample list \<Rightarrow> f64 \<Rightarrow> nat \<Rightarrow> f64" where
  "slot_dispersion ranked now i =
     fdiv (if i < length ranked then aged_dispersion (ranked ! i) now else MAX_DISPERSION)
       (f_pow2 (int i + 1))"

definition ranked_dispersion :: "sample list \<Rightarrow> f64 \<Rightarrow> f64" where
  "ranked_dispersion ranked now =
     foldl (\<lambda>d i. fadd d (slot_dispersion ranked now i)) fzero [0..<NSTAGE]"

definition ranked_jitter :: "sample list \<Rightarrow> f64" where
  "ranked_jitter ranked =
     (if 1 < length ranked then
        let best = ranked ! 0;
            sum = f_sum (map (\<lambda>s. f_sq (fsub (s_offset s) (s_offset best))) (tl ranked))
        in fmax (fsqrt (fdiv sum (f_of_int (int (length ranked) - 1)))) MIN_DISPERSION
      else MIN_DISPERSION)"

definition filter_insert :: "clock_filter \<Rightarrow> sample \<Rightarrow> f64 \<Rightarrow> clock_filter \<times> filter_outcome" where
  "filter_insert cf s now =
     (let cf = cf\<lparr>stages := Some s # butlast (stages cf)\<rparr>;
          ranked = rank_samples cf;
          best = ranked ! 0;
          dispersion = ranked_dispersion ranked now;
          jitter = ranked_jitter ranked
      in if (case last_reported cf of None \<Rightarrow> False | Some reported \<Rightarrow> fle (s_at best) reported)
         then (cf, Stale)
         else (cf\<lparr>last_reported := Some (s_at best)\<rparr>,
               Update \<lparr>f_offset = s_offset best, f_delay = s_delay best, f_dispersion = dispersion,
                       f_jitter = jitter, f_at = s_at best\<rparr>))"

definition filter_peek :: "clock_filter \<Rightarrow> f64 \<Rightarrow> filtered option" where
  "filter_peek cf now =
     (let ranked = rank_samples cf
      in if ranked = [] then None
         else let best = ranked ! 0
              in Some \<lparr>f_offset = s_offset best, f_delay = s_delay best,
                       f_dispersion = ranked_dispersion ranked now, f_jitter = ranked_jitter ranked,
                       f_at = s_at best\<rparr>)"

definition root_distance :: "filtered \<Rightarrow> f64 \<Rightarrow> f64 \<Rightarrow> f64 \<Rightarrow> f64" where
  "root_distance f server_root_delay server_root_dispersion now =
     fadd (fadd (fadd (fadd
        (fdiv (fmax (fadd server_root_delay (f_delay f)) MIN_DISPERSION) (lit 2))
        server_root_dispersion)
        (f_dispersion f))
        (fmul PHI (fmax (fsub now (f_at f)) fzero)))
        (f_jitter f)"

section \<open>The register\<close>

definition filter_inv :: "clock_filter \<Rightarrow> bool" where
  "filter_inv cf \<longleftrightarrow> length (stages cf) = NSTAGE
     \<and> (\<exists>k. drop k (stages cf) = replicate (NSTAGE - k) None \<and> None \<notin> set (take k (stages cf)))"

lemma filter_inv_new: "filter_inv filter_new"
  by (auto simp: filter_inv_def filter_new_def intro!: exI [of _ 0])

lemma held_simps:
  "held filter_new = []" "held (filter_reset cf) = []"
  "held (cf\<lparr>last_reported := l\<rparr>) = held cf"
  by (simp_all add: held_def filter_new_def filter_reset_def map_filter_def)

lemma filter_inv_reset: "filter_inv (filter_reset cf)"
  by (auto simp: filter_inv_def filter_reset_def intro!: exI [of _ 0])

lemma held_shape:
  assumes "filter_inv cf"
  shows "stages cf = map Some (held cf) @ replicate (NSTAGE - length (held cf)) None"
    "length (held cf) \<le> NSTAGE"
proof -
  obtain k where len: "length (stages cf) = NSTAGE"
    and k: "drop k (stages cf) = replicate (NSTAGE - k) None" "None \<notin> set (take k (stages cf))"
    using assms by (auto simp: filter_inv_def)
  let ?p = "take k (stages cf)"
  have p: "map Some (List.map_filter id ?p) = ?p"
  proof -
    have "map Some (List.map_filter id xs) = xs" if "None \<notin> set xs" for xs :: "sample option list"
      using that by (induction xs) (auto simp: map_filter_def, metis option.exhaust)
    from this [OF k(2)] show ?thesis .
  qed
  have h: "held cf = List.map_filter id ?p"
  proof -
    have "List.map_filter id (?p @ drop k (stages cf)) = List.map_filter id ?p"
      unfolding k(1) by (simp add: map_filter_def)
    then show ?thesis by (simp add: held_def)
  qed
  have lp: "length (held cf) = length ?p" unfolding h using arg_cong [OF p, of length] by simp
  show "length (held cf) \<le> NSTAGE" using lp len by simp
  have "stages cf = ?p @ drop k (stages cf)" by simp
  also have "\<dots> = map Some (held cf) @ replicate (NSTAGE - k) None" by (simp only: k(1) h p)
  also have "NSTAGE - k = NSTAGE - length (held cf)" using lp len by simp
  finally show "stages cf = map Some (held cf) @ replicate (NSTAGE - length (held cf)) None" .
qed

lemma filter_inv_shape:
  "length xs \<le> NSTAGE \<Longrightarrow> filter_inv \<lparr>stages = map Some xs @ replicate (NSTAGE - length xs) None, last_reported = l\<rparr>"
  by (auto simp: filter_inv_def intro!: exI [of _ "length xs"])

lemma held_of_shape:
  "held \<lparr>stages = map Some xs @ replicate n None, last_reported = l\<rparr> = xs"
  by (simp add: held_def map_filter_def comp_def)

lemma shift_shape:
  assumes "filter_inv cf"
  shows "Some s # butlast (stages cf)
     = map Some (take NSTAGE (s # held cf)) @ replicate (NSTAGE - length (take NSTAGE (s # held cf))) None"
proof (cases "length (held cf) < NSTAGE")
  case True
  then obtain n where n: "NSTAGE - length (held cf) = Suc n" by (cases "NSTAGE - length (held cf)") auto
  then have "butlast (stages cf) = map Some (held cf) @ replicate n None"
    by (subst held_shape(1) [OF assms]) (simp add: butlast_append flip: replicate_append_same)
  moreover have "NSTAGE - Suc (length (held cf)) = n" "take NSTAGE (s # held cf) = s # held cf"
    using n True by auto
  ultimately show ?thesis by simp
next
  case False
  then have full: "length (held cf) = NSTAGE" using held_shape(2) [OF assms] by simp
  then have "stages cf = map Some (held cf)" by (subst held_shape(1) [OF assms]) simp
  moreover have "take NSTAGE (s # held cf) = s # butlast (held cf)"
    using full by (simp add: take_Cons' butlast_conv_take NSTAGE_def)
  ultimately show ?thesis using full by (simp add: map_butlast NSTAGE_def)
qed

lemma insert_stages: "stages (fst (filter_insert cf s now)) = Some s # butlast (stages cf)"
  by (simp add: filter_insert_def Let_def)

lemma clock_filter_eta: "cf = \<lparr>stages = stages cf, last_reported = last_reported cf\<rparr>"
  by simp

lemma filter_inv_insert:
  assumes "filter_inv cf"
  shows "filter_inv (fst (filter_insert cf s now))"
    "held (fst (filter_insert cf s now)) = take NSTAGE (s # held cf)"
proof -
  have st: "stages (fst (filter_insert cf s now))
      = map Some (take NSTAGE (s # held cf)) @ replicate (NSTAGE - length (take NSTAGE (s # held cf))) None"
    by (simp only: insert_stages shift_shape [OF assms])
  show "filter_inv (fst (filter_insert cf s now))"
    "held (fst (filter_insert cf s now)) = take NSTAGE (s # held cf)"
    by (subst clock_filter_eta, simp only: st, rule filter_inv_shape held_of_shape, simp?)+
qed

section \<open>The register's contract\<close>

text \<open>
  What a source relies on: pushing keeps the last eight samples, newest first, resetting
  forgets them all, and an estimate exists exactly when something is held.
\<close>

locale sample_register =
  fixes inv :: "'r \<Rightarrow> bool"
    and empty :: 'r
    and push :: "'r \<Rightarrow> sample \<Rightarrow> f64 \<Rightarrow> 'r \<times> 'o"
    and clear :: "'r \<Rightarrow> 'r"
    and estimate :: "'r \<Rightarrow> f64 \<Rightarrow> filtered option"
    and samples :: "'r \<Rightarrow> sample list"
  assumes inv_empty: "inv empty" and samples_empty: "samples empty = []"
    and inv_push: "inv r \<Longrightarrow> inv (fst (push r s now))"
    and samples_push: "inv r \<Longrightarrow> samples (fst (push r s now)) = take NSTAGE (s # samples r)"
    and inv_clear: "inv (clear r)" and samples_clear: "samples (clear r) = []"
    and estimate_None: "estimate r now = None \<longleftrightarrow> samples r = []"
begin

definition push_all :: "'r \<Rightarrow> (sample \<times> f64) list \<Rightarrow> 'r" where
  "push_all r ps = foldl (\<lambda>r (s, now). fst (push r s now)) r ps"

lemma push_all_samples:
  "inv r \<Longrightarrow> length (samples r) \<le> NSTAGE \<Longrightarrow>
   inv (push_all r ps) \<and> samples (push_all r ps) = take NSTAGE (rev (map fst ps) @ samples r)"
proof (induction ps rule: rev_induct)
  case Nil
  then show ?case by (simp add: push_all_def)
next
  case (snoc p ps)
  obtain s now where p: "p = (s, now)" by (cases p)
  have "push_all r (ps @ [p]) = fst (push (push_all r ps) s now)" by (simp add: push_all_def p)
  with snoc show ?case
    by (auto simp: p inv_push samples_push take_Cons' NSTAGE_def min_def)
qed

lemma history: "samples (push_all empty ps) = take NSTAGE (rev (map fst ps))"
  using push_all_samples [OF inv_empty] by (simp add: samples_empty)

lemma clear_forgets: "estimate (clear r) now = None"
  by (simp add: estimate_None samples_clear)

lemma push_has_estimate: "inv r \<Longrightarrow> estimate (fst (push r s now)) now' \<noteq> None"
  by (simp add: estimate_None samples_push NSTAGE_def)

end

lemma rank_nil [simp]: "rank_samples cf = [] \<longleftrightarrow> held cf = []"
  by (metis length_0_conv length_sort rank_samples_def)

interpretation reg: sample_register filter_inv filter_new filter_insert filter_reset filter_peek held
proof unfold_locales
  show "filter_peek r now = None \<longleftrightarrow> held r = []" for r now
    by (simp add: filter_peek_def Let_def)
qed (auto simp: filter_inv_new held_simps filter_inv_insert filter_inv_reset)

section \<open>The estimate\<close>

lemma rank_set [simp]: "set (rank_samples cf) = set (held cf)" "length (rank_samples cf) = length (held cf)"
  by (simp_all add: rank_samples_def)

lemma rank_head:
  assumes "held cf \<noteq> []"
  shows "rank_samples cf ! 0 \<in> set (held cf)"
    and "s \<in> set (held cf) \<Longrightarrow> s_delay (rank_samples cf ! 0) \<le> s_delay s"
proof -
  have ne: "rank_samples cf \<noteq> []" using assms by simp
  then show "rank_samples cf ! 0 \<in> set (held cf)"
    by (metis hd_conv_nth hd_in_set rank_set(1))
  have "sorted (map s_delay (rank_samples cf))" by (simp add: rank_samples_def)
  moreover assume "s \<in> set (held cf)"
  then have "s \<in> set (rank_samples cf)" by simp
  then obtain i where "i < length (rank_samples cf)" "s = rank_samples cf ! i"
    by (metis in_set_conv_nth)
  ultimately show "s_delay (rank_samples cf ! 0) \<le> s_delay s"
    using sorted_nth_mono [of "map s_delay (rank_samples cf)" 0 i] assms ne by auto
qed

definition estimate_of :: "clock_filter \<Rightarrow> f64 \<Rightarrow> filtered" where
  "estimate_of cf now = (let ranked = rank_samples cf; best = ranked ! 0
     in \<lparr>f_offset = s_offset best, f_delay = s_delay best,
         f_dispersion = ranked_dispersion ranked now, f_jitter = ranked_jitter ranked,
         f_at = s_at best\<rparr>)"

lemma peek_eq: "filter_peek cf now = (if held cf = [] then None else Some (estimate_of cf now))"
  by (simp add: filter_peek_def estimate_of_def Let_def)

lemma rank_last_reported [simp]: "rank_samples (cf\<lparr>last_reported := l\<rparr>) = rank_samples cf"
  by (simp add: rank_samples_def held_simps)

lemma insert_update:
  assumes "filter_insert cf s now = (cf', Update f)"
  shows "f = estimate_of cf' now" "last_reported cf' = Some (f_at f)"
    "\<forall>l. last_reported cf = Some l \<longrightarrow> \<not> fle (f_at f) l"
  using assms by (auto simp: filter_insert_def estimate_of_def Let_def split: if_splits option.splits)

lemma insert_stale:
  assumes "filter_insert cf s now = (cf', Stale)"
  shows "last_reported cf' = last_reported cf"
    "\<exists>l. last_reported cf = Some l \<and> fle (f_at (estimate_of cf' now)) l"
  using assms by (auto simp: filter_insert_def estimate_of_def Let_def split: if_splits option.splits)

section \<open>Dispersion and jitter\<close>

lemma jitter_floor: "fle MIN_DISPERSION (ranked_jitter ranked)"
  using min_dispersion_val by (simp add: ranked_jitter_def Let_def fmax_ge2)

lemma fnonneg_of_le: "fnonneg x \<Longrightarrow> fle x y \<Longrightarrow> fnonneg y"
  unfolding fnonneg_def by (rule fle_trans)

lemma fzero_fle: "fnonneg x \<Longrightarrow> fle fzero x"
  by (simp add: fnonneg_def)

lemma age_nonneg: "fnonneg (fmax x fzero)"
  by (rule fmax_nonneg) (simp add: fnonneg_cases)

lemma f64_ok_fzero [simp]: "f64_ok fzero"
  by (simp add: f64_top_def)

lemma aged_nonneg: "fnonneg (s_dispersion s) \<Longrightarrow> fnonneg (aged_dispersion s now)"
  unfolding aged_dispersion_def by (intro fadd_nonneg phi_nonneg age_nonneg) simp_all

lemma pow2_slot: "f_pow2 (int i + 1) = Fin False (2 ^ Suc i)" if "i < NSTAGE"
proof -
  have "rep (2 powi (int i + 1))" by (rule rep_powi) simp
  moreover have "(2::rat) powi (int i + 1) = 2 ^ Suc i"
    by (simp add: power_int_def nat_add_distrib flip: power_Suc)
  moreover have "(2::rat) ^ Suc i < 2 ^ 1024"
    using that by (intro power_strict_increasing) (simp_all add: NSTAGE_def)
  ultimately show ?thesis by (simp add: f_pow2_def rnd_def rep_def f64_top_def Let_def)
qed

lemma round_mag_nonpos: "x \<le> 0 \<Longrightarrow> round_mag x = 0"
  by (simp add: round_mag_def)

lemma fdiv_nonneg: "fnonneg x \<Longrightarrow> 0 < c \<Longrightarrow> fnonneg (fdiv x (Fin False c))"
  by (cases x)
    (auto simp: fnonneg_cases rnd_def Let_def round_mag_nonpos divide_le_0_iff split: if_splits)

lemma fdiv_mono_nonneg:
  assumes "fle x y" "fnonneg x" "f64_ok x" "f64_ok y" "0 < c"
  shows "fle (fdiv x (Fin False c)) (fdiv y (Fin False c))"
proof (cases "is_finite y")
  case True
  then have "is_finite x" using assms is_finite_between [of fzero x y] by (simp add: fnonneg_def)
  with True assms show ?thesis by (intro fdiv_mono)
next
  case False
  have "fnonneg y" using assms fnonneg_of_le by blast
  with False have "fdiv y (Fin False c) = Inf False" by (auto simp: fnonneg_cases)
  moreover have "fnonneg (fdiv x (Fin False c))" using assms by (simp add: fdiv_nonneg)
  ultimately show ?thesis by (auto simp: fnonneg_cases fle_def, cases "fdiv x (Fin False c)"; simp)
qed

lemma foldl_fadd_mono:
  "fle a b \<Longrightarrow> fnonneg a \<Longrightarrow> (\<And>i. i \<in> set is \<Longrightarrow> fnonneg (g i) \<and> fle (g i) (f i)) \<Longrightarrow>
   fle (foldl (\<lambda>d i. fadd d (g i)) a is) (foldl (\<lambda>d i. fadd d (f i)) b is)
   \<and> fnonneg (foldl (\<lambda>d i. fadd d (g i)) a is)"
proof (induction "is" arbitrary: a b)
  case (Cons i "is")
  have "fle (fadd a (g i)) (fadd b (f i))" "fnonneg (fadd a (g i))"
    using Cons.prems by (auto intro: fadd_mono_nonneg fadd_nonneg)
  then show ?case using Cons by simp
qed simp

lemma slot_nonneg_of:
  assumes "\<forall>s\<in>set ranked. fnonneg (s_dispersion s)" "i < NSTAGE"
  shows "fnonneg (slot_dispersion ranked now i)"
  unfolding slot_dispersion_def pow2_slot [OF assms(2)]
proof (rule fdiv_nonneg)
  show "fnonneg (if i < length ranked then aged_dispersion (ranked ! i) now else MAX_DISPERSION)"
    using assms(1) by (auto simp: MAX_DISPERSION_def rnd_eval aged_nonneg) (simp add: fnonneg_cases)
qed simp

lemma dispersion_nonneg_of:
  "\<forall>s\<in>set ranked. fnonneg (s_dispersion s) \<Longrightarrow> fnonneg (ranked_dispersion ranked now)"
  unfolding ranked_dispersion_def
  using foldl_fadd_mono [of fzero fzero "[0..<NSTAGE]" "slot_dispersion ranked now" "slot_dispersion ranked now"]
  by (auto simp: slot_nonneg_of fnonneg_not_nan fnonneg_cases [of fzero])

lemma slot_nonneg: "list_all sample_ok ranked \<Longrightarrow> i < NSTAGE \<Longrightarrow> fnonneg (slot_dispersion ranked now i)"
  by (simp add: slot_nonneg_of list_all_iff sample_ok_def)

lemma dispersion_nonneg: "list_all sample_ok ranked \<Longrightarrow> fnonneg (ranked_dispersion ranked now)"
  by (simp add: dispersion_nonneg_of list_all_iff sample_ok_def)

text \<open>A register with at most three samples carries the weight of five empty slots.\<close>

definition empty_weight :: "nat \<Rightarrow> f64" where
  "empty_weight i = (if i < 3 then fzero else fdiv MAX_DISPERSION (f_pow2 (int i + 1)))"

lemma empty_weights: "foldl (\<lambda>d i. fadd d (empty_weight i)) fzero [0..<NSTAGE] = lit (31 / 16)"
proof -
  have e: "[0..<NSTAGE] = [0, 1, 2, 3, 4, 5, 6, 7]" by (simp add: NSTAGE_def upt_rec)
  have p: "f_pow2 4 = Fin False 16" "f_pow2 5 = Fin False 32" "f_pow2 6 = Fin False 64"
     "f_pow2 7 = Fin False 128" "f_pow2 8 = Fin False 256"
    using pow2_slot [of 3] pow2_slot [of 4] pow2_slot [of 5] pow2_slot [of 6] pow2_slot [of 7]
    by (simp_all add: NSTAGE_def)
  show ?thesis
    unfolding e by (simp add: empty_weight_def MAX_DISPERSION_def p fround_def) (simp add: rnd_eval fround_def)
qed

lemma few_samples_dispersion:
  assumes "list_all sample_ok ranked" "length ranked \<le> 3"
  shows "fle (lit (31 / 16)) (ranked_dispersion ranked now)"
proof -
  have "fnonneg (empty_weight i) \<and> fle (empty_weight i) (slot_dispersion ranked now i)"
    if "i \<in> set [0..<NSTAGE]" for i
  proof (cases "i < 3")
    case True
    then show ?thesis
      using slot_nonneg [OF assms(1), of i now] that
      by (simp add: empty_weight_def fnonneg_def)
  next
    case False
    then have eq: "empty_weight i = slot_dispersion ranked now i"
      using assms(2) by (simp add: empty_weight_def slot_dispersion_def)
    have "fnonneg (slot_dispersion ranked now i)" using slot_nonneg [OF assms(1)] that by simp
    then show ?thesis by (simp add: eq fnonneg_not_nan)
  qed
  then show ?thesis
    using foldl_fadd_mono [of fzero fzero "[0..<NSTAGE]" empty_weight "slot_dispersion ranked now"]
    by (simp add: ranked_dispersion_def empty_weights fnonneg_cases)
qed

lemma aged_mono:
  assumes "sample_ok s" "fle t1 t2" "is_finite t1" "is_finite t2" "is_finite (s_at s)"
  shows "fle (aged_dispersion s t1) (aged_dispersion s t2)"
  unfolding aged_dispersion_def using assms
  by (intro fadd_mono_nonneg phi_mono phi_nonneg age_nonneg fmax_mono fsub_mono)
     (auto simp: sample_ok_def fnonneg_not_nan)

lemma slot_mono:
  assumes "list_all sample_ok ranked" "i < NSTAGE" "fle t1 t2" "is_finite t1" "is_finite t2"
    "list_all (\<lambda>s. is_finite (s_at s)) ranked"
  shows "fle (slot_dispersion ranked t1 i) (slot_dispersion ranked t2 i)"
proof (cases "i < length ranked")
  case True
  then have ok: "sample_ok (ranked ! i)" "is_finite (s_at (ranked ! i))"
    using assms by (simp_all add: list_all_length)
  have "fle (aged_dispersion (ranked ! i) t1) (aged_dispersion (ranked ! i) t2)"
    by (rule aged_mono [OF ok(1) assms(3-5) ok(2)])
  moreover have "fnonneg (aged_dispersion (ranked ! i) t1)"
    using ok(1) by (simp add: aged_nonneg sample_ok_def)
  ultimately show ?thesis
    using True by (simp add: slot_dispersion_def pow2_slot [OF assms(2)])
      (rule fdiv_mono_nonneg, simp_all add: aged_dispersion_def)
next
  case False
  then have "slot_dispersion ranked t2 i = slot_dispersion ranked t1 i"
    by (simp add: slot_dispersion_def)
  then show ?thesis using slot_nonneg [OF assms(1,2), of t1] by (simp add: fnonneg_not_nan)
qed

lemma dispersion_mono:
  assumes "list_all sample_ok ranked" "fle t1 t2" "is_finite t1" "is_finite t2"
    "list_all (\<lambda>s. is_finite (s_at s)) ranked"
  shows "fle (ranked_dispersion ranked t1) (ranked_dispersion ranked t2)"
  unfolding ranked_dispersion_def
  using foldl_fadd_mono [of fzero fzero "[0..<NSTAGE]" "slot_dispersion ranked t1" "slot_dispersion ranked t2"]
    slot_mono [OF assms(1) _ assms(2-5)] slot_nonneg [OF assms(1)]
  by (simp add: fnonneg_cases [of fzero])

lemma root_terms_nonneg:
  "fnonneg (fdiv (fmax x MIN_DISPERSION) (lit 2))" "fnonneg (fmul PHI (fmax (fsub y z) fzero))"
  unfolding two_lit using min_dispersion_val(3)
  by (simp_all add: phi_nonneg age_nonneg fdiv_nonneg fmax_nonneg)

lemma jitter_nonneg: "fnonneg (ranked_jitter r)"
  using jitter_floor min_dispersion_val(3) fnonneg_of_le by blast

lemma list_all_rank [simp]: "list_all P (rank_samples cf) \<longleftrightarrow> list_all P (held cf)"
  by (simp add: list_all_iff)

lemma fadd_ge:
  assumes "fnonneg x" "fnonneg y" "f64_ok x" "f64_ok y"
  shows "fle x (fadd x y)" "fle y (fadd x y)"
proof -
  have id: "fkey (fadd x fzero) = fkey x" "fkey (fadd fzero y) = fkey y"
    using assms by (cases x; cases y; auto simp: fnonneg_cases fround_def rnd_def rep_def split: if_splits)+
  have "fle (fadd x fzero) (fadd x y)" "fle (fadd fzero y) (fadd x y)"
    using assms by (auto intro!: fadd_mono_nonneg simp: fnonneg_not_nan fnonneg_def)
  then show "fle x (fadd x y)" "fle y (fadd x y)"
    using id assms by (auto simp: fle_def dest: fnonneg_not_nan)
qed

section \<open>Properties\<close>

text \<open>
  An insertion that reports an estimate reports the least-delayed of the last eight samples,
  the new one included, with exactly the values a peek at the same moment gives.
\<close>
theorem filter_reports_least_delay:
  assumes "filter_inv cf" and "filter_insert cf s now = (cf', Update f)"
  shows "filter_peek cf' now = Some f
    \<and> (\<exists>b\<in>set (take NSTAGE (s # held cf)). f_offset f = s_offset b \<and> f_delay f = s_delay b \<and> f_at f = s_at b
         \<and> (\<forall>s'\<in>set (take NSTAGE (s # held cf)). s_delay b \<le> s_delay s'))"
proof -
  have held: "held cf' = take NSTAGE (s # held cf)"
    using filter_inv_insert(2) [OF assms(1), of s now] assms(2) by simp
  then have ne: "held cf' \<noteq> []" by (simp add: NSTAGE_def)
  have f: "f = estimate_of cf' now" using insert_update(1) [OF assms(2)] .
  then have "f_offset f = s_offset (rank_samples cf' ! 0) \<and> f_delay f = s_delay (rank_samples cf' ! 0)
      \<and> f_at f = s_at (rank_samples cf' ! 0)"
    by (simp add: estimate_of_def Let_def)
  moreover have "filter_peek cf' now = Some f" using ne by (simp add: peek_eq f)
  ultimately show ?thesis
    using rank_head [OF ne] by (auto simp: held [symmetric] intro!: bexI [of _ "rank_samples cf' ! 0"])
qed

theorem filter_reports_least_delay_witness:
  "filter_peek (fst (filter_insert filter_new
      \<lparr>s_offset = fzero, s_delay = lit 1, s_dispersion = fzero, s_at = lit 5\<rparr> (lit 5))) (lit 5)
   = Some (estimate_of (fst (filter_insert filter_new
      \<lparr>s_offset = fzero, s_delay = lit 1, s_dispersion = fzero, s_at = lit 5\<rparr> (lit 5))) (lit 5))"
proof -
  let ?s = "\<lparr>s_offset = fzero, s_delay = lit 1, s_dispersion = fzero, s_at = lit 5\<rparr>"
  obtain cf' f where i: "filter_insert filter_new ?s (lit 5) = (cf', Update f)"
    by (simp add: filter_insert_def filter_new_def Let_def)
  from filter_reports_least_delay [OF filter_inv_new i] insert_update(1) [OF i]
  show ?thesis by (simp add: i)
qed

text \<open>The estimates a sequence of insertions reports.\<close>

fun reports :: "clock_filter \<Rightarrow> (sample \<times> f64) list \<Rightarrow> filtered list" where
  "reports cf [] = []"
| "reports cf ((s, now) # ps) =
     (case filter_insert cf s now of
        (cf', Update f) \<Rightarrow> f # reports cf' ps
      | (cf', Stale) \<Rightarrow> reports cf' ps)"

lemma reports_increase:
  "filter_inv cf \<Longrightarrow> list_all (\<lambda>s. \<not> is_nan (s_at s)) (held cf) \<Longrightarrow>
   list_all (\<lambda>(s, now). \<not> is_nan (s_at s)) ps \<Longrightarrow>
   (\<forall>l. last_reported cf = Some l \<longrightarrow> \<not> is_nan l) \<Longrightarrow>
   sorted_wrt flt (map f_at (reports cf ps))
   \<and> (\<forall>f\<in>set (reports cf ps). \<forall>l. last_reported cf = Some l \<longrightarrow> flt l (f_at f))"
proof (induction ps arbitrary: cf)
  case Nil
  then show ?case by simp
next
  case (Cons p ps)
  obtain s now where p: "p = (s, now)" by (cases p)
  obtain cf' out where i: "filter_insert cf s now = (cf', out)" by (cases "filter_insert cf s now")
  have inv: "filter_inv cf'" and held: "held cf' = take NSTAGE (s # held cf)"
    using filter_inv_insert [OF Cons.prems(1), of s now] by (simp_all add: i)
  have ats: "list_all (\<lambda>s. \<not> is_nan (s_at s)) (held cf')"
    using Cons.prems(2,3) by (auto simp: held p list_all_iff dest!: in_set_takeD)
  have "rank_samples cf' ! 0 \<in> set (held cf')" by (rule rank_head) (simp add: held NSTAGE_def)
  then have best: "\<not> is_nan (f_at (estimate_of cf' now))"
    using ats by (simp add: estimate_of_def Let_def list_all_iff)
  show ?case
  proof (cases out)
    case (Update f)
    note u = insert_update [OF i [unfolded Update]]
    have f: "\<not> is_nan (f_at f)" using best u(1) by simp
    have new: "flt l (f_at f)" if "last_reported cf = Some l" for l
      using u(3) that f Cons.prems(4) not_fle by blast
    have "sorted_wrt flt (map f_at (reports cf' ps))
      \<and> (\<forall>g\<in>set (reports cf' ps). flt (f_at f) (f_at g))"
      using Cons.IH [OF inv ats] Cons.prems(3) u(2) f by simp
    then show ?thesis using new by (auto simp: p i Update intro: flt_trans [of _ "f_at f"])
  next
    case Stale
    note u = insert_stale [OF i [unfolded Stale]]
    show ?thesis using Cons.IH [OF inv ats] Cons.prems(3,4) u(1) by (simp add: p i Stale)
  qed
qed

text \<open>
  No measurement is used twice: over any sequence of insertions into a new register, the
  measurement times of the estimates it reports strictly increase, so the discipline never
  receives the same sample again, however good its delay stays.
\<close>
theorem filter_never_repeats:
  assumes "list_all (\<lambda>(s, now). \<not> is_nan (s_at s)) ps"
  shows "sorted_wrt flt (map f_at (reports filter_new ps))"
  using reports_increase [OF filter_inv_new _ assms] by (simp add: held_simps) (simp add: filter_new_def)

theorem filter_never_repeats_witness:
  "sorted_wrt flt (map f_at (reports filter_new
     [(\<lparr>s_offset = fzero, s_delay = lit 1, s_dispersion = fzero, s_at = lit 5\<rparr>, lit 5),
      (\<lparr>s_offset = fzero, s_delay = lit 2, s_dispersion = fzero, s_at = lit 9\<rparr>, lit 9)]))"
  by (rule filter_never_repeats) (simp add: lit_def)

text \<open>
  A source that falls silent gets steadily less believable: with nothing new inserted, its
  estimate keeps its offset while its root distance never decreases as time passes.
\<close>
theorem silent_source_ages:
  assumes "filter_peek cf t1 = Some f1" and "filter_peek cf t2 = Some f2"
    and "fle t1 t2" "is_finite t1" "is_finite t2"
    and "list_all (\<lambda>s. sample_ok s \<and> is_finite (s_at s)) (held cf)"
    and "fnonneg root_disp"
  shows "f_offset f1 = f_offset f2
    \<and> fle (root_distance f1 root_delay root_disp t1) (root_distance f2 root_delay root_disp t2)"
proof -
  have held: "held cf \<noteq> []" and f: "f1 = estimate_of cf t1" "f2 = estimate_of cf t2"
    using assms(1,2) by (auto simp: peek_eq split: if_splits)
  have ok: "list_all sample_ok (rank_samples cf)" "list_all (\<lambda>s. is_finite (s_at s)) (rank_samples cf)"
    using assms(6) by (simp_all add: list_all_iff)
  have at: "is_finite (s_at (rank_samples cf ! 0))"
    using rank_head(1) [OF held] assms(6) by (simp add: list_all_iff)
  have age: "fle (fmul PHI (fmax (fsub t1 (s_at (rank_samples cf ! 0))) fzero))
      (fmul PHI (fmax (fsub t2 (s_at (rank_samples cf ! 0))) fzero))"
    using assms(3-5) at by (intro phi_mono age_nonneg fmax_mono fsub_mono) simp_all
  note nn = root_terms_nonneg dispersion_nonneg [OF ok(1)] jitter_nonneg assms(7)
  show ?thesis
    unfolding f estimate_of_def Let_def root_distance_def filtered.simps
    using age dispersion_mono [OF ok(1) assms(3-5) ok(2)] nn
    by (auto intro!: fadd_mono_nonneg fadd_nonneg simp: fnonneg_not_nan)
qed

theorem silent_source_ages_witness:
  "\<exists>f1 f2. filter_peek (fst (filter_insert filter_new
      \<lparr>s_offset = fzero, s_delay = lit 1, s_dispersion = fzero, s_at = lit 5\<rparr> (lit 5))) (lit 6) = Some f1
   \<and> filter_peek (fst (filter_insert filter_new
      \<lparr>s_offset = fzero, s_delay = lit 1, s_dispersion = fzero, s_at = lit 5\<rparr> (lit 5))) (lit 90) = Some f2
   \<and> fle (root_distance f1 fzero fzero (lit 6)) (root_distance f2 fzero fzero (lit 90))"
proof -
  let ?s = "\<lparr>s_offset = fzero, s_delay = lit 1, s_dispersion = fzero, s_at = lit 5\<rparr>"
  let ?cf = "fst (filter_insert filter_new ?s (lit 5))"
  have held: "held ?cf = [?s]"
    using filter_inv_insert(2) [OF filter_inv_new] by (simp add: held_simps NSTAGE_def)
  have p: "filter_peek ?cf t = Some (estimate_of ?cf t)" for t by (simp add: peek_eq held)
  have lits: "lit 1 = Fin False 1" "lit 5 = Fin False 5" "lit 6 = Fin False 6" "lit 90 = Fin False 90"
    by (simp_all add: rnd_eval)
  have "fle MIN_DISPERSION (lit 1)" unfolding MIN_DISPERSION_def fle_def by (simp add: rnd_eval)
  then have "list_all (\<lambda>s. sample_ok s \<and> is_finite (s_at s)) (held ?cf)"
    unfolding held by (simp add: sample_ok_def lits fnonneg_cases)
  from silent_source_ages [OF p p _ _ _ this, of "lit 6" "lit 90" fzero fzero] p
  show ?thesis by (simp add: fnonneg_cases lits fle_def)
qed

end
