(* ===== verification/Selection.thy ===== *)
theory Selection
  imports ClockFilter
begin

text \<open>
  Selection (\<open>timed/src/select.rs\<close>): fitness, the intersection sweep, clustering and combining.
  The locale \<open>selector\<close> is what the daemon relies on when it maps the outcome back to its
  sources by index.
\<close>

section \<open>Definitions\<close>

definition MAX_STRATUM :: u8 where "MAX_STRATUM = 16"
definition MAX_DISTANCE :: f64 where "MAX_DISTANCE = lit (3 / 2)"
definition MIN_SURVIVORS :: nat where "MIN_SURVIVORS = 3"

record candidate =
  c_id :: nat
  c_filtered :: filtered
  c_stratum :: u8
  c_root_delay :: f64
  c_root_dispersion :: f64
  c_usable :: bool
  c_prefer :: bool

definition c_distance :: "candidate \<Rightarrow> f64 \<Rightarrow> f64" where
  "c_distance c now = root_distance (c_filtered c) (c_root_delay c) (c_root_dispersion c) now"

definition is_fit :: "candidate \<Rightarrow> f64 \<Rightarrow> bool" where
  "is_fit c now \<longleftrightarrow> c_usable c \<and> c_stratum c < MAX_STRATUM \<and> flt (c_distance c now) MAX_DISTANCE"

definition c_metric :: "candidate \<Rightarrow> f64 \<Rightarrow> f64" where
  "c_metric c now = fadd (fmul MAX_DISTANCE (f_of_int (uint (c_stratum c)))) (c_distance c now)"

record selection =
  sel_offset :: f64
  sel_jitter :: f64
  sel_system_peer :: nat
  sel_survivors :: "nat list"
  sel_falsetickers :: "nat list"

datatype no_selection = NoCandidates | NoMajority

record endpoint =
  edge :: f64
  kind :: int

abbreviation c_offset :: "candidate \<Rightarrow> f64" where
  "c_offset c \<equiv> f_offset (c_filtered c)"

definition endpoints_of :: "f64 \<Rightarrow> candidate \<Rightarrow> endpoint list" where
  "endpoints_of now c =
     (let distance = c_distance c now
      in [\<lparr>edge = fsub (c_offset c) distance, kind = - 1\<rparr>,
          \<lparr>edge = c_offset c, kind = 0\<rparr>,
          \<lparr>edge = fadd (c_offset c) distance, kind = 1\<rparr>])"

definition sorted_points :: "candidate list \<Rightarrow> f64 \<Rightarrow> endpoint list" where
  "sorted_points fit now = sort_key (\<lambda>p. (edge p, kind p)) (concat (map (endpoints_of now) fit))"

text \<open>
  One sweep: \<open>dir\<close> is minus one from below and plus one from above; it returns the midpoints
  passed before the count reached \<open>need\<close>, and where it did.
\<close>

fun sweep :: "int \<Rightarrow> int \<Rightarrow> int \<Rightarrow> nat \<Rightarrow> endpoint list \<Rightarrow> nat \<times> f64 option" where
  "sweep dir need chime found [] = (found, None)"
| "sweep dir need chime found (p # ps) =
     (let chime = chime + dir * kind p
      in if need \<le> chime then (found, Some (edge p))
         else sweep dir need chime (if kind p = 0 then found + 1 else found) ps)"

function intersect_from :: "endpoint list \<Rightarrow> nat \<Rightarrow> nat \<Rightarrow> (f64 \<times> f64) option" where
  "intersect_from points m allow =
     (if 2 * allow < m then
        (case sweep (- 1) (int (m - allow)) 0 0 points of (found, low) \<Rightarrow>
         case sweep 1 (int (m - allow)) 0 found (rev points) of (found, high) \<Rightarrow>
         (if allow < found then intersect_from points m (allow + 1)
          else case (low, high) of
            (Some l, Some h) \<Rightarrow>
              (if flt l h then Some (l, h) else intersect_from points m (allow + 1))
          | _ \<Rightarrow> intersect_from points m (allow + 1)))
      else None)"
  by pat_completeness auto
termination
  by (relation "measure (\<lambda>(points, m, allow). m - allow)") auto

declare intersect_from.simps [simp del]

definition intersection :: "candidate list \<Rightarrow> f64 \<Rightarrow> (f64 \<times> f64) option" where
  "intersection fit now = intersect_from (sorted_points fit now) (length fit) 0"

text \<open>The scan for the worst survivor: index, its weighted jitter, its jitter, the least peer jitter.\<close>

definition selection_jitter :: "candidate list \<Rightarrow> candidate \<Rightarrow> f64" where
  "selection_jitter survivors c =
     fsqrt (fdiv (f_sum (map (\<lambda>s. f_sq (fsub (c_offset c) (c_offset s))) survivors))
       (f_of_int (int (length survivors) - 1)))"

fun scan_step :: "candidate list \<Rightarrow> f64 \<Rightarrow> nat \<times> f64 \<times> f64 \<times> f64 \<Rightarrow> nat \<times> candidate
    \<Rightarrow> nat \<times> f64 \<times> f64 \<times> f64" where
  "scan_step survivors now (worst, weighted, jitter, peer) (i, c) =
     (let sj = selection_jitter survivors c;
          w = fmul sj (c_metric c now);
          peer' = fmin peer (f_jitter (c_filtered c))
      in if flt weighted w then (i, w, sj, peer') else (worst, weighted, jitter, peer'))"

definition cluster_scan :: "candidate list \<Rightarrow> f64 \<Rightarrow> nat \<times> f64 \<times> f64 \<times> f64" where
  "cluster_scan survivors now =
     foldl (scan_step survivors now) (0, Inf True, fzero, Inf False) (enumerate 0 survivors)"

definition remove_at :: "nat \<Rightarrow> 'a list \<Rightarrow> 'a list" where
  "remove_at i xs = take i xs @ drop (Suc i) xs"

lemma scan_index:
  "fst a < n \<Longrightarrow> list_all (\<lambda>(i, c). i < n) ps \<Longrightarrow> fst (foldl (scan_step cs now) a ps) < n"
proof (induction ps arbitrary: a)
  case (Cons p ps)
  have "fst (scan_step cs now a p) < n"
    using Cons.prems by (cases a; cases p) (auto simp: Let_def)
  then show ?case using Cons by simp
qed simp

lemma cluster_scan_index: "cs \<noteq> [] \<Longrightarrow> fst (cluster_scan cs now) < length cs"
  unfolding cluster_scan_def by (rule scan_index) (auto simp: list_all_iff in_set_enumerate_eq)

lemma length_remove_at: "i < length xs \<Longrightarrow> length (remove_at i xs) = length xs - 1"
  by (simp add: remove_at_def)

function cluster :: "candidate list \<Rightarrow> f64 \<Rightarrow> candidate list" where
  "cluster survivors now =
     (if MIN_SURVIVORS < length survivors then
        (case cluster_scan survivors now of (worst, weighted, jitter, peer) \<Rightarrow>
         if flt jitter peer then survivors
         else if c_prefer (survivors ! worst) then survivors
         else cluster (remove_at worst survivors) now)
      else survivors)"
  by pat_completeness auto
termination
proof (relation "measure (\<lambda>(survivors, now). length survivors)")
  fix survivors :: "candidate list" and now worst weighted jitter peer rest rest'
  assume a: "MIN_SURVIVORS < length survivors"
    "(worst, rest) = cluster_scan survivors now" "(weighted, rest') = rest" "(jitter, peer) = rest'"
  then have "fst (cluster_scan survivors now) < length survivors"
    by (intro cluster_scan_index) auto
  then have "worst < length survivors" using a(2) by (metis fst_conv)
  then show "((remove_at worst survivors, now), (survivors, now))
      \<in> measure (\<lambda>(survivors, now). length survivors)"
    by (simp add: length_remove_at)
qed simp

declare cluster.simps [simp del]

definition combine :: "candidate list \<Rightarrow> f64 \<Rightarrow> f64 \<times> f64" where
  "combine survivors now =
     (let (weight_sum, offset_sum) = foldl (\<lambda>(w, s) c.
            let distance = fmax (c_distance c now) (lit (1 / 1000000000))
            in (fadd w (fdiv (lit 1) distance), fadd s (fdiv (c_offset c) distance)))
            (fzero, fzero) survivors;
          offset = (if flt fzero weight_sum then fdiv offset_sum weight_sum else fzero);
          head = c_offset (survivors ! 0);
          spread = f_sum (map (\<lambda>c. f_sq (fsub (c_offset c) head)) survivors);
          n = length survivors;
          selection_jitter = (if 1 < n then fsqrt (fdiv spread (f_of_int (int n - 1))) else fzero);
          jitter = fsqrt (fadd (f_sq selection_jitter) (f_sq (f_jitter (c_filtered (survivors ! 0)))))
      in (offset, jitter))"

definition inside :: "f64 \<Rightarrow> f64 \<Rightarrow> candidate \<Rightarrow> bool" where
  "inside low high c \<longleftrightarrow> fle low (c_offset c) \<and> fle (c_offset c) high"

definition best_first :: "candidate list \<Rightarrow> f64 \<Rightarrow> candidate list" where
  "best_first cs now = sort_key (\<lambda>c. (\<not> c_prefer c, c_metric c now)) cs"

definition select_sources :: "candidate list \<Rightarrow> f64 \<Rightarrow> no_selection + selection" where
  "select_sources candidates now =
     (let fit = filter (\<lambda>c. is_fit c now) candidates in
      if fit = [] then Inl NoCandidates
      else case intersection fit now of
        None \<Rightarrow> Inl NoMajority
      | Some (low, high) \<Rightarrow>
          let survivors = filter (inside low high) fit;
              falsetickers = map c_id (filter (\<lambda>c. \<not> inside low high c) fit)
          in if survivors = [] then Inl NoMajority
             else
               let survivors = best_first (cluster survivors now) now;
                   (offset, jitter) = combine survivors now
               in Inr \<lparr>sel_offset = offset, sel_jitter = jitter,
                       sel_system_peer = c_id (survivors ! 0),
                       sel_survivors = map c_id survivors, sel_falsetickers = falsetickers\<rparr>)"

section \<open>The sweeps\<close>

definition mids :: "endpoint list \<Rightarrow> nat" where
  "mids ps = length (filter (\<lambda>p. kind p = 0) ps)"

definition kinds :: "endpoint list \<Rightarrow> int" where
  "kinds ps = sum_list (map kind ps)"

lemma mids_simps [simp]: "mids [] = 0" "mids (p # ps) = (if kind p = 0 then 1 else 0) + mids ps"
    "mids (ps @ qs) = mids ps + mids qs"
  by (simp_all add: mids_def)

lemma kinds_simps [simp]: "kinds [] = 0" "kinds (p # ps) = kind p + kinds ps"
    "kinds (ps @ qs) = kinds ps + kinds qs" "kinds (rev ps) = kinds ps"
  by (simp_all add: kinds_def rev_map [symmetric])

lemma sweep_SomeD:
  "sweep dir need chime found ps = (found', Some e) \<Longrightarrow>
   \<exists>pre p post. ps = pre @ p # post \<and> edge p = e \<and> found' = found + mids pre
     \<and> need \<le> chime + dir * kinds (pre @ [p])"
proof (induction ps arbitrary: chime found)
  case (Cons q ps)
  show ?case
  proof (cases "need \<le> chime + dir * kind q")
    case True
    with Cons.prems show ?thesis by (intro exI [of _ "[]"] exI [of _ q] exI [of _ ps]) (simp add: Let_def)
  next
    case False
    with Cons.prems have "sweep dir need (chime + dir * kind q) (if kind q = 0 then found + 1 else found) ps
        = (found', Some e)" by (simp add: Let_def)
    from Cons.IH [OF this] obtain pre p post where
      "ps = pre @ p # post" "edge p = e" "found' = (if kind q = 0 then found + 1 else found) + mids pre"
      "need \<le> chime + dir * kind q + dir * kinds (pre @ [p])" by blast
    then show ?thesis
      by (intro exI [of _ "q # pre"] exI [of _ p] exI [of _ post]) (auto simp: algebra_simps)
  qed
qed simp

lemma sweep_first:
  "ps = pre @ p # post \<Longrightarrow> need \<le> chime + dir * kinds (pre @ [p]) \<Longrightarrow>
   sweep dir need chime found ps = (found', r) \<Longrightarrow> \<exists>q\<in>set (pre @ [p]). r = Some (edge q)"
proof (induction ps arbitrary: pre chime found)
  case (Cons q ps)
  show ?case
  proof (cases "need \<le> chime + dir * kind q")
    case True
    with Cons.prems show ?thesis by (cases pre) (auto simp: Let_def)
  next
    case False
    then obtain pre' where pre: "pre = q # pre'" using Cons.prems by (cases pre) auto
    have "\<exists>x\<in>set (pre' @ [p]). r = Some (edge x)"
      using Cons.prems False pre by (intro Cons.IH [of pre']) (auto simp: Let_def algebra_simps)
    then show ?thesis using pre by auto
  qed
qed simp

lemma intersect_from_SomeD:
  "intersect_from P m a = Some (l, h) \<Longrightarrow>
   \<exists>b f1 f2. 2 * b < m \<and> sweep (- 1) (int (m - b)) 0 0 P = (f1, Some l)
     \<and> sweep 1 (int (m - b)) 0 f1 (rev P) = (f2, Some h) \<and> f2 \<le> b \<and> flt l h"
proof (induction "m - a" arbitrary: a rule: less_induct)
  case less
  obtain f1 lo where s1: "sweep (- 1) (int (m - a)) 0 0 P = (f1, lo)" by (cases "sweep (- 1) (int (m - a)) 0 0 P")
  obtain f2 hi where s2: "sweep 1 (int (m - a)) 0 f1 (rev P) = (f2, hi)"
    by (cases "sweep 1 (int (m - a)) 0 f1 (rev P)")
  have m: "2 * a < m" using less.prems by (subst (asm) intersect_from.simps) (auto split: if_splits)
  show ?case
  proof (cases "\<not> a < f2 \<and> (\<exists>l' h'. lo = Some l' \<and> hi = Some h' \<and> flt l' h')")
    case True
    then have "lo = Some l" "hi = Some h" "flt l h" "f2 \<le> a"
      using less.prems m s1 s2 by (subst (asm) intersect_from.simps; auto)+
    with m s1 s2 show ?thesis by blast
  next
    case False
    then have "intersect_from P m (a + 1) = Some (l, h)"
      using less.prems m s1 s2
      by (subst (asm) intersect_from.simps) (auto split: if_splits option.splits)
    with less.hyps [of "a + 1"] m show ?thesis by simp
  qed
qed

section \<open>The sorted endpoints\<close>

definition lo_edge :: "f64 \<Rightarrow> candidate \<Rightarrow> f64" where
  "lo_edge now c = fsub (c_offset c) (c_distance c now)"

definition hi_edge :: "f64 \<Rightarrow> candidate \<Rightarrow> f64" where
  "hi_edge now c = fadd (c_offset c) (c_distance c now)"

lemma endpoints_eq:
  "endpoints_of now c = [\<lparr>edge = lo_edge now c, kind = - 1\<rparr>, \<lparr>edge = c_offset c, kind = 0\<rparr>,
     \<lparr>edge = hi_edge now c, kind = 1\<rparr>]"
  by (simp add: endpoints_of_def lo_edge_def hi_edge_def Let_def)

definition count_points :: "(endpoint \<Rightarrow> bool) \<Rightarrow> endpoint list \<Rightarrow> nat" where
  "count_points Q ps = length (filter Q ps)"

lemma count_sorted: "count_points Q (sorted_points fit now) = count_points Q (concat (map (endpoints_of now) fit))"
proof -
  have "mset (sorted_points fit now) = mset (concat (map (endpoints_of now) fit))"
    by (simp add: sorted_points_def)
  then have "size (filter_mset Q (mset (sorted_points fit now)))
      = size (filter_mset Q (mset (concat (map (endpoints_of now) fit))))" by (simp only:)
  then show ?thesis by (simp only: count_points_def mset_filter [symmetric] size_mset)
qed

lemma count_kinds:
  "count_points (\<lambda>p. kind p = - 1 \<and> R (edge p)) (sorted_points fit now) = length (filter (\<lambda>c. R (lo_edge now c)) fit)"
  "count_points (\<lambda>p. kind p = 0 \<and> R (edge p)) (sorted_points fit now) = length (filter (\<lambda>c. R (c_offset c)) fit)"
  "count_points (\<lambda>p. kind p = 1 \<and> R (edge p)) (sorted_points fit now) = length (filter (\<lambda>c. R (hi_edge now c)) fit)"
  unfolding count_sorted by (induction fit; simp add: count_points_def endpoints_eq)+

lemma count_append [simp]: "count_points Q (xs @ ys) = count_points Q xs + count_points Q ys"
  by (simp add: count_points_def)

lemma count_all: "(\<And>x. x \<in> set xs \<Longrightarrow> Q x \<Longrightarrow> Q' x) \<Longrightarrow> count_points Q xs \<le> count_points Q' xs"
  unfolding count_points_def by (induction xs) auto

lemma count_zero: "(\<And>x. x \<in> set xs \<Longrightarrow> \<not> Q x) \<Longrightarrow> count_points Q xs = 0"
  unfolding count_points_def by (simp add: filter_empty_conv)

lemma point_kinds: "p \<in> set (sorted_points fit now) \<Longrightarrow> kind p \<in> {- 1, 0, 1}"
  by (auto simp: sorted_points_def endpoints_eq)

lemma kinds_count:
  "(\<And>p. p \<in> set ps \<Longrightarrow> kind p \<in> {- 1, 0, 1}) \<Longrightarrow>
   kinds ps = int (count_points (\<lambda>p. kind p = 1) ps) - int (count_points (\<lambda>p. kind p = - 1) ps)"
proof (induction ps)
  case (Cons p ps)
  then have "kind p = - 1 \<or> kind p = 0 \<or> kind p = 1" by auto
  with Cons show ?case by (auto simp: count_points_def)
qed (simp add: count_points_def)

lemma points_split:
  assumes "sorted_points fit now = pre @ p # post"
  shows "q \<in> set pre \<Longrightarrow> edge q \<le> edge p" "q \<in> set post \<Longrightarrow> edge p \<le> edge q"
    "q \<in> set pre \<Longrightarrow> edge q = edge p \<Longrightarrow> kind q \<le> kind p"
    "q \<in> set post \<Longrightarrow> edge q = edge p \<Longrightarrow> kind p \<le> kind q"
proof -
  have "sorted (map (\<lambda>p. (edge p, kind p)) (sorted_points fit now))"
    unfolding sorted_points_def by simp
  then have s: "\<forall>q\<in>set pre. (edge q, kind q) \<le> (edge p, kind p)" "\<forall>q\<in>set post. (edge p, kind p) \<le> (edge q, kind q)"
    unfolding assms by (auto simp: sorted_append simp del: less_eq_prod_simp)
  then show "q \<in> set pre \<Longrightarrow> edge q \<le> edge p" "q \<in> set post \<Longrightarrow> edge p \<le> edge q"
    "q \<in> set pre \<Longrightarrow> edge q = edge p \<Longrightarrow> kind q \<le> kind p"
    "q \<in> set post \<Longrightarrow> edge q = edge p \<Longrightarrow> kind p \<le> kind q"
    by (auto simp: less_eq_prod_def)
qed

section \<open>What the intersection guarantees\<close>

lemma intersection_SomeD:
  assumes "intersection fit now = Some (l, h)"
  obtains b pre p post pre' p' post'
  where "2 * b < length fit" "flt l h" "mids pre + mids post' \<le> b"
    and "sorted_points fit now = pre @ p # post" "edge p = l"
    and "int (length fit - b) \<le> - kinds (pre @ [p])"
    and "sorted_points fit now = pre' @ p' # post'" "edge p' = h"
    and "int (length fit - b) \<le> kinds (p' # post')"
proof -
  obtain b f1 f2 where b: "2 * b < length fit" "f2 \<le> b" "flt l h"
    and s1: "sweep (- 1) (int (length fit - b)) 0 0 (sorted_points fit now) = (f1, Some l)"
    and s2: "sweep 1 (int (length fit - b)) 0 f1 (rev (sorted_points fit now)) = (f2, Some h)"
    using intersect_from_SomeD assms unfolding intersection_def by blast
  obtain pre p post where low: "sorted_points fit now = pre @ p # post" "edge p = l" "f1 = mids pre"
      "int (length fit - b) \<le> - kinds (pre @ [p])"
    using sweep_SomeD [OF s1] by auto
  obtain q p' r where high: "rev (sorted_points fit now) = q @ p' # r" "edge p' = h" "f2 = f1 + mids q"
      "int (length fit - b) \<le> kinds (q @ [p'])"
    using sweep_SomeD [OF s2] by auto
  have "sorted_points fit now = rev r @ p' # rev q"
    using arg_cong [OF high(1), of rev] by simp
  moreover have "mids (rev q) = mids q" by (simp add: mids_def rev_filter [symmetric])
  ultimately show ?thesis
    using that [of b pre "rev q" p post "rev r" p'] b low high by simp
qed

lemma midpoints_outside:
  assumes "intersection fit now = Some (l, h)"
    and "\<forall>c\<in>set fit. is_finite (c_offset c)"
  shows "2 * length (filter (\<lambda>c. \<not> inside l h c) fit) < length fit"
proof -
  obtain b pre p post pre' p' post' where b: "2 * b < length fit" "flt l h" "mids pre + mids post' \<le> b"
    and low: "sorted_points fit now = pre @ p # post" "edge p = l"
    and high: "sorted_points fit now = pre' @ p' # post'" "edge p' = h"
    using intersection_SomeD [OF assms(1)] by metis
  have nan: "\<not> is_nan l" "\<not> is_nan h" using b(2) by (auto simp: flt_def)
  have "length (filter (\<lambda>c. c_offset c < l) fit) = count_points (\<lambda>p. kind p = 0 \<and> edge p < l) (pre @ p # post)"
    using count_kinds(2) [of "\<lambda>e. e < l" fit now] by (simp only: low(1))
  also have "\<dots> = count_points (\<lambda>p. kind p = 0 \<and> edge p < l) pre"
    using count_zero [of "p # post" "\<lambda>p. kind p = 0 \<and> edge p < l"] points_split(2) [OF low(1)] low(2)
    by (auto simp: not_less)
  also have "\<dots> \<le> mids pre"
    unfolding mids_def count_points_def [symmetric] by (rule count_all) simp
  finally have below: "length (filter (\<lambda>c. c_offset c < l) fit) \<le> mids pre" .
  have "length (filter (\<lambda>c. h < c_offset c) fit) = count_points (\<lambda>p. kind p = 0 \<and> h < edge p) (pre' @ p' # post')"
    using count_kinds(2) [of "\<lambda>e. h < e" fit now] by (simp only: high(1))
  also have "\<dots> = count_points (\<lambda>p. kind p = 0 \<and> h < edge p) post'"
    using count_zero [of "pre' @ [p']" "\<lambda>p. kind p = 0 \<and> h < edge p"] points_split(1) [OF high(1)] high(2)
    by (auto simp: not_less count_points_def)
  also have "\<dots> \<le> mids post'"
    unfolding mids_def count_points_def [symmetric] by (rule count_all) simp
  finally have above: "length (filter (\<lambda>c. h < c_offset c) fit) \<le> mids post'" .
  have out: "c_offset c < l \<or> h < c_offset c" if "c \<in> set fit" "\<not> inside l h c" for c
  proof -
    have "\<not> is_nan (c_offset c)" using assms(2) that by auto
    then show ?thesis
      using that(2) nan not_fle [of l "c_offset c"] not_fle [of "c_offset c" h] less_of_flt
      by (auto simp: inside_def)
  qed
  have "length (filter (\<lambda>c. \<not> inside l h c) fit)
      \<le> length (filter (\<lambda>c. c_offset c < l) fit) + length (filter (\<lambda>c. h < c_offset c) fit)"
    using out by (induction fit) auto
  then show ?thesis using below above b by linarith
qed

text \<open>A fit candidate's interval: finite edges with the lower one first.\<close>

definition candidate_ok :: "f64 \<Rightarrow> candidate \<Rightarrow> bool" where
  "candidate_ok now c \<longleftrightarrow> is_finite (c_offset c) \<and> is_finite (c_distance c now) \<and> 0 < val (c_distance c now)"

lemma fround_le_total: "v < w \<Longrightarrow> fround z v \<le> fround z' w"
proof -
  assume "v < w"
  then consider "v < 0" "0 \<le> w" | "0 \<le> v" "0 < w" | "v < 0" "w < 0" by linarith
  then show ?thesis
  proof cases
    case 1
    have "\<not> 0 < - round_mag (- v)" "0 \<le> round_mag w" "- round_mag (- v) \<le> round_mag w"
      using round_mag_nonneg [of "- v"] round_mag_nonneg [of w] by linarith+
    with 1 show ?thesis
      using round_mag_nonneg [of "- v"]
      by (cases "w = 0"; cases z') (auto simp: fround_def rnd_def Let_def less_eq_f64_def)
  next
    case 2
    then have "round_mag v \<le> round_mag w" "0 \<le> round_mag w" using \<open>v < w\<close> round_mag_mono by auto
    with 2 show ?thesis
      by (cases "v = 0"; cases z) (auto simp: fround_def rnd_def Let_def less_eq_f64_def)
  next
    case 3
    then have "round_mag (- w) \<le> round_mag (- v)" using \<open>v < w\<close> round_mag_mono by auto
    with 3 show ?thesis by (auto simp: fround_def rnd_def Let_def less_eq_f64_def)
  qed
qed

lemma edges_ordered: "candidate_ok now c \<Longrightarrow> lo_edge now c \<le> hi_edge now c"
  using fsub_fin [of "c_offset c" "c_distance c now"] fadd_fin [of "c_offset c" "c_distance c now"]
  by (auto simp: candidate_ok_def lo_edge_def hi_edge_def intro!: fround_le_total)

lemma edges_not_nan: "candidate_ok now c \<Longrightarrow> \<not> is_nan (lo_edge now c) \<and> \<not> is_nan (hi_edge now c)"
  using fsub_fin [of "c_offset c" "c_distance c now"] fadd_fin [of "c_offset c" "c_distance c now"]
  by (auto simp: candidate_ok_def lo_edge_def hi_edge_def)

text \<open>The intervals that contain a point.\<close>

definition spans :: "f64 \<Rightarrow> f64 \<Rightarrow> candidate \<Rightarrow> bool" where
  "spans now e c \<longleftrightarrow> fle (lo_edge now c) e \<and> fle e (hi_edge now c)"

lemma span_count:
  assumes ok: "\<forall>c\<in>set fit. candidate_ok now c" and e: "\<not> is_nan e"
    and n: "int n \<le> int (length (filter (\<lambda>c. lo_edge now c \<le> e) fit)) - int (length (filter (\<lambda>c. hi_edge now c < e) fit))"
  shows "n \<le> length (filter (spans now e) fit)"
proof -
  have "length (filter (\<lambda>c. lo_edge now c \<le> e) fit)
      \<le> length (filter (spans now e) fit) + length (filter (\<lambda>c. hi_edge now c < e) fit)"
    using ok
  proof (induction fit)
    case (Cons c fit)
    then have "spans now e c \<or> hi_edge now c < e" if "lo_edge now c \<le> e"
      using that edges_not_nan [of now c] e by (auto simp: spans_def fle_of_le not_less)
    with Cons show ?case by auto
  qed simp
  with n show ?thesis by linarith
qed

lemma low_is_spanned:
  assumes ok: "\<forall>c\<in>set fit. candidate_ok now c" and P: "sorted_points fit now = pre @ p # post"
    and n: "int n \<le> - kinds (pre @ [p])" and nan: "\<not> is_nan (edge p)"
  shows "n \<le> length (filter (spans now (edge p)) fit)"
proof (rule span_count [OF ok nan])
  have k: "kind q \<in> {- 1, 0, 1}" if "q \<in> set (pre @ [p])" for q
    using that point_kinds [of q fit now] unfolding P by auto
  have "count_points (\<lambda>q. kind q = - 1) (pre @ [p]) \<le> count_points (\<lambda>q. kind q = - 1 \<and> edge q \<le> edge p) (pre @ [p])"
    using points_split(1) [OF P] by (intro count_all) auto
  also have "\<dots> \<le> count_points (\<lambda>q. kind q = - 1 \<and> edge q \<le> edge p) (sorted_points fit now)"
    unfolding P by (simp add: count_points_def)
  finally have lo: "count_points (\<lambda>q. kind q = - 1) (pre @ [p]) \<le> length (filter (\<lambda>c. lo_edge now c \<le> edge p) fit)"
    using count_kinds(1) [of "\<lambda>x. x \<le> edge p" fit now] by simp
  have "length (filter (\<lambda>c. hi_edge now c < edge p) fit)
      = count_points (\<lambda>q. kind q = 1 \<and> edge q < edge p) (pre @ p # post)"
    using count_kinds(3) [of "\<lambda>x. x < edge p" fit now] by (simp only: P)
  also have "\<dots> = count_points (\<lambda>q. kind q = 1 \<and> edge q < edge p) pre"
    using count_zero [of "p # post" "\<lambda>q. kind q = 1 \<and> edge q < edge p"] points_split(2) [OF P]
    by (auto simp: not_less)
  also have "\<dots> \<le> count_points (\<lambda>q. kind q = 1) (pre @ [p])"
    using count_all [of pre "\<lambda>q. kind q = 1 \<and> edge q < edge p" "\<lambda>q. kind q = 1"] by simp
  finally have hi: "length (filter (\<lambda>c. hi_edge now c < edge p) fit) \<le> count_points (\<lambda>q. kind q = 1) (pre @ [p])" .
  show "int n \<le> int (length (filter (\<lambda>c. lo_edge now c \<le> edge p) fit))
      - int (length (filter (\<lambda>c. hi_edge now c < edge p) fit))"
    using n lo hi kinds_count [of "pre @ [p]", OF k] by simp
qed

lemma high_is_spanned:
  assumes ok: "\<forall>c\<in>set fit. candidate_ok now c" and P: "sorted_points fit now = pre @ p # post"
    and n: "int n \<le> kinds (p # post)" and nan: "\<not> is_nan (edge p)"
  shows "n \<le> length (filter (spans now (edge p)) fit)"
proof -
  have k: "kind q \<in> {- 1, 0, 1}" if "q \<in> set (p # post)" for q
    using that point_kinds [of q fit now] unfolding P by auto
  have "count_points (\<lambda>q. kind q = 1) (p # post) \<le> count_points (\<lambda>q. kind q = 1 \<and> edge p \<le> edge q) (p # post)"
    using points_split(2) [OF P] by (intro count_all) auto
  also have "\<dots> \<le> count_points (\<lambda>q. kind q = 1 \<and> edge p \<le> edge q) (sorted_points fit now)"
    unfolding P by (simp add: count_points_def)
  finally have hi: "count_points (\<lambda>q. kind q = 1) (p # post) \<le> length (filter (\<lambda>c. edge p \<le> hi_edge now c) fit)"
    using count_kinds(3) [of "\<lambda>x. edge p \<le> x" fit now] by simp
  have "length (filter (\<lambda>c. edge p < lo_edge now c) fit)
      = count_points (\<lambda>q. kind q = - 1 \<and> edge p < edge q) ((pre @ [p]) @ post)"
    using count_kinds(1) [of "\<lambda>x. edge p < x" fit now] by (simp only: P append_assoc append_Cons append_Nil)
  also have "\<dots> = count_points (\<lambda>q. kind q = - 1 \<and> edge p < edge q) post"
    using count_zero [of "pre @ [p]" "\<lambda>q. kind q = - 1 \<and> edge p < edge q"] points_split(1) [OF P]
    by (subst count_append) (auto simp: not_less)
  also have "\<dots> \<le> count_points (\<lambda>q. kind q = - 1) (p # post)"
    using count_all [of post "\<lambda>q. kind q = - 1 \<and> edge p < edge q" "\<lambda>q. kind q = - 1"]
    by (simp add: count_points_def)
  finally have lo: "length (filter (\<lambda>c. edge p < lo_edge now c) fit) \<le> count_points (\<lambda>q. kind q = - 1) (p # post)" .
  have "length (filter (\<lambda>c. edge p \<le> hi_edge now c) fit)
      \<le> length (filter (spans now (edge p)) fit) + length (filter (\<lambda>c. edge p < lo_edge now c) fit)"
    using ok
  proof (induction fit)
    case (Cons c fit)
    then have "spans now (edge p) c \<or> edge p < lo_edge now c" if "edge p \<le> hi_edge now c"
      using that edges_not_nan [of now c] nan by (auto simp: spans_def fle_of_le not_less)
    with Cons show ?case by auto
  qed simp
  then show ?thesis using n lo hi kinds_count [of "p # post", OF k] by linarith
qed

lemma intersection_agreement:
  assumes "intersection fit now = Some (l, h)" and ok: "\<forall>c\<in>set fit. candidate_ok now c"
  shows "length fit < 2 * length (filter (spans now l) fit)" "length fit < 2 * length (filter (spans now h) fit)"
    "flt l h"
proof -
  obtain b pre p post pre' p' post' where b: "2 * b < length fit" "flt l h"
    and low: "sorted_points fit now = pre @ p # post" "edge p = l" "int (length fit - b) \<le> - kinds (pre @ [p])"
    and high: "sorted_points fit now = pre' @ p' # post'" "edge p' = h" "int (length fit - b) \<le> kinds (p' # post')"
    using intersection_SomeD [OF assms(1)] by metis
  have nan: "\<not> is_nan l" "\<not> is_nan h" using b(2) by (auto simp: flt_def)
  show "flt l h" by fact
  show "length fit < 2 * length (filter (spans now l) fit)"
    using low_is_spanned [OF ok low(1,3)] nan b low(2) by simp
  show "length fit < 2 * length (filter (spans now h) fit)"
    using high_is_spanned [OF ok high(1,3)] nan b high(2) by simp
qed

section \<open>Honest sources\<close>

lemma count_pos_split:
  assumes "count_points Q xs \<noteq> 0"
  obtains pre p post where "xs = pre @ p # post" "Q p" "count_points Q pre = 0"
  using assms split_list_first_prop [of xs Q] that
  by (auto simp: count_points_def filter_empty_conv)

lemma honest_low:
  assumes ok: "\<forall>c\<in>set fit. candidate_ok now c"
    and honest: "\<forall>c\<in>set fit. val (lo_edge now c) < t \<and> t < val (hi_edge now c)
       \<and> is_finite (lo_edge now c) \<and> is_finite (hi_edge now c)"
    and s: "sweep (- 1) (int (length fit - b)) 0 0 (sorted_points fit now) = (f1, Some l)"
    and nan: "\<not> is_nan l" and ne: "fit \<noteq> []"
  shows "l = Inf True \<or> (is_finite l \<and> val l < t)"
proof -
  let ?P = "sorted_points fit now"
  have all: "count_points (\<lambda>q. kind q = - 1) ?P = length fit"
    using count_kinds(1) [of "\<lambda>_. True" fit now] by simp
  then have "count_points (\<lambda>q. kind q = - 1) (rev ?P) \<noteq> 0"
    using ne by (simp add: count_points_def rev_filter [symmetric])
  then obtain post p pre where r: "rev ?P = post @ p # pre" "kind p = - 1" "count_points (\<lambda>q. kind q = - 1) post = 0"
    by (rule count_pos_split)
  have "rev (rev ?P) = rev (post @ p # pre)" by (simp only: r(1))
  then have P: "?P = rev pre @ p # rev post" by simp
  have post0: "count_points (\<lambda>q. kind q = - 1) (rev post) = 0"
    using r(3) by (simp add: count_points_def rev_filter [symmetric])
  have mem: "q \<in> set (concat (map (endpoints_of now) fit))" if "q \<in> set ?P" for q
    using that by (simp add: sorted_points_def)
  obtain c where c: "c \<in> set fit" "p = \<lparr>edge = lo_edge now c, kind = - 1\<rparr>"
    using mem [of p] r(2) by (auto simp: P endpoints_eq)
  have fin: "is_finite (edge p)" "val (edge p) < t" using c honest by auto
  have no_upper: "kind q \<noteq> 1" if q: "q \<in> set (rev pre)" for q
  proof
    assume k: "kind q = 1"
    obtain d where d: "d \<in> set fit" "q = \<lparr>edge = hi_edge now d, kind = 1\<rparr>"
      using mem [of q] q k by (auto simp: P endpoints_eq)
    have "edge q \<le> edge p" using points_split(1) [OF P q] .
    moreover have "is_finite (edge q)" "t < val (edge q)" using d honest by auto
    ultimately show False using fin fle_of_le [of "edge q" "edge p"] by (simp add: fle_val)
  qed
  have k: "kind q \<in> {- 1, 0, 1}" if "q \<in> set (rev pre @ [p])" for q
    using that point_kinds [of q fit now] unfolding P by auto
  have "count_points (\<lambda>q. kind q = 1) (rev pre @ [p]) = 0"
    using no_upper r(2) by (intro count_zero) auto
  moreover have "count_points (\<lambda>q. kind q = - 1) (rev pre @ [p]) = length fit"
    using all post0 unfolding P by (simp add: count_points_def split: if_splits)
  ultimately have "int (length fit - b) \<le> 0 + - 1 * kinds (rev pre @ [p])"
    using kinds_count [of "rev pre @ [p]", OF k] by simp
  from sweep_first [OF P this s] obtain q where q: "q \<in> set (rev pre @ [p])" "l = edge q" by auto
  have "edge q \<le> edge p" using q(1) points_split(1) [OF P] by auto
  then have "fle l (edge p)" using q(2) nan fin fle_of_le by simp
  then show ?thesis using fin by (cases l; cases "edge p") (auto simp: fle_def split: if_splits)
qed

lemma honest_high:
  assumes ok: "\<forall>c\<in>set fit. candidate_ok now c"
    and honest: "\<forall>c\<in>set fit. val (lo_edge now c) < t \<and> t < val (hi_edge now c)
       \<and> is_finite (lo_edge now c) \<and> is_finite (hi_edge now c)"
    and s: "sweep 1 (int (length fit - b)) 0 f1 (rev (sorted_points fit now)) = (f2, Some h)"
    and nan: "\<not> is_nan h" and ne: "fit \<noteq> []"
  shows "h = Inf False \<or> (is_finite h \<and> t < val h)"
proof -
  let ?P = "sorted_points fit now"
  have all: "count_points (\<lambda>q. kind q = 1) ?P = length fit"
    using count_kinds(3) [of "\<lambda>_. True" fit now] by simp
  then have "count_points (\<lambda>q. kind q = 1) ?P \<noteq> 0" using ne by simp
  then obtain pre p post where P: "?P = pre @ p # post" "kind p = 1" "count_points (\<lambda>q. kind q = 1) pre = 0"
    by (rule count_pos_split)
  have mem: "q \<in> set (concat (map (endpoints_of now) fit))" if "q \<in> set ?P" for q
    using that by (simp add: sorted_points_def)
  obtain c where c: "c \<in> set fit" "p = \<lparr>edge = hi_edge now c, kind = 1\<rparr>"
    using mem [of p] P(1,2) by (auto simp: endpoints_eq)
  have fin: "is_finite (edge p)" "t < val (edge p)" using c honest by auto
  have no_lower: "kind q \<noteq> - 1" if q: "q \<in> set post" for q
  proof
    assume k: "kind q = - 1"
    obtain d where d: "d \<in> set fit" "q = \<lparr>edge = lo_edge now d, kind = - 1\<rparr>"
      using mem [of q] q k P(1) by (auto simp: endpoints_eq)
    have "edge p \<le> edge q" using points_split(2) [OF P(1) q] .
    moreover have "is_finite (edge q)" "val (edge q) < t" using d honest by auto
    ultimately show False using fin fle_of_le [of "edge p" "edge q"] by (simp add: fle_val)
  qed
  have R: "rev ?P = rev post @ p # rev pre" unfolding P(1) by simp
  have k: "kind q \<in> {- 1, 0, 1}" if "q \<in> set (rev post @ [p])" for q
    using that point_kinds [of q fit now] unfolding P(1) by auto
  have "count_points (\<lambda>q. kind q = - 1) (rev post @ [p]) = 0"
    using no_lower P(2) by (intro count_zero) auto
  moreover have "count_points (\<lambda>q. kind q = 1) (rev post @ [p]) = length fit"
    using all P(3) unfolding P(1) by (simp add: count_points_def rev_filter [symmetric] split: if_splits)
  ultimately have "int (length fit - b) \<le> 0 + 1 * kinds (rev post @ [p])"
    using kinds_count [of "rev post @ [p]", OF k] by simp
  from sweep_first [OF R this s] obtain q where q: "q \<in> set (rev post @ [p])" "h = edge q" by auto
  have "edge p \<le> edge q" using q(1) points_split(2) [OF P(1)] by auto
  then have "fle (edge p) h" using q(2) nan fin fle_of_le by simp
  then show ?thesis using fin by (cases h; cases "edge p") (auto simp: fle_def split: if_splits)
qed

lemma honest_sources_agree:
  assumes "intersection fit now = Some (l, h)" and ok: "\<forall>c\<in>set fit. candidate_ok now c"
    and honest: "\<forall>c\<in>set fit. val (lo_edge now c) < t \<and> t < val (hi_edge now c)
       \<and> is_finite (lo_edge now c) \<and> is_finite (hi_edge now c)"
  shows "is_finite l \<longrightarrow> val l < t" "is_finite h \<longrightarrow> t < val h"
proof -
  obtain b f1 f2 where b: "2 * b < length fit" "flt l h"
    and s1: "sweep (- 1) (int (length fit - b)) 0 0 (sorted_points fit now) = (f1, Some l)"
    and s2: "sweep 1 (int (length fit - b)) 0 f1 (rev (sorted_points fit now)) = (f2, Some h)"
    using intersect_from_SomeD assms(1) unfolding intersection_def by blast
  have nan: "\<not> is_nan l" "\<not> is_nan h" "fit \<noteq> []" using b by (auto simp: flt_def)
  show "is_finite l \<longrightarrow> val l < t" using honest_low [OF ok honest s1 nan(1,3)] by auto
  show "is_finite h \<longrightarrow> t < val h" using honest_high [OF ok honest s2 nan(2,3)] by auto
qed

section \<open>Clustering\<close>

lemma set_remove_at: "set (remove_at i xs) \<subseteq> set xs"
  by (auto simp: remove_at_def dest: in_set_takeD in_set_dropD)

lemma remove_at_filter:
  "i < length xs \<Longrightarrow> \<not> P (xs ! i) \<Longrightarrow> filter P (remove_at i xs) = filter P xs"
  by (subst (2) id_take_nth_drop [of i xs]) (simp_all add: remove_at_def)

lemma cluster_facts:
  "set (cluster cs now) \<subseteq> set cs
   \<and> min MIN_SURVIVORS (length cs) \<le> length (cluster cs now)
   \<and> filter c_prefer (cluster cs now) = filter c_prefer cs
   \<and> (distinct (map c_id cs) \<longrightarrow> distinct (map c_id (cluster cs now)))"
proof (induction cs now rule: cluster.induct)
  case (1 cs now)
  obtain worst weighted jitter peer where s: "cluster_scan cs now = (worst, weighted, jitter, peer)"
    by (cases "cluster_scan cs now") auto
  show ?case
  proof (cases "MIN_SURVIVORS < length cs \<and> \<not> flt jitter peer \<and> \<not> c_prefer (cs ! worst)")
    case False
    then have "cluster cs now = cs" by (subst cluster.simps) (auto simp: s)
    then show ?thesis by simp
  next
    case True
    then have c: "cluster cs now = cluster (remove_at worst cs) now"
      by (subst cluster.simps) (simp add: s)
    have w: "worst < length cs" using cluster_scan_index [of cs now] True s by fastforce
    have ih: "set (cluster (remove_at worst cs) now) \<subseteq> set (remove_at worst cs)"
      "min MIN_SURVIVORS (length (remove_at worst cs)) \<le> length (cluster (remove_at worst cs) now)"
      "filter c_prefer (cluster (remove_at worst cs) now) = filter c_prefer (remove_at worst cs)"
      "distinct (map c_id (remove_at worst cs)) \<longrightarrow> distinct (map c_id (cluster (remove_at worst cs) now))"
      using "1.IH" True s by auto
    have "distinct (map c_id (remove_at worst cs))" if "distinct (map c_id cs)"
      using that set_take_disj_set_drop_if_distinct [OF that, of worst "Suc worst"]
      by (simp add: remove_at_def take_map drop_map)
        (metis distinct_drop distinct_take drop_map take_map)
    then show ?thesis
      using ih set_remove_at [of worst cs] w True remove_at_filter [of worst cs c_prefer]
      by (simp add: c length_remove_at) (auto simp: MIN_SURVIVORS_def)
  qed
qed

lemma best_first_facts [simp]:
  "set (best_first cs now) = set cs" "length (best_first cs now) = length cs"
  "mset (best_first cs now) = mset cs"
  by (simp_all add: best_first_def)

lemma best_first_sorted:
  "sorted (map (\<lambda>c. (\<not> c_prefer c, c_metric c now)) (best_first cs now))"
  unfolding best_first_def by simp

section \<open>The outcome\<close>

abbreviation fit_ones :: "candidate list \<Rightarrow> f64 \<Rightarrow> candidate list" where
  "fit_ones cs now \<equiv> filter (\<lambda>c. is_fit c now) cs"

lemma select_InrD:
  assumes "select_sources cs now = Inr sel"
  obtains l h cl where "intersection (fit_ones cs now) now = Some (l, h)"
    and "filter (inside l h) (fit_ones cs now) \<noteq> []"
    and "cl = best_first (cluster (filter (inside l h) (fit_ones cs now)) now) now" "cl \<noteq> []"
    and "sel_survivors sel = map c_id cl" "sel_system_peer sel = c_id (cl ! 0)"
    and "sel_falsetickers sel = map c_id (filter (\<lambda>c. \<not> inside l h c) (fit_ones cs now))"
    and "sel_offset sel = fst (combine cl now)" "sel_jitter sel = snd (combine cl now)"
proof -
  obtain l h where i: "intersection (fit_ones cs now) now = Some (l, h)"
    and ne: "filter (inside l h) (fit_ones cs now) \<noteq> []"
    using assms by (auto simp: select_sources_def Let_def split: if_splits option.splits)
  let ?cl = "best_first (cluster (filter (inside l h) (fit_ones cs now)) now) now"
  have "1 \<le> min MIN_SURVIVORS (length (filter (inside l h) (fit_ones cs now)))"
    using ne by (cases "filter (inside l h) (fit_ones cs now)") (auto simp: MIN_SURVIVORS_def)
  then have "?cl \<noteq> []"
    using cluster_facts [of "filter (inside l h) (fit_ones cs now)" now] best_first_facts(2)
    by (metis le_zero_eq length_0_conv not_one_le_zero order_trans)
  moreover have "fit_ones cs now \<noteq> []" using ne by (metis filter.simps(1))
  ultimately show ?thesis
    using assms i ne that [of l h ?cl]
    by (auto simp: select_sources_def Let_def split: prod.splits)
qed

lemma select_ids:
  assumes "select_sources cs now = Inr sel"
  shows "sel_survivors sel \<noteq> []" "sel_system_peer sel = sel_survivors sel ! 0"
    "set (sel_survivors sel) \<subseteq> c_id ` set (fit_ones cs now)"
    "set (sel_falsetickers sel) \<subseteq> c_id ` set (fit_ones cs now)"
    "distinct (map c_id cs) \<Longrightarrow> distinct (sel_survivors sel)
       \<and> set (sel_survivors sel) \<inter> set (sel_falsetickers sel) = {}"
proof -
  obtain l h cl where cl: "filter (inside l h) (fit_ones cs now) \<noteq> []"
    "cl = best_first (cluster (filter (inside l h) (fit_ones cs now)) now) now" "cl \<noteq> []"
    and sel: "sel_survivors sel = map c_id cl" "sel_system_peer sel = c_id (cl ! 0)"
    "sel_falsetickers sel = map c_id (filter (\<lambda>c. \<not> inside l h c) (fit_ones cs now))"
    using select_InrD [OF assms] by metis
  note cf = cluster_facts [of "filter (inside l h) (fit_ones cs now)" now]
  have sub: "set cl \<subseteq> set (filter (inside l h) (fit_ones cs now))" using cf cl(2) by simp
  show "sel_survivors sel \<noteq> []" "sel_system_peer sel = sel_survivors sel ! 0"
    "set (sel_survivors sel) \<subseteq> c_id ` set (fit_ones cs now)"
    "set (sel_falsetickers sel) \<subseteq> c_id ` set (fit_ones cs now)"
    using cl(3) sub by (auto simp: sel)
  assume d: "distinct (map c_id cs)"
  have "distinct (map c_id (filter (inside l h) (fit_ones cs now)))"
    using d by (simp add: distinct_map_filter)
  then have "distinct (map c_id (cluster (filter (inside l h) (fit_ones cs now)) now))" using cf by blast
  then have "distinct (map c_id cl)"
    unfolding cl(2) by (simp add: distinct_map distinct_count_atmost_1)
  moreover have "inj_on c_id (set cs)" using d by (simp add: distinct_map)
  then have "set (sel_survivors sel) \<inter> set (sel_falsetickers sel) = {}"
    using sub by (auto simp: sel dest: inj_onD)
  ultimately show "distinct (sel_survivors sel) \<and> set (sel_survivors sel) \<inter> set (sel_falsetickers sel) = {}"
    by (simp add: sel)
qed

text \<open>
  What the daemon relies on: the outcome names candidates it was given that were fit, the
  system peer among the survivors, no source both a survivor and a falseticker.
\<close>

locale selector =
  fixes pick :: "candidate list \<Rightarrow> f64 \<Rightarrow> no_selection + selection"
    and fit :: "candidate \<Rightarrow> f64 \<Rightarrow> bool"
  assumes pick_peer: "pick cs now = Inr sel \<Longrightarrow> sel_system_peer sel \<in> set (sel_survivors sel)"
    and pick_fit: "pick cs now = Inr sel \<Longrightarrow> i \<in> set (sel_survivors sel) \<union> set (sel_falsetickers sel) \<Longrightarrow>
      \<exists>c\<in>set cs. c_id c = i \<and> fit c now"
    and pick_disjoint: "pick cs now = Inr sel \<Longrightarrow> distinct (map c_id cs) \<Longrightarrow>
      set (sel_survivors sel) \<inter> set (sel_falsetickers sel) = {}"
begin

lemma peer_is_candidate:
  "pick cs now = Inr sel \<Longrightarrow> \<exists>c\<in>set cs. c_id c = sel_system_peer sel \<and> fit c now"
  using pick_peer pick_fit by blast

lemma peer_in_bounds:
  "pick cs now = Inr sel \<Longrightarrow> (\<And>c. c \<in> set cs \<Longrightarrow> c_id c < n) \<Longrightarrow>
   sel_system_peer sel < n \<and> (\<forall>i\<in>set (sel_survivors sel). i < n) \<and> (\<forall>i\<in>set (sel_falsetickers sel). i < n)"
  using pick_fit pick_peer by (metis Un_iff)

lemma peer_not_falseticker:
  "pick cs now = Inr sel \<Longrightarrow> distinct (map c_id cs) \<Longrightarrow> sel_system_peer sel \<notin> set (sel_falsetickers sel)"
  using pick_peer pick_disjoint by blast

end

interpretation sl: selector select_sources is_fit
proof unfold_locales
  fix cs now sel i
  assume a: "select_sources cs now = Inr sel"
  show "sel_system_peer sel \<in> set (sel_survivors sel)"
    using select_ids(1,2) [OF a] by simp
  show "distinct (map c_id cs) \<Longrightarrow> set (sel_survivors sel) \<inter> set (sel_falsetickers sel) = {}"
    using select_ids(5) [OF a] by blast
  assume "i \<in> set (sel_survivors sel) \<union> set (sel_falsetickers sel)"
  then show "\<exists>c\<in>set cs. c_id c = i \<and> is_fit c now" using select_ids(3,4) [OF a] by auto
qed

text \<open>Fewer than four samples: the empty slots alone exceed the distance a fit source may have.\<close>

lemma few_samples_distance:
  assumes "filter_peek cf now = Some (c_filtered c)" "list_all sample_ok (held cf)" "length (held cf) \<le> 3"
    and "fnonneg (c_root_dispersion c)"
  shows "fle (lit (31 / 16)) (c_distance c now)"
proof -
  have f: "c_filtered c = estimate_of cf now" using assms(1) by (auto simp: peek_eq split: if_splits)
  have w: "lit (31 / 16) = Fin False (31 / 16)" by (simp add: rnd_eval)
  have sums: "fadd fzero (Fin False (31 / 16)) = Fin False (31 / 16)"
    "fadd (Fin False (31 / 16)) fzero = Fin False (31 / 16)"
    by (simp add: fround_def, simp add: rnd_eval)+
  let ?a = "fdiv (fmax (fadd (c_root_delay c) (f_delay (c_filtered c))) MIN_DISPERSION) (lit 2)"
  let ?d = "f_dispersion (c_filtered c)" and ?j = "f_jitter (c_filtered c)"
  let ?g = "fmul PHI (fmax (fsub now (f_at (c_filtered c))) fzero)"
  have nn: "fnonneg ?a" "fnonneg ?g" "fnonneg ?j" "fnonneg (Fin False (31 / 16))"
    unfolding two_lit [symmetric] by (simp_all add: root_terms_nonneg f estimate_of_def Let_def jitter_nonneg)
      (simp add: fnonneg_cases)
  have "fle (Fin False (31 / 16)) ?d"
    using few_samples_dispersion [of "rank_samples cf" now] assms(2,3)
    by (simp add: f estimate_of_def Let_def w)
  then have "fle (fadd fzero (Fin False (31 / 16))) (fadd (fadd ?a (c_root_dispersion c)) ?d)"
    using nn assms(4) by (intro fadd_mono_nonneg fzero_fle fadd_nonneg) (simp_all add: fnonneg_cases)
  then have *: "fle (Fin False (31 / 16)) (fadd (fadd ?a (c_root_dispersion c)) ?d)" by (simp only: sums)
  have step: "fle (Fin False (31 / 16)) (fadd x y)" if "fle (Fin False (31 / 16)) x" "fnonneg y" for x y
  proof -
    have "fle (fadd (Fin False (31 / 16)) fzero) (fadd x y)"
      using that nn by (intro fadd_mono_nonneg fzero_fle) (simp_all add: fnonneg_cases)
    then show ?thesis by (simp only: sums)
  qed
  show ?thesis
    unfolding w c_distance_def root_distance_def by (intro step * nn)
qed

section \<open>A concrete source\<close>

definition demo :: candidate where
  "demo = \<lparr>c_id = 0, c_filtered = \<lparr>f_offset = fzero, f_delay = fzero, f_dispersion = fzero,
      f_jitter = lit (1 / 2), f_at = fzero\<rparr>, c_stratum = 1, c_root_delay = lit 1,
      c_root_dispersion = fzero, c_usable = True, c_prefer = False\<rparr>"

lemma demo_distance: "c_distance demo fzero = Fin False 1"
proof -
  have "fmax (Fin False 1) MIN_DISPERSION = Fin False 1"
    unfolding MIN_DISPERSION_def fmax_def flt_def by (simp add: rnd_eval)
  moreover have "fmul PHI fzero = fzero" by (subst phi_fin) simp
  moreover have "fadd (Fin False 1) fzero = Fin False 1" "fdiv (Fin False 1) (lit 2) = Fin False (1 / 2)"
    "fadd (Fin False (1 / 2)) fzero = Fin False (1 / 2)" "lit 1 = Fin False 1" "lit (1 / 2) = Fin False (1 / 2)"
    "fadd (Fin False (1 / 2)) (Fin False (1 / 2)) = Fin False 1" "fmax (fsub fzero fzero) fzero = fzero"
    by (simp_all add: fround_def two_lit fsub_def fmax_def flt_def) (simp_all add: rnd_eval)
  ultimately show ?thesis
    by (simp add: c_distance_def root_distance_def demo_def del: fadd.simps fdiv.simps fmul.simps)
qed

lemma demo_fit: "is_fit demo fzero"
  by (simp add: is_fit_def demo_distance MAX_STRATUM_def MAX_DISTANCE_def flt_def)
    (simp add: demo_def rnd_eval)

lemma demo_edges: "lo_edge fzero demo = Fin True 1" "hi_edge fzero demo = Fin False 1" "c_offset demo = fzero"
  by (simp_all add: lo_edge_def hi_edge_def demo_distance) (simp_all add: demo_def fsub_def fround_def rnd_eval)

lemma demo_ok: "candidate_ok fzero demo"
  by (simp add: candidate_ok_def demo_distance demo_edges)

lemma demo_intersection: "intersection [demo] fzero = Some (Fin True 1, Fin False 1)"
proof -
  have "sorted_points [demo] fzero = [\<lparr>edge = Fin True 1, kind = - 1\<rparr>, \<lparr>edge = fzero, kind = 0\<rparr>,
      \<lparr>edge = Fin False 1, kind = 1\<rparr>]"
    by (simp add: sorted_points_def endpoints_eq demo_edges less_eq_prod_def less_eq_f64_def less_f64_def)
  then show ?thesis
    unfolding intersection_def by (subst intersect_from.simps) (simp add: flt_def)
qed

lemma demo_select: "\<exists>sel. select_sources [demo] fzero = Inr sel \<and> sel_survivors sel = [0] \<and> sel_falsetickers sel = []"
proof -
  have "cluster [demo] fzero = [demo]" by (subst cluster.simps) (simp add: MIN_SURVIVORS_def)
  moreover have "inside (Fin True 1) (Fin False 1) demo" by (simp add: inside_def demo_edges fle_def)
  moreover have "c_id demo = 0" by (simp add: demo_def)
  ultimately show ?thesis
    by (simp add: select_sources_def Let_def demo_fit demo_intersection best_first_def split: prod.splits)
qed

section \<open>Properties\<close>

text \<open>
  C2: selection never acts on a minority: whenever it returns an answer, the fit sources it sets
  aside as falsetickers are fewer than half of the fit ones, and what it names is consistent:
  at least one survivor, the system peer first among them, every named source fit, and no
  source both a survivor and a falseticker.
\<close>
theorem select_majority:
  assumes "select_sources cs now = Inr sel" and "distinct (map c_id cs)"
    and "\<forall>c\<in>set cs. is_fit c now \<longrightarrow> is_finite (c_offset c)"
  shows "2 * length (sel_falsetickers sel) < length (filter (\<lambda>c. is_fit c now) cs)
    \<and> sel_system_peer sel = sel_survivors sel ! 0 \<and> sel_survivors sel \<noteq> []
    \<and> set (sel_survivors sel) \<union> set (sel_falsetickers sel) \<subseteq> c_id ` {c \<in> set cs. is_fit c now}
    \<and> set (sel_survivors sel) \<inter> set (sel_falsetickers sel) = {}"
proof -
  obtain l h where i: "intersection (fit_ones cs now) now = Some (l, h)"
    and f: "sel_falsetickers sel = map c_id (filter (\<lambda>c. \<not> inside l h c) (fit_ones cs now))"
    using select_InrD [OF assms(1)] by metis
  have "2 * length (sel_falsetickers sel) < length (fit_ones cs now)"
    unfolding f length_map using assms(3) by (intro midpoints_outside [OF i]) auto
  then show ?thesis
    using select_ids [OF assms(1)] sl.pick_disjoint [OF assms(1,2)] by auto
qed

theorem select_majority_witness:
  "\<exists>sel. select_sources [demo] fzero = Inr sel \<and> 2 * length (sel_falsetickers sel) < 1 \<and> sel_survivors sel \<noteq> []"
proof -
  obtain sel where s: "select_sources [demo] fzero = Inr sel" using demo_select by blast
  from select_majority [OF s] s show ?thesis by (auto simp: demo_fit demo_edges)
qed

text \<open>
  C13: the agreed interval is one a majority vouches for: each of its two ends lies within the
  interval \<open>offset \<plusminus> root distance\<close> of more than half of the fit sources.
\<close>
theorem intersection_is_majority_agreement:
  assumes "intersection fit now = Some (low, high)" and "\<forall>c\<in>set fit. candidate_ok now c"
  shows "flt low high \<and> length fit < 2 * length (filter (spans now low) fit)
    \<and> length fit < 2 * length (filter (spans now high) fit)"
  using intersection_agreement [OF assms] by blast

theorem intersection_is_majority_agreement_witness:
  "flt (Fin True 1) (Fin False 1) \<and> 1 < 2 * length (filter (spans fzero (Fin True 1)) [demo])"
  using intersection_is_majority_agreement [OF demo_intersection] demo_ok by simp

text \<open>
  When every fit source is honest, that is, the true offset \<open>t\<close> lies strictly inside each
  one's interval, the agreed interval contains the true offset, however many sources the
  sweep allowed for.
\<close>
theorem honest_sources_bracket_truth:
  assumes "intersection fit now = Some (low, high)" and "\<forall>c\<in>set fit. candidate_ok now c"
    and "\<forall>c\<in>set fit. is_finite (lo_edge now c) \<and> is_finite (hi_edge now c)
           \<and> val (lo_edge now c) < t \<and> t < val (hi_edge now c)"
    and "is_finite low" "is_finite high"
  shows "val low < t \<and> t < val high"
  using honest_sources_agree [OF assms(1,2)] assms(3-5) by auto

theorem honest_sources_bracket_truth_witness: "val (Fin True 1) < 1 / 4 \<and> 1 / 4 < val (Fin False 1)"
  by (rule honest_sources_bracket_truth [OF demo_intersection])
    (simp_all add: demo_ok demo_edges)

text \<open>
  Clustering only trims: it returns some of the survivors it was given, never fewer than
  three unless there were fewer to begin with, and never drops a source the operator prefers.
\<close>
theorem cluster_trims_safely:
  "set (cluster cs now) \<subseteq> set cs \<and> min 3 (length cs) \<le> length (cluster cs now)
   \<and> filter c_prefer (cluster cs now) = filter c_prefer cs"
  using cluster_facts [of cs now] by (simp add: MIN_SURVIVORS_def)

text \<open>
  A source is not believed on thin evidence: with at most three samples in its register its
  root distance exceeds the limit, so it is never fit and cannot influence the clock, whatever
  those samples say.
\<close>
theorem few_samples_never_fit:
  assumes "filter_peek cf now = Some (c_filtered c)" and "list_all sample_ok (held cf)"
    and "length (held cf) \<le> 3" and "fnonneg (c_root_dispersion c)"
  shows "\<not> is_fit c now"
proof -
  have "fle MAX_DISTANCE (lit (31 / 16))" by (simp add: MAX_DISTANCE_def fle_def rnd_eval)
  then have "fle MAX_DISTANCE (c_distance c now)"
    using few_samples_distance [OF assms] by (rule fle_trans)
  then show ?thesis
    using not_flt fle_not_nan by (auto simp: is_fit_def)
qed

theorem few_samples_never_fit_witness:
  "\<not> is_fit (demo\<lparr>c_filtered := estimate_of (fst (filter_insert filter_new
      \<lparr>s_offset = fzero, s_delay = lit 1, s_dispersion = fzero, s_at = fzero\<rparr> fzero)) fzero\<rparr>) fzero"
proof -
  let ?s = "\<lparr>s_offset = fzero, s_delay = lit 1, s_dispersion = fzero, s_at = fzero\<rparr>"
  let ?cf = "fst (filter_insert filter_new ?s fzero)"
  have held: "held ?cf = [?s]"
    using filter_inv_insert(2) [OF filter_inv_new] by (simp add: held_simps NSTAGE_def)
  have "sample_ok ?s"
    unfolding sample_ok_def MIN_DISPERSION_def by (simp add: fle_def fnonneg_cases) (simp add: rnd_eval)
  then show ?thesis
    by (intro few_samples_never_fit [of ?cf]) (simp_all add: peek_eq held demo_def fnonneg_cases)
qed

end
