(* ===== verification/Discipline.thy ===== *)
theory Discipline
  imports Sample
begin

text \<open>
  The clock discipline (\<open>timed/src/discipline.rs\<close>): the servo's state, its update on one
  combined offset, and the phase reset after a step or a suspend. The locale \<open>servo\<close> is what
  the daemon relies on when it passes an adjustment to the kernel.
\<close>

section \<open>Definitions\<close>

definition STEP_THRESHOLD :: f64 where "STEP_THRESHOLD = lit (128 / 1000)"
definition PANIC_THRESHOLD :: f64 where "PANIC_THRESHOLD = lit 1000"
definition STEPOUT :: f64 where "STEPOUT = lit 900"
definition MAX_FREQUENCY :: f64 where "MAX_FREQUENCY = lit (500 / 1000000)"
definition TIME_CONSTANT :: f64 where "TIME_CONSTANT = lit 4"
definition FLL_INTERVAL :: f64 where "FLL_INTERVAL = lit 2048"

datatype servo_state = Startup | Settling | Synchronised | Spike

datatype adjustment =
    Rate f64
  | Step f64 f64
  | Hold
  | Panic f64

record discipline =
  d_state :: servo_state
  d_frequency :: f64
  d_slew :: f64
  d_last_update :: "f64 option"
  d_last_offset :: f64
  d_spike_since :: "f64 option"
  d_jitter :: f64
  d_updates :: u64
  d_stepped :: f64

definition sane_frequency :: "f64 \<Rightarrow> f64" where
  "sane_frequency frequency =
     (if is_finite frequency then fclamp frequency (fneg MAX_FREQUENCY) MAX_FREQUENCY else fzero)"

definition discipline_new :: "f64 \<Rightarrow> discipline" where
  "discipline_new initial_frequency =
     \<lparr>d_state = Startup, d_frequency = sane_frequency initial_frequency, d_slew = fzero,
      d_last_update = None, d_last_offset = fzero, d_spike_since = None, d_jitter = fzero,
      d_updates = 0, d_stepped = fzero\<rparr>"

definition frequency_ppm :: "discipline \<Rightarrow> f64" where
  "frequency_ppm d = fmul (d_frequency d) (lit 1000000)"

definition disc_is_synchronised :: "discipline \<Rightarrow> bool" where
  "disc_is_synchronised d \<longleftrightarrow> d_state d \<in> {Synchronised, Settling, Spike}"

definition reset_phase :: "discipline \<Rightarrow> discipline" where
  "reset_phase d = d\<lparr>d_slew := fzero, d_last_update := None, d_last_offset := fzero,
     d_spike_since := None, d_state := (if d_state d \<noteq> Startup then Settling else d_state d)\<rparr>"

definition apply_slew_with :: "discipline \<Rightarrow> f64 \<Rightarrow> f64 \<Rightarrow> discipline \<times> f64" where
  "apply_slew_with d offset t =
     (let slew = fdiv (fmul (lit 2) offset) t;
          total = fadd (d_frequency d) slew
      in (d\<lparr>d_slew := slew\<rparr>, fclamp total (fneg MAX_FREQUENCY) MAX_FREQUENCY))"

definition apply_slew :: "discipline \<Rightarrow> f64 \<Rightarrow> discipline \<times> f64" where
  "apply_slew d offset = apply_slew_with d offset (fmul TIME_CONSTANT (lit 64))"

text \<open>\<open>Adjustment::Rate(self.apply_slew(..))\<close>: the new state and the rate.\<close>

definition as_rate :: "discipline \<times> f64 \<Rightarrow> discipline \<times> adjustment" where
  "as_rate p = (fst p, Rate (snd p))"

definition update_startup :: "discipline \<Rightarrow> f64 \<Rightarrow> f64 \<Rightarrow> discipline \<times> adjustment" where
  "update_startup d offset now =
     (let d = d\<lparr>d_last_update := Some now, d_last_offset := offset, d_state := Settling,
                d_updates := d_updates d + 1\<rparr>
      in if flt STEP_THRESHOLD (fabs offset)
         then (d\<lparr>d_stepped := fadd (d_stepped d) (fabs offset)\<rparr>, Step offset (d_frequency d))
         else as_rate (apply_slew d offset))"

definition update_large :: "discipline \<Rightarrow> f64 \<Rightarrow> f64 \<Rightarrow> discipline \<times> adjustment" where
  "update_large d offset now =
     (let since = (case d_spike_since d of Some s \<Rightarrow> s | None \<Rightarrow> now);
          d = d\<lparr>d_spike_since := Some since, d_state := Spike\<rparr>
      in if flt (fsub now since) STEPOUT then (d, Hold)
         else let d = d\<lparr>d_spike_since := None, d_state := Settling, d_last_update := Some now,
                        d_last_offset := fzero, d_slew := fzero, d_updates := d_updates d + 1,
                        d_stepped := fadd (d_stepped d) (fabs offset)\<rparr>
              in (d, Step offset (d_frequency d)))"

definition loop_jitter :: "f64 \<Rightarrow> f64 \<Rightarrow> f64" where
  "loop_jitter jitter change =
     fsqrt (fmax (fadd (f_sq jitter) (fdiv (fsub (f_sq change) (f_sq jitter)) (lit 8))) fzero)"

definition next_frequency :: "discipline \<Rightarrow> f64 \<Rightarrow> f64 \<Rightarrow> f64 \<Rightarrow> f64" where
  "next_frequency d offset mu t =
     (let frequency = fadd (d_frequency d) (fdiv (fmul offset mu) (fmul t t))
      in if fle FLL_INTERVAL mu
         then fadd frequency (fdiv (fdiv (fsub offset (d_last_offset d)) mu) (lit 4))
         else frequency)"

definition update_normal :: "discipline \<Rightarrow> f64 \<Rightarrow> f64 \<Rightarrow> discipline \<times> adjustment" where
  "update_normal d offset now =
     (let d = d\<lparr>d_spike_since := None,
                d_state := (if d_state d = Spike then Settling else d_state d)\<rparr>
      in case d_last_update d of
           None \<Rightarrow>
             as_rate (apply_slew (d\<lparr>d_last_update := Some now, d_last_offset := offset,
                                    d_updates := d_updates d + 1\<rparr>) offset)
         | Some prev \<Rightarrow>
             let mu = fmax (fsub now prev) (lit (1 / 1000));
                 change = fabs (fsub offset (d_last_offset d));
                 t = fmax (fmul TIME_CONSTANT mu) (lit 1);
                 frequency = next_frequency d offset mu t;
                 d = d\<lparr>d_jitter := loop_jitter (d_jitter d) change,
                       d_frequency := sane_frequency frequency, d_last_update := Some now,
                       d_last_offset := offset, d_updates := d_updates d + 1\<rparr>;
                 d = (if 4 < d_updates d then d\<lparr>d_state := Synchronised\<rparr> else d)
             in as_rate (apply_slew_with d offset t))"

definition disc_update :: "discipline \<Rightarrow> f64 \<Rightarrow> f64 \<Rightarrow> discipline \<times> adjustment" where
  "disc_update d offset now =
     (if \<not> is_finite offset then (d, Hold)
      else if d_state d = Startup then update_startup d offset now
      else if flt PANIC_THRESHOLD (fabs offset) then (d, Panic offset)
      else if flt STEP_THRESHOLD (fabs offset) then update_large d offset now
      else update_normal d offset now)"

lemmas disc_update_defs = disc_update_def update_startup_def update_large_def update_normal_def
  as_rate_def apply_slew_def apply_slew_with_def

fun servo_state_as_str :: "servo_state \<Rightarrow> string" where
  "servo_state_as_str Startup = ''startup''"
| "servo_state_as_str Settling = ''settling''"
| "servo_state_as_str Synchronised = ''synchronised''"
| "servo_state_as_str Spike = ''spike''"

section \<open>The frequency stays sane\<close>

definition bounded_rate :: "f64 \<Rightarrow> bool" where
  "bounded_rate r \<longleftrightarrow> fle (fneg MAX_FREQUENCY) r \<and> fle r MAX_FREQUENCY"

definition disc_ok :: "discipline \<Rightarrow> bool" where
  "disc_ok d \<longleftrightarrow> bounded_rate (d_frequency d) \<and> fnonneg (d_jitter d)"

lemma max_frequency_facts: "is_finite MAX_FREQUENCY" "fle (fneg MAX_FREQUENCY) MAX_FREQUENCY"
    "0 < val MAX_FREQUENCY" "val MAX_FREQUENCY \<le> 1" "bounded_rate fzero"
  unfolding MAX_FREQUENCY_def bounded_rate_def by (simp_all add: rnd_eval fle_def)

lemma bounded_rate_finite: "bounded_rate r \<Longrightarrow> is_finite r \<and> \<bar>val r\<bar> \<le> val MAX_FREQUENCY"
proof -
  assume b: "bounded_rate r"
  then have "is_finite r"
    using is_finite_between [of "fneg MAX_FREQUENCY" r MAX_FREQUENCY] max_frequency_facts(1)
    by (simp add: bounded_rate_def)
  then show ?thesis using b max_frequency_facts(1) by (auto simp: bounded_rate_def fle_val abs_le_iff)
qed

lemma bounded_clamp: "\<not> is_nan x \<Longrightarrow> bounded_rate (fclamp x (fneg MAX_FREQUENCY) MAX_FREQUENCY)"
  using fclamp_bounds [of x] max_frequency_facts(2) by (simp add: bounded_rate_def)

lemma sane_frequency_bounded [simp]: "bounded_rate (sane_frequency f)"
  using bounded_clamp max_frequency_facts(5) by (simp add: sane_frequency_def)

lemma thresholds_finite:
  "is_finite STEP_THRESHOLD" "val STEP_THRESHOLD \<le> 1" "is_finite PANIC_THRESHOLD" "is_finite STEPOUT"
  unfolding STEP_THRESHOLD_def PANIC_THRESHOLD_def STEPOUT_def by (simp_all add: rnd_eval)

lemma small_offset:
  assumes "is_finite offset" "\<not> flt STEP_THRESHOLD (fabs offset)"
  shows "is_finite (fmul (lit 2) offset)" "\<bar>val (fmul (lit 2) offset)\<bar> \<le> 2"
proof -
  obtain s m where o: "offset = Fin s m" using assms(1) by (rule is_finite.elims(2))
  have "m \<le> 1" using assms thresholds_finite by (simp add: o flt_val)
  then have "2 * m \<le> 2" by simp
  from rnd_abs_le [OF rep_2 _ this, of "False \<noteq> s"]
  show "is_finite (fmul (lit 2) offset)" "\<bar>val (fmul (lit 2) offset)\<bar> \<le> 2"
    by (simp_all add: two_lit o)
qed

lemma slew_rate_bounded:
  assumes "bounded_rate (d_frequency d)" "is_finite offset" "\<not> flt STEP_THRESHOLD (fabs offset)"
    and "fle (Fin False 1) t"
  shows "bounded_rate (snd (apply_slew_with d offset t))"
proof -
  let ?s = "fdiv (fmul (lit 2) offset) t"
  have s: "is_finite ?s" "\<bar>val ?s\<bar> \<le> 2"
    using fdiv_abs_le [OF small_offset(1) [OF assms(2,3)] assms(4) small_offset(2) [OF assms(2,3)] rep_2]
    by simp_all
  have f: "is_finite (d_frequency d)" "\<bar>val (d_frequency d)\<bar> \<le> 1"
    using bounded_rate_finite [OF assms(1)] max_frequency_facts(4) by auto
  have "\<bar>val (d_frequency d) + val ?s\<bar> \<le> 4" using s f by linarith
  then have "is_finite (fadd (d_frequency d) ?s)"
    using fadd_abs_le(1) [OF f(1) s(1)] rep_powi [of 2] by simp
  then show ?thesis by (simp add: apply_slew_with_def Let_def bounded_clamp)
qed

lemma slew_state: "fst (apply_slew_with d offset t) = d\<lparr>d_slew := fdiv (fmul (lit 2) offset) t\<rparr>"
  by (simp add: apply_slew_with_def Let_def)

lemma settle_ge_1: "fle (Fin False 1) (fmul TIME_CONSTANT (lit 64))" "fle (Fin False 1) (fmax x (lit 1))"
proof -
  show "fle (Fin False 1) (fmul TIME_CONSTANT (lit 64))"
    by (simp add: TIME_CONSTANT_def rnd_eval fle_def)
  have "lit 1 = Fin False 1" by (simp add: rnd_eval)
  then show "fle (Fin False 1) (fmax x (lit 1))" by (simp add: fmax_ge2)
qed

lemma loop_jitter_nonneg: "fnonneg (loop_jitter j c)"
  unfolding loop_jitter_def by (intro fsqrt_nonneg fmax_nonneg) (simp add: fnonneg_cases)

text \<open>The rate an adjustment leaves the kernel with.\<close>

fun adjustment_rate :: "adjustment \<Rightarrow> f64 option" where
  "adjustment_rate (Rate r) = Some r"
| "adjustment_rate (Step s r) = Some r"
| "adjustment_rate Hold = None"
| "adjustment_rate (Panic s) = None"

definition adjustment_ok :: "adjustment \<Rightarrow> bool" where
  "adjustment_ok a \<longleftrightarrow> (case adjustment_rate a of None \<Rightarrow> True | Some r \<Rightarrow> bounded_rate r)"

lemma startup_ok:
  assumes "disc_ok d" "is_finite offset"
  shows "disc_ok (fst (update_startup d offset now))" "adjustment_ok (snd (update_startup d offset now))"
  using assms slew_rate_bounded [OF _ assms(2) _ settle_ge_1(1)]
  by (auto simp: update_startup_def as_rate_def apply_slew_def slew_state disc_ok_def adjustment_ok_def Let_def)

lemma large_ok:
  assumes "disc_ok d"
  shows "disc_ok (fst (update_large d offset now))" "adjustment_ok (snd (update_large d offset now))"
  using assms by (auto simp: update_large_def disc_ok_def adjustment_ok_def Let_def)

lemma normal_ok:
  assumes "disc_ok d" "is_finite offset" "\<not> flt STEP_THRESHOLD (fabs offset)"
  shows "disc_ok (fst (update_normal d offset now))" "adjustment_ok (snd (update_normal d offset now))"
  using assms slew_rate_bounded [OF _ assms(2,3) settle_ge_1(1)] slew_rate_bounded [OF _ assms(2,3) settle_ge_1(2)]
  by (auto simp: update_normal_def as_rate_def apply_slew_def slew_state disc_ok_def adjustment_ok_def
                 loop_jitter_nonneg Let_def split: option.splits)

lemma update_ok:
  assumes "disc_ok d"
  shows "disc_ok (fst (disc_update d offset now)) \<and> adjustment_ok (snd (disc_update d offset now))"
  using assms startup_ok large_ok normal_ok
  by (auto simp: disc_update_def adjustment_ok_def)

lemma new_ok: "disc_ok (discipline_new f)"
  by (simp add: disc_ok_def discipline_new_def fnonneg_cases)

lemma reset_ok: "disc_ok d \<Longrightarrow> disc_ok (reset_phase d)"
  by (simp add: disc_ok_def reset_phase_def)

section \<open>The servo's contract\<close>

locale servo =
  fixes ok :: "'d \<Rightarrow> bool"
    and start :: "f64 \<Rightarrow> 'd"
    and feed :: "'d \<Rightarrow> f64 \<Rightarrow> f64 \<Rightarrow> 'd \<times> adjustment"
    and restart :: "'d \<Rightarrow> 'd"
    and rate :: "'d \<Rightarrow> f64"
  assumes ok_start: "ok (start f)"
    and ok_feed: "ok d \<Longrightarrow> ok (fst (feed d x now))"
    and ok_restart: "ok d \<Longrightarrow> ok (restart d)"
    and feed_bounded: "ok d \<Longrightarrow> adjustment_rate (snd (feed d x now)) = Some r \<Longrightarrow> bounded_rate r"
    and ok_rate: "ok d \<Longrightarrow> bounded_rate (rate d)"
    and restart_rate: "rate (restart d) = rate d"
begin

text \<open>A run: offsets fed in, or a phase reset.\<close>

fun run :: "'d \<Rightarrow> (f64 \<times> f64) option list \<Rightarrow> 'd \<times> adjustment list" where
  "run d [] = (d, [])"
| "run d (None # es) = run (restart d) es"
| "run d (Some (x, now) # es) =
     (case feed d x now of (d', a) \<Rightarrow> case run d' es of (d'', as) \<Rightarrow> (d'', a # as))"

lemma run_ok: "ok d \<Longrightarrow> ok (fst (run d es)) \<and> (\<forall>a\<in>set (snd (run d es)). adjustment_ok a)"
proof (induction d es rule: run.induct)
  case (3 d x now es)
  then show ?case
    using ok_feed [of d x now] feed_bounded [of d x now]
    by (auto simp: adjustment_ok_def split: prod.splits option.splits)
qed (simp_all add: ok_restart)

lemma run_start_bounded:
  "bounded_rate (rate (fst (run (start f) es))) \<and> (\<forall>a\<in>set (snd (run (start f) es)). adjustment_ok a)"
  using run_ok [OF ok_start] ok_rate by blast

end

interpretation sv: servo disc_ok discipline_new disc_update reset_phase d_frequency
proof unfold_locales
  show "disc_ok d \<Longrightarrow> adjustment_rate (snd (disc_update d x now)) = Some r \<Longrightarrow> bounded_rate r" for d x now r
    using update_ok [of d x now] by (simp add: adjustment_ok_def)
qed (simp_all add: new_ok update_ok reset_ok, simp_all add: disc_ok_def reset_phase_def)

section \<open>States that can be reached\<close>

inductive disc_reach :: "discipline \<Rightarrow> bool" where
  disc_start: "disc_reach (discipline_new f)"
| disc_feed: "disc_reach d \<Longrightarrow> disc_reach (fst (disc_update d offset now))"
| disc_reset: "disc_reach d \<Longrightarrow> disc_reach (reset_phase d)"

definition disc_inv :: "discipline \<Rightarrow> bool" where
  "disc_inv d \<longleftrightarrow> disc_ok d \<and> (d_state d = Spike \<longleftrightarrow> d_spike_since d \<noteq> None)
     \<and> (d_state d = Startup \<longrightarrow> d_last_update d = None)"

lemma disc_inv_update: "disc_inv d \<Longrightarrow> disc_inv (fst (disc_update d offset now))"
proof -
  assume inv: "disc_inv d"
  then have "disc_ok (fst (disc_update d offset now))" using update_ok by (simp add: disc_inv_def)
  then show ?thesis
    using inv by (auto simp: disc_inv_def disc_update_defs Let_def split: option.splits if_splits)
qed

lemma disc_reach_inv: "disc_reach d \<Longrightarrow> disc_inv d"
proof (induction rule: disc_reach.induct)
  case (disc_start f)
  then show ?case by (simp add: disc_inv_def new_ok) (simp add: discipline_new_def)
next
  case (disc_feed d offset now)
  then show ?case by (simp add: disc_inv_update)
next
  case (disc_reset d)
  then show ?case by (auto simp: disc_inv_def reset_ok) (auto simp: reset_phase_def split: if_splits)
qed

section \<open>Large offsets\<close>

definition feed_all :: "discipline \<Rightarrow> (f64 \<times> f64) list \<Rightarrow> discipline" where
  "feed_all d es = foldl (\<lambda>d (x, now). fst (disc_update d x now)) d es"

text \<open>An offset that does not end a spike: past the step threshold, or not a number to act on.\<close>

definition not_normal :: "f64 \<Rightarrow> bool" where
  "not_normal x \<longleftrightarrow> \<not> is_finite x \<or> flt STEP_THRESHOLD (fabs x)"

text \<open>An offset that may start a spike or end it in a step: a number past the one threshold and not the other.\<close>

definition past_step :: "f64 \<Rightarrow> bool" where
  "past_step x \<longleftrightarrow> is_finite x \<and> flt STEP_THRESHOLD (fabs x) \<and> \<not> flt PANIC_THRESHOLD (fabs x)"

definition spike_began :: "(f64 \<times> f64) list \<Rightarrow> f64 \<Rightarrow> bool" where
  "spike_began es since \<longleftrightarrow>
     (\<exists>pre y mid. es = pre @ (y, since) # mid \<and> past_step y \<and> list_all (\<lambda>(z, u). not_normal z) mid)"

lemma update_leaves_startup:
  "d_state d \<noteq> Startup \<Longrightarrow> d_state (fst (disc_update d x now)) \<noteq> Startup"
  by (auto simp: disc_update_defs Let_def split: option.splits if_splits)

lemma panic_is_large: "flt PANIC_THRESHOLD y \<Longrightarrow> flt STEP_THRESHOLD y"
proof -
  have "fle STEP_THRESHOLD PANIC_THRESHOLD"
    by (simp add: STEP_THRESHOLD_def PANIC_THRESHOLD_def rnd_eval fle_def)
  then show "flt PANIC_THRESHOLD y \<Longrightarrow> flt STEP_THRESHOLD y" by (rule fle_lt_trans)
qed

lemma update_spike:
  assumes "d_spike_since (fst (disc_update d x now)) = Some s" "d_state d \<noteq> Startup"
  shows "d_spike_since d = Some s \<and> not_normal x \<or> s = now \<and> past_step x"
  using assms
  by (auto simp: disc_update_defs not_normal_def past_step_def Let_def split: option.splits if_splits dest: panic_is_large)

lemma spike_began_snoc: "spike_began es s \<Longrightarrow> not_normal x \<Longrightarrow> spike_began (es @ [(x, now)]) s"
  unfolding spike_began_def by fastforce

lemma spike_began_new: "past_step x \<Longrightarrow> spike_began (es @ [(x, now)]) now"
  unfolding spike_began_def by fastforce

lemma feed_all_spike:
  "d_state d \<noteq> Startup \<Longrightarrow> d_spike_since d = None \<Longrightarrow>
   d_state (feed_all d es) \<noteq> Startup
   \<and> (\<forall>s. d_spike_since (feed_all d es) = Some s \<longrightarrow> spike_began es s)"
proof (induction es rule: rev_induct)
  case Nil
  then show ?case by (simp add: feed_all_def)
next
  case (snoc e es)
  obtain x now where e: "e = (x, now)" by (cases e)
  let ?d = "feed_all d es"
  have step: "feed_all d (es @ [e]) = fst (disc_update ?d x now)" by (simp add: feed_all_def e)
  have "spike_began (es @ [e]) s" if "d_spike_since (fst (disc_update ?d x now)) = Some s" for s
  proof -
    from update_spike [OF that] snoc
    have "d_spike_since ?d = Some s \<and> not_normal x \<or> s = now \<and> past_step x" by auto
    then show ?thesis
      using snoc spike_began_snoc [of es s x now] spike_began_new [of x es now] by (auto simp: e)
  qed
  then show ?case using snoc update_leaves_startup step by simp
qed

lemma update_steps:
  assumes "disc_update d x now = (d', Step secs r)" "d_state d \<noteq> Startup"
  shows "secs = x \<and> r = d_frequency d \<and> past_step x
    \<and> (\<exists>s. (d_spike_since d = Some s \<or> s = now) \<and> \<not> flt (fsub now s) STEPOUT)"
  using assms by (auto simp: disc_update_defs past_step_def Let_def split: option.splits if_splits)

section \<open>Properties\<close>

text \<open>
  The frequency can always be trusted: from any drift value, including a NaN read from a
  damaged file, through any sequence of offsets (NaN and infinities among them) and phase
  resets, the learned frequency is finite and within 500 ppm, and so is every rate asked of
  the kernel.
\<close>
theorem frequency_always_sane:
  "bounded_rate (d_frequency (fst (sv.run (discipline_new f) es)))
   \<and> (\<forall>a\<in>set (snd (sv.run (discipline_new f) es)). \<forall>r. adjustment_rate a = Some r \<longrightarrow> bounded_rate r)"
  using sv.run_start_bounded [of f es] by (auto simp: adjustment_ok_def)

theorem frequency_always_sane_witness:
  "bounded_rate (d_frequency (fst (sv.run (discipline_new NaN) [Some (NaN, fzero), None])))"
  using frequency_always_sane [of NaN "[Some (NaN, fzero), None]"] by blast

text \<open>
  C7: the clock is never stepped on a spike: from a state past startup in which no spike is being
  timed, a step is asked for only when an offset past the step threshold, a finite number and not past the panic threshold, was seen at
  least 900 seconds earlier and no normal offset (finite and within the step threshold) has arrived
  since; the step is then exactly the current offset, itself a finite number past the step threshold
  and not past the panic threshold: neither of the two is ever a NaN or infinite.
\<close>
theorem step_needs_persistence:
  assumes "d_state d \<noteq> Startup" "d_spike_since d = None" "is_finite now"
    and "disc_update (feed_all d es) x now = (d', Step secs r)"
  shows "secs = x \<and> past_step x
    \<and> (\<exists>pre y since mid. es = pre @ (y, since) # mid \<and> past_step y \<and> \<not> flt (fsub now since) STEPOUT
         \<and> list_all (\<lambda>(z, u). not_normal z) mid)"
proof -
  note f = feed_all_spike [OF assms(1,2), of es]
  obtain s where u: "secs = x" "past_step x"
    and s: "d_spike_since (feed_all d es) = Some s \<or> s = now" "\<not> flt (fsub now s) STEPOUT"
    using update_steps [OF assms(4)] f by blast
  have "fsub now now = fzero \<or> fsub now now = Fin True 0"
    using assms(3) by (cases now) (auto simp: fsub_def fround_def)
  then have "flt (fsub now now) STEPOUT" by (auto simp: STEPOUT_def rnd_eval flt_def)
  with s have "d_spike_since (feed_all d es) = Some s" by auto
  with f have "spike_began es s" by blast
  then show ?thesis using u s(2) unfolding spike_began_def by blast
qed

theorem step_needs_persistence_witness:
  "\<exists>d'. disc_update (feed_all (discipline_new fzero\<lparr>d_state := Settling\<rparr>) [(lit 1, fzero)]) (lit 1) (lit 900)
      = (d', Step (lit 1) fzero)
   \<and> past_step (lit 1)"
proof -
  let ?d = "discipline_new fzero\<lparr>d_state := Settling\<rparr>"
  have sane: "sane_frequency fzero = fzero"
    unfolding sane_frequency_def using max_frequency_facts(5) by (simp add: bounded_rate_def fclamp_id)
  have large: "flt STEP_THRESHOLD (fabs (lit 1))" "\<not> flt PANIC_THRESHOLD (fabs (lit 1))" "is_finite (lit 1)"
    by (simp_all add: STEP_THRESHOLD_def PANIC_THRESHOLD_def rnd_eval flt_def)
  have t: "flt (fsub fzero fzero) STEPOUT" "\<not> flt (fsub (lit 900) fzero) STEPOUT"
    by (simp_all add: STEPOUT_def rnd_eval flt_def fsub_def fround_def)
  obtain d' where s: "disc_update (feed_all ?d [(lit 1, fzero)]) (lit 1) (lit 900) = (d', Step (lit 1) fzero)"
    using large t by (simp add: feed_all_def disc_update_def update_large_def discipline_new_def Let_def sane)
  have "is_finite (lit 900)" by (simp add: rnd_eval)
  from step_needs_persistence [OF _ _ this s] s show ?thesis by (auto simp: discipline_new_def)
qed

text \<open>
  What the servo refuses leaves no trace: offsets that are not finite, and offsets past the
  panic threshold once startup is over, can be removed from any sequence fed to it without
  changing the state it ends in.
\<close>
theorem refused_offsets_leave_no_trace:
  assumes "d_state d \<noteq> Startup"
  shows "feed_all d es = feed_all d (filter (\<lambda>(x, now). is_finite x \<and> \<not> flt PANIC_THRESHOLD (fabs x)) es)"
  using assms
proof (induction es arbitrary: d)
  case (Cons e es)
  obtain x now where e: "e = (x, now)" by (cases e)
  have "d_state (fst (disc_update d x now)) \<noteq> Startup" using Cons.prems by (rule update_leaves_startup)
  moreover have "fst (disc_update d x now) = d" if "\<not> (is_finite x \<and> \<not> flt PANIC_THRESHOLD (fabs x))"
    using that Cons.prems by (auto simp: disc_update_def)
  ultimately show ?case using Cons by (auto simp: feed_all_def e)
qed (simp add: feed_all_def)

theorem refused_offsets_leave_no_trace_witness:
  "feed_all (discipline_new fzero\<lparr>d_state := Settling\<rparr>) [(NaN, fzero), (lit 2000, lit 5), (fzero, lit 9)]
     = feed_all (discipline_new fzero\<lparr>d_state := Settling\<rparr>) [(fzero, lit 9)]"
proof -
  have "flt PANIC_THRESHOLD (fabs (lit 2000))" "\<not> flt PANIC_THRESHOLD (fabs fzero)"
    by (simp_all add: PANIC_THRESHOLD_def rnd_eval flt_def)
  then show ?thesis
    by (subst refused_offsets_leave_no_trace) simp_all
qed

text \<open>
  The states the servo can reach: a spike is being timed exactly in the spike state, nothing
  has been measured in the startup state, and no update or reset ever returns to startup, so
  the unconditional step at startup happens at most once.
\<close>
theorem servo_states:
  assumes "disc_reach d"
  shows "(d_state d = Spike \<longleftrightarrow> d_spike_since d \<noteq> None)
    \<and> (d_state d = Startup \<longrightarrow> d_last_update d = None)
    \<and> (d_state d \<noteq> Startup \<longrightarrow> d_state (fst (disc_update d x now)) \<noteq> Startup \<and> d_state (reset_phase d) \<noteq> Startup)
    \<and> (is_finite x \<longrightarrow> d_state (fst (disc_update d x now)) \<noteq> Startup)"
  using disc_reach_inv [OF assms] update_leaves_startup [of d x now]
  by (auto simp: disc_inv_def reset_phase_def)
     (auto simp: disc_update_def update_startup_def as_rate_def apply_slew_def slew_state Let_def split: if_splits)

theorem servo_states_witness:
  "d_state (fst (disc_update (discipline_new fzero) fzero fzero)) \<noteq> Startup"
  using servo_states [OF disc_start, of fzero fzero fzero] by simp

end
