(* ===== verification/ExtField.thy ===== *)
theory ExtField
  imports Prelude
begin

text \<open>
  The errors of the wire formats (\<open>ntp/src/lib.rs\<close>) and NTP extension fields
  (\<open>ntp/src/extension.rs\<close>): encoding with padding, and the walk over everything after the
  fixed header with its trailing legacy MAC.
\<close>

section \<open>Definitions\<close>

datatype wire_error =
    Truncated nat nat
  | BadLength u32
  | Unsupported string
  | NotAuthentic
  | NotOurs string

definition NTS_UNIQUE_IDENTIFIER :: u16 where "NTS_UNIQUE_IDENTIFIER = 0x0104"
definition NTS_COOKIE :: u16 where "NTS_COOKIE = 0x0204"
definition NTS_COOKIE_PLACEHOLDER :: u16 where "NTS_COOKIE_PLACEHOLDER = 0x0304"
definition NTS_AUTHENTICATOR :: u16 where "NTS_AUTHENTICATOR = 0x0404"

definition MIN_FIELD :: nat where "MIN_FIELD = 16"

record ext_field =
  field_type :: u16
  field_value :: bytes

record legacy_mac =
  key_id :: u32
  digest :: bytes

definition padded_len :: "nat \<Rightarrow> nat" where
  "padded_len value_len = (let total = 4 + value_len in (total + 3) div 4 * 4)"

definition encoded_len :: "ext_field \<Rightarrow> nat" where
  "encoded_len f = max (padded_len (length (field_value f))) MIN_FIELD"

definition encode_into :: "ext_field \<Rightarrow> bytes \<Rightarrow> bytes" where
  "encode_into f out =
     (let len = max (padded_len (length (field_value f))) MIN_FIELD
      in out @ u16_to_be (field_type f) @ u16_to_be (of_nat len) @ field_value f
           @ replicate (len - 4 - length (field_value f)) 0)"

text \<open>The walk: \<open>fs\<close> is what the loop has pushed, \<open>rest\<close> its cursor.\<close>

function decode_fields :: "ext_field list \<Rightarrow> bytes \<Rightarrow> wire_error + ext_field list \<times> legacy_mac option"
where
  "decode_fields fs rest =
     (if length rest = 0 then Inr (fs, None)
      else if length rest = 4 then
        Inr (fs, Some \<lparr>key_id = u32_from_be (take 4 rest), digest = []\<rparr>)
      else if length rest = 20 \<or> length rest = 24 then
        Inr (fs, Some \<lparr>key_id = u32_from_be (take 4 rest), digest = drop 4 rest\<rparr>)
      else if length rest < MIN_FIELD then Inl (BadLength (of_nat (length rest)))
      else
        let ft = u16_from_be (bslice 0 2 rest);
            field_len = unat (u16_from_be (bslice 2 4 rest))
        in if field_len < MIN_FIELD \<or> \<not> 4 dvd field_len \<or> field_len > length rest
           then Inl (BadLength (of_nat field_len))
           else decode_fields (fs @ [\<lparr>field_type = ft, field_value = bslice 4 field_len rest\<rparr>])
                  (drop field_len rest))"
  by pat_completeness auto
termination
  by (relation "measure (\<lambda>(fs, rest). length rest)") (auto simp: MIN_FIELD_def)

declare decode_fields.simps [simp del]

definition decode_all_with_mac :: "bytes \<Rightarrow> wire_error + ext_field list \<times> legacy_mac option" where
  "decode_all_with_mac bytes = decode_fields [] bytes"

definition decode_all :: "bytes \<Rightarrow> wire_error + ext_field list" where
  "decode_all bytes = (case decode_all_with_mac bytes of
     Inl e \<Rightarrow> Inl e | Inr (fs, _) \<Rightarrow> Inr fs)"

section \<open>One field\<close>

definition field_bytes :: "ext_field \<Rightarrow> bytes" where
  "field_bytes f = encode_into f []"

text \<open>What a value becomes on the wire: zero-padded to a field boundary.\<close>

definition pad_field :: "ext_field \<Rightarrow> ext_field" where
  "pad_field f = f\<lparr>field_value :=
     field_value f @ replicate (encoded_len f - 4 - length (field_value f)) 0\<rparr>"

text \<open>Fields as the parser returns them: the padding is part of the value.\<close>

definition field_canonical :: "ext_field \<Rightarrow> bool" where
  "field_canonical f \<longleftrightarrow> 12 \<le> length (field_value f) \<and> 4 dvd length (field_value f)
     \<and> length (field_value f) + 4 < 2 ^ 16"

definition field_dec :: "bytes \<Rightarrow> (ext_field \<times> bytes) option" where
  "field_dec rest =
     (if length rest < MIN_FIELD then None
      else let field_len = unat (u16_from_be (bslice 2 4 rest))
           in if field_len < MIN_FIELD \<or> \<not> 4 dvd field_len \<or> field_len > length rest then None
              else Some (\<lparr>field_type = u16_from_be (bslice 0 2 rest),
                          field_value = bslice 4 field_len rest\<rparr>, drop field_len rest))"

lemma padded_len_bounds: "4 + n \<le> padded_len n" "padded_len n < n + 8" "4 dvd padded_len n"
  unfolding padded_len_def Let_def by simp_all

lemma encoded_len_bounds: "4 + length (field_value f) \<le> encoded_len f" "16 \<le> encoded_len f"
    "4 dvd encoded_len f"
  using padded_len_bounds [of "length (field_value f)"]
  by (simp_all add: encoded_len_def MIN_FIELD_def max_def)

lemma canonical_len [wire_simps]: "field_canonical f \<Longrightarrow> encoded_len f = 4 + length (field_value f)"
  by (auto simp: field_canonical_def encoded_len_def padded_len_def MIN_FIELD_def elim!: dvdE)

lemma encode_into_append: "encode_into f out = out @ field_bytes f"
  by (simp add: encode_into_def field_bytes_def Let_def)

lemma field_bytes_eq:
  "field_bytes f = u16_to_be (field_type f) @ u16_to_be (of_nat (encoded_len f))
     @ field_value (pad_field f)"
  by (simp add: field_bytes_def encode_into_def encoded_len_def pad_field_def Let_def)

lemma length_field_bytes [wire_simps]: "length (field_bytes f) = encoded_len f"
  using encoded_len_bounds [of f] by (simp add: field_bytes_eq pad_field_def wire_simps)

lemma pad_field_canonical: "encoded_len f < 2 ^ 16 \<Longrightarrow> field_canonical (pad_field f)"
  using encoded_len_bounds [of f] by (auto simp: pad_field_def field_canonical_def elim!: dvdE)

lemma canonical_pad: "field_canonical f \<Longrightarrow> pad_field f = f"
  by (simp add: pad_field_def canonical_len)

lemma field_type_pad [simp]: "field_type (pad_field f) = field_type f"
  by (simp add: pad_field_def)

lemma encoded_len_pad: "encoded_len f < 2 ^ 16 \<Longrightarrow> encoded_len (pad_field f) = encoded_len f"
  using encoded_len_bounds [of f] canonical_len [OF pad_field_canonical, of f]
  by (simp add: pad_field_def)

lemma field_dec_bytes:
  assumes "encoded_len f < 2 ^ 16"
  shows "field_dec (field_bytes f @ rest) = Some (pad_field f, rest)"
proof -
  have len: "unat (of_nat (encoded_len f) :: u16) = encoded_len f"
    using assms by (simp add: unat_of_nat)
  have ft: "u16_from_be (bslice 0 2 (field_bytes f @ rest)) = field_type f"
    by (simp add: field_bytes_eq bslice_def wire_simps)
  have fl: "unat (u16_from_be (bslice 2 4 (field_bytes f @ rest))) = encoded_len f"
    by (simp add: field_bytes_eq bslice_def wire_simps len)
  have fv: "bslice 4 (encoded_len f) (field_bytes f @ rest) = field_value (pad_field f)"
    using encoded_len_bounds [of f]
    by (simp add: field_bytes_eq bslice_def wire_simps) (simp add: pad_field_def)
  show ?thesis
    using encoded_len_bounds [of f]
    by (simp add: field_dec_def fl fv ft wire_simps MIN_FIELD_def)
qed

lemma field_dec_sound:
  assumes "field_dec bs = Some (f, rest)"
  shows "bs = field_bytes f @ rest \<and> field_canonical f"
proof -
  define n where "n = unat (u16_from_be (bslice 2 4 bs))"
  have n: "16 \<le> n" "4 dvd n" "n \<le> length bs" "n < 2 ^ 16"
    and f: "f = \<lparr>field_type = u16_from_be (bslice 0 2 bs), field_value = bslice 4 n bs\<rparr>"
    and rest: "rest = drop n bs"
    using assms unsigned_less [of "u16_from_be (bslice 2 4 bs)", where 'a = nat]
    by (auto simp: field_dec_def n_def [symmetric] MIN_FIELD_def split: if_splits)
  have len: "length (field_value f) = n - 4" using n by (simp add: f length_bslice)
  have "4 dvd n - 4" using n by (simp add: dvd_diff_nat)
  then have canon: "field_canonical f" using n len by (simp add: field_canonical_def)
  have "(of_nat n :: u16) = u16_from_be (bslice 2 4 bs)" by (simp add: n_def)
  moreover have "encoded_len f = n" using canonical_len [OF canon] len n by simp
  ultimately have "field_bytes f = u16_to_be (u16_from_be (bslice 0 2 bs))
      @ u16_to_be (u16_from_be (bslice 2 4 bs)) @ bslice 4 n bs"
    by (simp add: field_bytes_eq canonical_pad [OF canon]) (simp add: f)
  also have "\<dots> = bslice 0 2 bs @ bslice 2 4 bs @ bslice 4 n bs"
    using n by (simp add: be16.enc_dec length_bslice)
  also have "\<dots> = take n bs"
    using n by (simp add: bslice_append flip: bslice_0)
  finally show ?thesis using canon rest by simp
qed

interpretation ext: framed_item field_canonical field_bytes field_dec
proof unfold_locales
  show "field_dec (field_bytes f @ rest) = Some (f, rest)" if "field_canonical f" for f rest
    using field_dec_bytes [of f rest] canonical_len [OF that] canonical_pad [OF that] that
    by (simp add: field_canonical_def)
  show "field_bytes f \<noteq> []" for f
    using length_field_bytes [of f] encoded_len_bounds [of f] by auto
qed (rule field_dec_sound)

section \<open>The walk\<close>

definition declared_len :: "bytes \<Rightarrow> nat" where
  "declared_len rest = unat (u16_from_be (bslice 2 4 rest))"

lemma decode_fields_step:
  assumes "16 \<le> length rest" "length rest \<noteq> 20" "length rest \<noteq> 24"
  shows "decode_fields fs rest = (case field_dec rest of
     None \<Rightarrow> Inl (BadLength (of_nat (declared_len rest)))
   | Some (f, r) \<Rightarrow> decode_fields (fs @ [f]) r)"
  using assms
  by (subst decode_fields.simps) (auto simp: field_dec_def declared_len_def MIN_FIELD_def Let_def)

lemma decode_fields_Nil [simp]: "decode_fields fs [] = Inr (fs, None)"
  by (subst decode_fields.simps) simp

lemma decode_fields_tail:
  "length rest = 4 \<Longrightarrow> decode_fields fs rest = Inr (fs, Some \<lparr>key_id = u32_from_be (take 4 rest), digest = []\<rparr>)"
  "length rest = 20 \<or> length rest = 24 \<Longrightarrow>
     decode_fields fs rest = Inr (fs, Some \<lparr>key_id = u32_from_be (take 4 rest), digest = drop 4 rest\<rparr>)"
  "length rest < 16 \<Longrightarrow> length rest \<notin> {0, 4} \<Longrightarrow>
     decode_fields fs rest = Inl (BadLength (of_nat (length rest)))"
  by ((subst decode_fields.simps; force simp: MIN_FIELD_def)+)[2]
     (cases rest; subst decode_fields.simps; simp add: MIN_FIELD_def)

fun mac_bytes :: "legacy_mac option \<Rightarrow> bytes" where
  "mac_bytes None = []"
| "mac_bytes (Some m) = u32_to_be (key_id m) @ digest m"

fun mac_ok :: "legacy_mac option \<Rightarrow> bool" where
  "mac_ok None = True"
| "mac_ok (Some m) = (length (digest m) \<in> {0, 16, 20})"

lemma decode_fields_mac:
  assumes "mac_ok (Some m)"
  shows "decode_fields fs (mac_bytes (Some m)) = Inr (fs, Some m)"
  using assms by (subst decode_fields.simps) (auto simp: be32.dec_take wire_simps)

lemma decode_fields_sound:
  "decode_fields fs rest = Inr (gs, m) \<Longrightarrow>
     \<exists>hs. gs = fs @ hs \<and> list_all field_canonical hs \<and> mac_ok m
        \<and> rest = concat (map field_bytes hs) @ mac_bytes m"
proof (induction fs rest arbitrary: gs m rule: decode_fields.induct)
  case (1 fs rest)
  have mac: "u32_to_be (u32_from_be (take 4 rest)) @ drop 4 rest = rest" if "4 \<le> length rest"
    using that by (rule be32.enc_split)
  consider (empty) "length rest = 0" | (nak) "length rest = 4"
    | (mac) "length rest = 20 \<or> length rest = 24"
    | (short) "length rest < 16" "length rest \<notin> {0, 4}"
    | (field) "16 \<le> length rest" "length rest \<noteq> 20" "length rest \<noteq> 24" by fastforce
  then show ?case
  proof cases
    case empty
    with "1.prems" show ?thesis by simp
  next
    case nak
    then have "m = Some \<lparr>key_id = u32_from_be (take 4 rest), digest = []\<rparr>" "gs = fs"
      using "1.prems" by (simp_all add: decode_fields_tail)
    with mac nak show ?thesis by (intro exI [of _ "[]"]) simp
  next
    case mac
    then have "m = Some \<lparr>key_id = u32_from_be (take 4 rest), digest = drop 4 rest\<rparr>" "gs = fs"
      using "1.prems" by (simp_all add: decode_fields_tail)
    with mac be32.enc_split [of rest] show ?thesis by (intro exI [of _ "[]"]) auto
  next
    case short
    with "1.prems" show ?thesis by (simp add: decode_fields_tail)
  next
    case field
    then obtain f r where fd: "field_dec rest = Some (f, r)"
      and rec: "decode_fields (fs @ [f]) r = Inr (gs, m)"
      using "1.prems" decode_fields_step [OF field, of fs] by (auto split: option.splits)
    have eq: "rest = field_bytes f @ r" and "field_canonical f"
      using field_dec_sound [OF fd] by auto
    obtain hs where "gs = (fs @ [f]) @ hs" "list_all field_canonical hs" "mac_ok m"
        "r = concat (map field_bytes hs) @ mac_bytes m"
      using fd field rec "1.IH" unfolding field_dec_def
      by (fastforce simp: MIN_FIELD_def Let_def split: if_splits)
    with eq \<open>field_canonical f\<close> show ?thesis by (intro exI [of _ "f # hs"]) simp
  qed
qed

definition no_mac_clash :: "ext_field list \<Rightarrow> bool" where
  "no_mac_clash fs \<longleftrightarrow> (fs = [] \<or> encoded_len (last fs) \<notin> {20, 24})"

lemma length_fields_ge:
  "fs \<noteq> [] \<Longrightarrow> 16 * length fs \<le> length (concat (map field_bytes fs))"
proof (induction fs)
  case (Cons f fs)
  then show ?case using encoded_len_bounds [of f] by (cases fs) (auto simp: wire_simps)
qed simp

lemma decode_fields_complete:
  "list_all (\<lambda>f. encoded_len f < 2 ^ 16) hs \<Longrightarrow> no_mac_clash hs \<Longrightarrow>
   decode_fields fs (concat (map field_bytes hs)) = Inr (fs @ map pad_field hs, None)"
proof (induction hs arbitrary: fs)
  case Nil
  then show ?case by simp
next
  case (Cons h hs)
  let ?rest = "field_bytes h @ concat (map field_bytes hs)"
  have sz: "16 \<le> length ?rest" "length ?rest \<noteq> 20" "length ?rest \<noteq> 24"
    using Cons.prems encoded_len_bounds [of h] length_fields_ge [of hs]
    by (cases hs; auto simp: wire_simps no_mac_clash_def)+
  have "no_mac_clash hs" using Cons.prems(2) by (auto simp: no_mac_clash_def split: if_splits)
  then show ?case
    using Cons decode_fields_step [OF sz] field_dec_bytes [of h "concat (map field_bytes hs)"] by simp
qed

section \<open>Properties\<close>

text \<open>
  Whatever the extension-field parser accepts, it accounts for byte by byte: the input is
  exactly the re-encoding of the returned fields, in order, followed by the trailing legacy
  MAC if there is one. Nothing is skipped, reordered or read twice.
\<close>
theorem ext_decode_accounts_for_every_byte:
  assumes "decode_all_with_mac bs = Inr (fs, m)"
  shows "bs = concat (map field_bytes fs) @ mac_bytes m \<and> list_all field_canonical fs \<and> mac_ok m"
  using decode_fields_sound [of "[]" bs fs m] assms by (auto simp: decode_all_with_mac_def)

theorem ext_decode_accounts_for_every_byte_witness:
  "[1, 4, 0, 16, 9, 9, 9, 9, 9, 9, 9, 9, 9, 9, 9, 9]
     = concat (map field_bytes [\<lparr>field_type = 0x0104, field_value = [9, 9, 9, 9, 9, 9, 9, 9, 9, 9, 9, 9]\<rparr>])
       @ mac_bytes None"
proof -
  have "decode_all_with_mac [1, 4, 0, 16, 9, 9, 9, 9, 9, 9, 9, 9, 9, 9, 9, 9]
      = Inr ([\<lparr>field_type = 0x0104, field_value = [9, 9, 9, 9, 9, 9, 9, 9, 9, 9, 9, 9]\<rparr>], None)"
    by code_simp
  from ext_decode_accounts_for_every_byte [OF this] show ?thesis by (rule conjunct1)
qed

text \<open>
  Fields written by the encoder are read back in order, each with its value zero-padded to
  its field boundary, unless the last one is 20 or 24 bytes long on the wire (that tail is read
  as a legacy MAC) or a field overflows its 16-bit length.
\<close>
theorem ext_round_trip:
  assumes "list_all (\<lambda>f. encoded_len f < 2 ^ 16) fs" and "no_mac_clash fs"
  shows "decode_all_with_mac (concat (map field_bytes fs)) = Inr (map pad_field fs, None)"
  using decode_fields_complete [OF assms, of "[]"] by (simp add: decode_all_with_mac_def)

theorem ext_round_trip_witness:
  "decode_all_with_mac (concat (map field_bytes [\<lparr>field_type = 0x0104, field_value = [7, 7, 7]\<rparr>]))
     = Inr ([\<lparr>field_type = 0x0104, field_value = [7, 7, 7, 0, 0, 0, 0, 0, 0, 0, 0, 0]\<rparr>], None)"
proof -
  let ?f = "\<lparr>field_type = 0x0104, field_value = [7, 7, 7]\<rparr> :: ext_field"
  have "list_all (\<lambda>f. encoded_len f < 2 ^ 16) [?f]" and "no_mac_clash [?f]"
    by (simp_all add: encoded_len_def padded_len_def MIN_FIELD_def no_mac_clash_def)
  note ext_round_trip [OF this]
  moreover have "map pad_field [?f] =
      [\<lparr>field_type = 0x0104, field_value = [7, 7, 7, 0, 0, 0, 0, 0, 0, 0, 0, 0]\<rparr>]" by code_simp
  ultimately show ?thesis by (simp only:)
qed

end
