(* ===== verification/NtpPacket.thy ===== *)
theory NtpPacket
  imports NtpTime ExtField
begin

text \<open>
  The NTPv4 message (\<open>ntp/src/packet.rs\<close>): the 48-byte header bit by bit, the extension
  fields after it, and the kiss-of-death test.
\<close>

section \<open>Definitions\<close>

definition VERSION :: u8 where "VERSION = 4"
definition HEADER_LEN :: nat where "HEADER_LEN = 48"
definition MAX_PACKET :: nat where "MAX_PACKET = 9000"

datatype leap_indicator = NoWarning | LeapInsert | LeapDelete | Unsynchronised

definition leap_from_bits :: "u8 \<Rightarrow> leap_indicator" where
  "leap_from_bits bits =
     (let b = bits AND 3
      in if b = 0 then NoWarning else if b = 1 then LeapInsert
         else if b = 2 then LeapDelete else Unsynchronised)"

fun leap_to_bits :: "leap_indicator \<Rightarrow> u8" where
  "leap_to_bits NoWarning = 0"
| "leap_to_bits LeapInsert = 1"
| "leap_to_bits LeapDelete = 2"
| "leap_to_bits Unsynchronised = 3"

datatype mode = Reserved | SymmetricActive | SymmetricPassive | Client | Server | Broadcast
  | Control | Private

definition mode_from_bits :: "u8 \<Rightarrow> mode" where
  "mode_from_bits bits =
     (let b = bits AND 7
      in if b = 0 then Reserved else if b = 1 then SymmetricActive
         else if b = 2 then SymmetricPassive else if b = 3 then Client
         else if b = 4 then Server else if b = 5 then Broadcast
         else if b = 6 then Control else Private)"

fun mode_to_bits :: "mode \<Rightarrow> u8" where
  "mode_to_bits Reserved = 0"
| "mode_to_bits SymmetricActive = 1"
| "mode_to_bits SymmetricPassive = 2"
| "mode_to_bits Client = 3"
| "mode_to_bits Server = 4"
| "mode_to_bits Broadcast = 5"
| "mode_to_bits Control = 6"
| "mode_to_bits Private = 7"

text \<open>A reference identifier is its four bytes, \<open>[u8; 4]\<close>.\<close>

type_synonym reference_id = "bytes"

definition is_ascii_uppercase :: "u8 \<Rightarrow> bool" where
  "is_ascii_uppercase b \<longleftrightarrow> 65 \<le> b \<and> b \<le> 90"

definition kiss_code :: "reference_id \<Rightarrow> bytes option" where
  "kiss_code r = (if list_all is_ascii_uppercase r then Some r else None)"

definition RATE :: reference_id where "RATE = [82, 65, 84, 69]"
definition DENY :: reference_id where "DENY = [68, 69, 78, 89]"
definition RSTR :: reference_id where "RSTR = [82, 83, 84, 82]"
definition NTSN :: reference_id where "NTSN = [78, 84, 83, 78]"
definition INIT_ID :: reference_id where "INIT_ID = [73, 78, 73, 84]"
definition reference_id_default :: reference_id where "reference_id_default = [0, 0, 0, 0]"

record ntp_packet =
  pk_leap :: leap_indicator
  pk_version :: u8
  pk_mode :: mode
  pk_stratum :: u8
  pk_poll :: int
  pk_precision :: int
  pk_root_delay :: ntp_short
  pk_root_dispersion :: ntp_short
  pk_reference_id :: reference_id
  pk_reference_timestamp :: ntp_timestamp
  pk_origin_timestamp :: ntp_timestamp
  pk_receive_timestamp :: ntp_timestamp
  pk_transmit_timestamp :: ntp_timestamp
  pk_extensions :: "ext_field list"

definition packet_default :: ntp_packet where
  "packet_default =
     \<lparr>pk_leap = NoWarning, pk_version = VERSION, pk_mode = Client, pk_stratum = 0,
      pk_poll = 6, pk_precision = 0, pk_root_delay = 0, pk_root_dispersion = 0,
      pk_reference_id = reference_id_default, pk_reference_timestamp = ts_unknown,
      pk_origin_timestamp = ts_unknown, pk_receive_timestamp = ts_unknown,
      pk_transmit_timestamp = ts_unknown, pk_extensions = []\<rparr>"

text \<open>\<open>x as i8\<close> and \<open>x as u8\<close>.\<close>

definition u8_as_i8 :: "u8 \<Rightarrow> int" where "u8_as_i8 b = sint b"
definition i8_as_u8 :: "int \<Rightarrow> u8" where "i8_as_u8 x = word_of_int x"

definition u32_at :: "bytes \<Rightarrow> nat \<Rightarrow> u32" where
  "u32_at bs i = u32_from_be (bslice i (i + 4) bs)"

definition u64_at :: "bytes \<Rightarrow> nat \<Rightarrow> u64" where
  "u64_at bs i = u64_from_be (bslice i (i + 8) bs)"

definition packet_decode :: "bytes \<Rightarrow> wire_error + ntp_packet" where
  "packet_decode bs =
     (if length bs < HEADER_LEN then Inl (Truncated HEADER_LEN (length bs))
      else if length bs > MAX_PACKET then Inl (BadLength (of_nat (length bs)))
      else
        let flags = bs ! 0
        in case decode_all (drop HEADER_LEN bs) of
             Inl e \<Rightarrow> Inl e
           | Inr exts \<Rightarrow> Inr
               \<lparr>pk_leap = leap_from_bits (drop_bit 6 flags),
                pk_version = drop_bit 3 flags AND 7,
                pk_mode = mode_from_bits flags,
                pk_stratum = bs ! 1,
                pk_poll = u8_as_i8 (bs ! 2),
                pk_precision = u8_as_i8 (bs ! 3),
                pk_root_delay = u32_at bs 4,
                pk_root_dispersion = u32_at bs 8,
                pk_reference_id = bslice 12 16 bs,
                pk_reference_timestamp = u64_at bs 16,
                pk_origin_timestamp = u64_at bs 24,
                pk_receive_timestamp = u64_at bs 32,
                pk_transmit_timestamp = u64_at bs 40,
                pk_extensions = exts\<rparr>)"

definition flags_byte :: "ntp_packet \<Rightarrow> u8" where
  "flags_byte p = push_bit 6 (leap_to_bits (pk_leap p)) OR push_bit 3 (pk_version p AND 7)
     OR mode_to_bits (pk_mode p)"

definition header_bytes :: "ntp_packet \<Rightarrow> bytes" where
  "header_bytes p =
     [flags_byte p, pk_stratum p, i8_as_u8 (pk_poll p), i8_as_u8 (pk_precision p)]
     @ u32_to_be (pk_root_delay p) @ u32_to_be (pk_root_dispersion p)
     @ pk_reference_id p
     @ u64_to_be (pk_reference_timestamp p) @ u64_to_be (pk_origin_timestamp p)
     @ u64_to_be (pk_receive_timestamp p) @ u64_to_be (pk_transmit_timestamp p)"

definition packet_encode :: "ntp_packet \<Rightarrow> bytes" where
  "packet_encode p = fold encode_into (pk_extensions p) (header_bytes p)"

definition extension :: "ntp_packet \<Rightarrow> u16 \<Rightarrow> ext_field option" where
  "extension p t = find (\<lambda>f. field_type f = t) (pk_extensions p)"

definition is_kiss_of_death :: "ntp_packet \<Rightarrow> bool" where
  "is_kiss_of_death p \<longleftrightarrow> pk_stratum p = 0 \<and> kiss_code (pk_reference_id p) \<noteq> None"

section \<open>Header facts\<close>

definition packet_ok :: "ntp_packet \<Rightarrow> bool" where
  "packet_ok p \<longleftrightarrow> pk_version p \<le> 7 \<and> - 128 \<le> pk_poll p \<and> pk_poll p \<le> 127
     \<and> - 128 \<le> pk_precision p \<and> pk_precision p \<le> 127 \<and> length (pk_reference_id p) = 4"

lemma encode_eq: "packet_encode p = header_bytes p @ concat (map field_bytes (pk_extensions p))"
proof -
  have "fold encode_into fs out = out @ concat (map field_bytes fs)" for fs out
    by (induction fs arbitrary: out) (simp_all add: encode_into_append)
  then show ?thesis by (simp add: packet_encode_def)
qed

lemma length_header [wire_simps]: "length (pk_reference_id p) = 4 \<Longrightarrow> length (header_bytes p) = 48"
  by (simp add: header_bytes_def wire_simps)

lemma leap_bits_round_trip: "leap_from_bits (leap_to_bits l) = l"
  by (cases l) (simp_all add: leap_from_bits_def)

lemma mode_bits_round_trip: "mode_from_bits (mode_to_bits m) = m"
  by (cases m) (simp_all add: mode_from_bits_def)

lemma bits_leap: "bit (leap_to_bits l) n \<Longrightarrow> n < 2"
  by (cases l; cases n; auto simp: bit_1_iff bit_numeral_rec split: nat.splits)

lemma bits_mode: "bit (mode_to_bits m) n \<Longrightarrow> n < 3"
  by (cases m; cases n; auto simp: bit_1_iff bit_numeral_rec split: nat.splits)

lemma and_7: "x AND 7 = take_bit 3 (x :: u8)" "x AND 3 = take_bit 2 (x :: u8)"
  by (simp_all add: take_bit_eq_mask mask_eq_exp_minus_1)

lemma and_7_id: "(v :: u8) \<le> 7 \<Longrightarrow> v AND 7 = v"
  by (simp add: and_7 word_unat_eq_iff unsigned_take_bit_eq word_le_nat_alt take_bit_nat_eq_self)

lemma flags_fields:
  assumes "pk_version p \<le> 7"
  shows "leap_from_bits (drop_bit 6 (flags_byte p)) = pk_leap p"
    and "drop_bit 3 (flags_byte p) AND 7 = pk_version p"
    and "mode_from_bits (flags_byte p) = pk_mode p"
proof -
  have "drop_bit 6 (flags_byte p) = leap_to_bits (pk_leap p)"
    by (rule bit_word_eqI)
       (auto simp: flags_byte_def bit_simps and_7 dest: bits_leap bits_mode bit_imp_le_length)
  then show "leap_from_bits (drop_bit 6 (flags_byte p)) = pk_leap p"
    by (simp add: leap_bits_round_trip)
  have "drop_bit 3 (flags_byte p) AND 7 = pk_version p AND 7"
    by (rule bit_word_eqI)
       (auto simp: flags_byte_def bit_simps and_7 dest: bits_leap bits_mode)
  then show "drop_bit 3 (flags_byte p) AND 7 = pk_version p"
    using assms by (simp add: and_7_id)
  have "flags_byte p AND 7 = mode_to_bits (pk_mode p)"
    by (rule bit_word_eqI)
       (auto simp: flags_byte_def bit_simps and_7 dest: bits_leap bits_mode)
  moreover have "mode_to_bits (pk_mode p) AND 7 = mode_to_bits (pk_mode p)"
    by (cases "pk_mode p") simp_all
  ultimately show "mode_from_bits (flags_byte p) = pk_mode p"
    by (metis mode_bits_round_trip mode_from_bits_def)
qed

lemma i8_round_trip: "- 128 \<le> x \<Longrightarrow> x \<le> 127 \<Longrightarrow> u8_as_i8 (i8_as_u8 x) = x"
  by (simp add: u8_as_i8_def i8_as_u8_def signed_of_int signed_take_bit_int_eq_self)

lemma u8_round_trip: "i8_as_u8 (u8_as_i8 b) = b"
  by (simp add: u8_as_i8_def i8_as_u8_def)

lemma u8_as_i8_range: "- 128 \<le> u8_as_i8 b" "u8_as_i8 b \<le> 127"
  using sint_range_size [of b] by (simp_all add: u8_as_i8_def word_size)

lemma and_3_cases: "(b :: u8) AND 3 \<in> {0, 1, 2, 3}"
proof -
  have "unat (b AND 3) < 4"
    using take_bit_nat_less_exp [of 2 "unat b"] by (simp add: and_7 unsigned_take_bit_eq)
  then have "unat (b AND 3) \<in> {0, 1, 2, 3}" by auto
  then show ?thesis by (simp add: word_unat_eq_iff)
qed

lemma and_7_cases: "(b :: u8) AND 7 \<in> {0, 1, 2, 3, 4, 5, 6, 7}"
proof -
  have "unat (b AND 7) < 8"
    using take_bit_nat_less_exp [of 3 "unat b"] by (simp add: and_7 unsigned_take_bit_eq)
  then have "unat (b AND 7) \<in> {0, 1, 2, 3, 4, 5, 6, 7}" by auto
  then show ?thesis by (simp add: word_unat_eq_iff)
qed

lemma leap_to_from: "leap_to_bits (leap_from_bits b) = b AND 3"
  using and_3_cases [of b] by (auto simp: leap_from_bits_def Let_def)

lemma mode_to_from: "mode_to_bits (mode_from_bits b) = b AND 7"
  using and_7_cases [of b] by (auto simp: mode_from_bits_def Let_def)

lemma flags_rebuild:
  "push_bit 6 (drop_bit 6 b AND 3) OR push_bit 3 ((drop_bit 3 b AND 7) AND 7) OR (b AND 7) = (b :: u8)"
proof (rule bit_word_eqI)
  fix n assume "n < LENGTH(8)"
  then show "bit (push_bit 6 (drop_bit 6 b AND 3) OR push_bit 3 ((drop_bit 3 b AND 7) AND 7) OR (b AND 7)) n
      = bit b n"
    by (cases "n < 6") (auto simp: and_7 bit_simps)
qed

lemma four_bytes: "4 \<le> length bs \<Longrightarrow> [bs ! 0, bs ! 1, bs ! 2, bs ! 3] = bslice 0 4 bs"
  by (rule nth_equalityI) (auto simp: bslice_def nth_Cons' numeral_eq_Suc less_Suc_eq)

lemma header_slices:
  assumes "48 \<le> length bs"
  shows "bslice 0 4 bs @ bslice 4 8 bs @ bslice 8 12 bs @ bslice 12 16 bs @ bslice 16 24 bs
     @ bslice 24 32 bs @ bslice 32 40 bs @ bslice 40 48 bs = take 48 bs"
  by (simp add: bslice_append flip: bslice_0)

lemma packet_decode_header:
  assumes "packet_decode bs = Inr p"
  shows "48 \<le> length bs" "length bs \<le> 9000" "decode_all (drop 48 bs) = Inr (pk_extensions p)"
    "packet_ok p" "header_bytes p = take 48 bs"
proof -
  show len: "48 \<le> length bs" "length bs \<le> 9000" "decode_all (drop 48 bs) = Inr (pk_extensions p)"
    using assms by (auto simp: packet_decode_def HEADER_LEN_def MAX_PACKET_def Let_def split: if_splits sum.splits)
  have p: "p = \<lparr>pk_leap = leap_from_bits (drop_bit 6 (bs ! 0)),
                pk_version = drop_bit 3 (bs ! 0) AND 7, pk_mode = mode_from_bits (bs ! 0),
                pk_stratum = bs ! 1, pk_poll = u8_as_i8 (bs ! 2), pk_precision = u8_as_i8 (bs ! 3),
                pk_root_delay = u32_at bs 4, pk_root_dispersion = u32_at bs 8,
                pk_reference_id = bslice 12 16 bs, pk_reference_timestamp = u64_at bs 16,
                pk_origin_timestamp = u64_at bs 24, pk_receive_timestamp = u64_at bs 32,
                pk_transmit_timestamp = u64_at bs 40, pk_extensions = pk_extensions p\<rparr>"
    using assms by (auto simp: packet_decode_def Let_def split: if_splits sum.splits)
  have "flags_byte p = bs ! 0"
    by (subst p) (simp only: flags_byte_def ntp_packet.simps leap_to_from mode_to_from flags_rebuild)
  then have "header_bytes p = [bs ! 0, bs ! 1, bs ! 2, bs ! 3] @ bslice 4 8 bs @ bslice 8 12 bs
      @ bslice 12 16 bs @ bslice 16 24 bs @ bslice 24 32 bs @ bslice 32 40 bs @ bslice 40 48 bs"
    unfolding header_bytes_def using len(1)
    by (simp only:, subst (1 2 3 4 5 6 7 8 9 10) p)
       (simp add: u8_round_trip u32_at_def u64_at_def wire_simps)
  then show "header_bytes p = take 48 bs"
    using len(1) header_slices [of bs] by (simp only: four_bytes)
  have "drop_bit 3 (bs ! 0) AND 7 \<le> 7" using and_7_cases [of "drop_bit 3 (bs ! 0)"] by auto
  then show "packet_ok p"
    using len(1) by (subst p) (simp add: packet_ok_def u8_as_i8_range wire_simps)
qed

lemma decode_all_sound:
  assumes "decode_all bs = Inr fs"
  obtains m where "bs = concat (map field_bytes fs) @ mac_bytes m" "list_all field_canonical fs" "mac_ok m"
  using decode_fields_sound [of "[]" bs]  assms
  by (auto simp: decode_all_def decode_all_with_mac_def split: sum.splits)

lemma packet_decode_sound:
  assumes "packet_decode bs = Inr p"
  obtains m where "bs = packet_encode p @ mac_bytes m" "list_all field_canonical (pk_extensions p)" "mac_ok m"
proof -
  note h = packet_decode_header [OF assms]
  obtain m where "drop 48 bs = concat (map field_bytes (pk_extensions p)) @ mac_bytes m"
      "list_all field_canonical (pk_extensions p)" "mac_ok m"
    using decode_all_sound [OF h(3)] .
  moreover from this have "bs = packet_encode p @ mac_bytes m"
    using append_take_drop_id [of 48 bs] h(5) by (simp add: encode_eq)
  ultimately show thesis using that by blast
qed

lemma header_fields:
  fixes rest :: bytes
  assumes "packet_ok p"
  defines "h \<equiv> header_bytes p @ rest"
  shows "h ! 0 = flags_byte p" "h ! 1 = pk_stratum p" "h ! 2 = i8_as_u8 (pk_poll p)"
    "h ! 3 = i8_as_u8 (pk_precision p)" "u32_at h 4 = pk_root_delay p"
    "u32_at h 8 = pk_root_dispersion p" "bslice 12 16 h = pk_reference_id p"
    "u64_at h 16 = pk_reference_timestamp p" "u64_at h 24 = pk_origin_timestamp p"
    "u64_at h 32 = pk_receive_timestamp p" "u64_at h 40 = pk_transmit_timestamp p"
    "drop 48 h = rest"
  using assms
  by (simp_all add: header_bytes_def u32_at_def u64_at_def bslice_def wire_simps packet_ok_def)

lemma packet_decode_encode:
  assumes "packet_ok p" "list_all (\<lambda>f. encoded_len f < 2 ^ 16) (pk_extensions p)"
    "no_mac_clash (pk_extensions p)" "length (packet_encode p) \<le> MAX_PACKET"
  shows "packet_decode (packet_encode p) = Inr (p\<lparr>pk_extensions := map pad_field (pk_extensions p)\<rparr>)"
proof -
  have v: "pk_version p \<le> 7" using assms(1) by (simp add: packet_ok_def)
  have len: "48 \<le> length (packet_encode p)"
    using assms(1) by (simp add: encode_eq length_header packet_ok_def)
  have "decode_all (concat (map field_bytes (pk_extensions p))) = Inr (map pad_field (pk_extensions p))"
    using decode_fields_complete [OF assms(2,3), of "[]"]
    by (simp add: decode_all_def decode_all_with_mac_def)
  with len assms(1,4) show ?thesis
    unfolding packet_decode_def encode_eq
    by (simp add: header_fields [OF assms(1)] flags_fields [OF v] HEADER_LEN_def Let_def
        i8_round_trip packet_ok_def del: One_nat_def drop_append)
qed

section \<open>Properties\<close>

text \<open>
  C33: a datagram the parser accepts is between 48 and 9000 bytes long and is, byte for byte,
  the re-encoding of the packet it returns followed by a trailing legacy MAC or nothing: the
  48 header bytes are read without loss (leap, version, mode, both log2 fields, all four
  timestamps) and no byte after them is unaccounted for.
\<close>
theorem packet_decode_lossless:
  assumes "packet_decode bs = Inr p"
  shows "48 \<le> length bs \<and> length bs \<le> 9000 \<and> packet_ok p
    \<and> (\<exists>m. bs = packet_encode p @ mac_bytes m \<and> mac_ok m)"
  using packet_decode_header [OF assms] packet_decode_sound [OF assms] by metis

text \<open>
  A packet whose fields are in range, whose extension fields fit their 16-bit lengths and
  whose last field is not mistaken for a MAC survives encoding and decoding: every header
  field comes back equal, and every extension field comes back in order, zero-padded.
\<close>
theorem packet_round_trip:
  assumes "packet_ok p" and "list_all (\<lambda>f. encoded_len f < 2 ^ 16) (pk_extensions p)"
    and "no_mac_clash (pk_extensions p)" and "length (packet_encode p) \<le> MAX_PACKET"
  shows "packet_decode (packet_encode p) = Inr (p\<lparr>pk_extensions := map pad_field (pk_extensions p)\<rparr>)"
  using assms by (rule packet_decode_encode)

theorem packet_round_trip_witness:
  "packet_decode (packet_encode packet_default)
     = Inr (packet_default\<lparr>pk_extensions := map pad_field (pk_extensions packet_default)\<rparr>)"
  by (rule packet_round_trip)
     (simp_all add: packet_default_def packet_ok_def VERSION_def reference_id_default_def
        no_mac_clash_def encode_eq length_header MAX_PACKET_def)

theorem packet_decode_lossless_witness:
  "packet_ok packet_default \<and> length (packet_encode packet_default) \<le> 9000"
proof -
  have "packet_decode (packet_encode packet_default) = Inr packet_default"
    using packet_decode_encode [of packet_default]
    by (simp add: packet_default_def packet_ok_def VERSION_def reference_id_default_def
        no_mac_clash_def encode_eq length_header MAX_PACKET_def)
  from packet_decode_lossless [OF this] show ?thesis by blast
qed

end
