(* ===== verification/RustText.thy ===== *)
theory RustText
  imports Prelude
begin

text \<open>
  What the program uses of Rust's text: UTF-8 validity, splitting, trimming, integer parsing
  and the textual form of IP addresses. A \<open>str\<close> is its UTF-8 bytes as a \<^typ>\<open>string\<close>, so
  \<open>len()\<close> is \<^const>\<open>length\<close>.
\<close>

section \<open>UTF-8\<close>

definition cont_byte :: "nat \<Rightarrow> bool" where
  "cont_byte b \<longleftrightarrow> 128 \<le> b \<and> b \<le> 191"

fun utf8_valid :: "nat list \<Rightarrow> bool" where
  "utf8_valid [] = True"
| "utf8_valid (b # bs) =
     (if b < 128 then utf8_valid bs
      else if 194 \<le> b \<and> b \<le> 223 then
        (case bs of c # cs \<Rightarrow> cont_byte c \<and> utf8_valid cs | _ \<Rightarrow> False)
      else if 224 \<le> b \<and> b \<le> 239 then
        (case bs of c # d # cs \<Rightarrow>
             cont_byte c \<and> (b = 224 \<longrightarrow> 160 \<le> c) \<and> (b = 237 \<longrightarrow> c \<le> 159)
               \<and> cont_byte d \<and> utf8_valid cs
         | _ \<Rightarrow> False)
      else if 240 \<le> b \<and> b \<le> 244 then
        (case bs of c # d # e # cs \<Rightarrow>
             cont_byte c \<and> (b = 240 \<longrightarrow> 144 \<le> c) \<and> (b = 244 \<longrightarrow> c \<le> 143)
               \<and> cont_byte d \<and> cont_byte e \<and> utf8_valid cs
         | _ \<Rightarrow> False)
      else False)"

definition string_of_bytes :: "bytes \<Rightarrow> string" where
  "string_of_bytes bs = map (\<lambda>b. char_of (unat b)) bs"

definition bytes_of_string :: "string \<Rightarrow> bytes" where
  "bytes_of_string s = map (\<lambda>c. of_nat (of_char c)) s"

definition from_utf8 :: "bytes \<Rightarrow> string option" where
  "from_utf8 bs = (if utf8_valid (map unat bs) then Some (string_of_bytes bs) else None)"

section \<open>Characters\<close>

definition char_code :: "char \<Rightarrow> nat" where "char_code c = of_char c"

definition is_ascii_digit :: "char \<Rightarrow> bool" where
  "is_ascii_digit c \<longleftrightarrow> 48 \<le> char_code c \<and> char_code c \<le> 57"

definition is_ascii_alphanumeric :: "char \<Rightarrow> bool" where
  "is_ascii_alphanumeric c \<longleftrightarrow> is_ascii_digit c
     \<or> (65 \<le> char_code c \<and> char_code c \<le> 90) \<or> (97 \<le> char_code c \<and> char_code c \<le> 122)"

text \<open>\<open>char::to_digit(radix)\<close> for radix 10 and 16.\<close>

definition to_digit :: "nat \<Rightarrow> char \<Rightarrow> nat option" where
  "to_digit radix c =
     (let n = char_code c;
          d = (if 48 \<le> n \<and> n \<le> 57 then n - 48
               else if 97 \<le> n \<and> n \<le> 122 then n - 87
               else if 65 \<le> n \<and> n \<le> 90 then n - 55 else 99)
      in if d < radix then Some d else None)"

text \<open>
  The bytes taken by a leading Unicode whitespace character, zero if there is none: the
  \<open>White_Space\<close> property, in UTF-8.
\<close>

definition ws_len :: "string \<Rightarrow> nat" where
  "ws_len s = (case map char_code s of
       [] \<Rightarrow> 0
     | b # bs \<Rightarrow>
        (if b = 32 \<or> (9 \<le> b \<and> b \<le> 13) then 1
         else case bs of [] \<Rightarrow> 0
         | c # cs \<Rightarrow>
            (if b = 194 \<and> (c = 133 \<or> c = 160) then 2
             else case cs of [] \<Rightarrow> 0
             | d # _ \<Rightarrow>
                (if (b = 225 \<and> c = 154 \<and> d = 128)
                  \<or> (b = 226 \<and> c = 128 \<and> (128 \<le> d \<and> d \<le> 138 \<or> d = 168 \<or> d = 169 \<or> d = 175))
                  \<or> (b = 226 \<and> c = 129 \<and> d = 159)
                  \<or> (b = 227 \<and> c = 128 \<and> d = 128)
                 then 3 else 0))))"

section \<open>Splitting and trimming\<close>

text \<open>\<open>split(c)\<close>: always at least one part.\<close>

fun split_on :: "char \<Rightarrow> string \<Rightarrow> string list" where
  "split_on c [] = [[]]"
| "split_on c (x # xs) =
     (if x = c then [] # split_on c xs
      else case split_on c xs of [] \<Rightarrow> [[x]] | p # ps \<Rightarrow> (x # p) # ps)"

text \<open>\<open>split_once\<close> and \<open>rsplit_once\<close>.\<close>

fun split_once :: "char \<Rightarrow> string \<Rightarrow> (string \<times> string) option" where
  "split_once c [] = None"
| "split_once c (x # xs) =
     (if x = c then Some ([], xs) else map_option (\<lambda>(a, b). (x # a, b)) (split_once c xs))"

definition rsplit_once :: "char \<Rightarrow> string \<Rightarrow> (string \<times> string) option" where
  "rsplit_once c s = map_option (\<lambda>(a, b). (rev b, rev a)) (split_once c (rev s))"

fun strip_prefix :: "char \<Rightarrow> string \<Rightarrow> string option" where
  "strip_prefix c [] = None"
| "strip_prefix c (x # xs) = (if x = c then Some xs else None)"

text \<open>\<open>split_whitespace\<close>: \<open>w\<close> is the word being read.\<close>

function words_from :: "string \<Rightarrow> string \<Rightarrow> string list" where
  "words_from w [] = (if w = [] then [] else [w])"
| "words_from w (x # xs) =
     (let n = ws_len (x # xs)
      in if n = 0 then words_from (w @ [x]) xs
         else (if w = [] then [] else [w]) @ words_from [] (drop n (x # xs)))"
  by pat_completeness auto
termination
  by (relation "measure (\<lambda>(w, s). length s)") auto

definition split_whitespace :: "string \<Rightarrow> string list" where
  "split_whitespace s = words_from [] s"

function trim_start :: "string \<Rightarrow> string" where
  "trim_start [] = []"
| "trim_start (x # xs) =
     (let n = ws_len (x # xs) in if n = 0 then x # xs else trim_start (drop n (x # xs)))"
  by pat_completeness auto
termination
  by (relation "measure length") auto

text \<open>Trailing whitespace: the shortest prefix whose remainder is whitespace only.\<close>

fun trim_end :: "string \<Rightarrow> string" where
  "trim_end [] = []"
| "trim_end (x # xs) = (if trim_start (x # xs) = [] then [] else x # trim_end xs)"

definition trim :: "string \<Rightarrow> string" where
  "trim s = trim_end (trim_start s)"

text \<open>\<open>lines\<close>: a newline ends a line and takes a carriage return before it along.\<close>

definition strip_cr :: "string \<Rightarrow> string" where
  "strip_cr s = (if s \<noteq> [] \<and> last s = CHR 0x0D then butlast s else s)"

definition str_lines :: "string \<Rightarrow> string list" where
  "str_lines s = (let ps = split_on CHR 0x0A s
     in map strip_cr (butlast ps) @ (if last ps = [] then [] else [last ps]))"

text \<open>\<open>Path::join\<close>: an absolute second path replaces the first.\<close>

definition path_join :: "string \<Rightarrow> string \<Rightarrow> string" where
  "path_join base name = (if take 1 name = ''/'' then name else base @ CHR ''/'' # name)"

section \<open>Integers\<close>

fun digits_value :: "nat \<Rightarrow> string \<Rightarrow> nat option" where
  "digits_value acc [] = Some acc"
| "digits_value acc (c # cs) =
     (case to_digit 10 c of None \<Rightarrow> None | Some d \<Rightarrow> digits_value (acc * 10 + d) cs)"

text \<open>\<open>str::parse\<close> for an unsigned type with the given maximum: an optional plus sign.\<close>

definition parse_unsigned :: "nat \<Rightarrow> string \<Rightarrow> nat option" where
  "parse_unsigned hi s =
     (let t = (case s of CHR ''+'' # r \<Rightarrow> r | _ \<Rightarrow> s)
      in if t = [] then None
         else case digits_value 0 t of None \<Rightarrow> None
              | Some n \<Rightarrow> if n \<le> hi then Some n else None)"

text \<open>and for a signed type with the given bounds.\<close>

definition parse_signed :: "int \<Rightarrow> int \<Rightarrow> string \<Rightarrow> int option" where
  "parse_signed lo hi s =
     (let neg = (case s of CHR ''-'' # r \<Rightarrow> True | _ \<Rightarrow> False);
          t = (case s of CHR ''-'' # r \<Rightarrow> r | CHR ''+'' # r \<Rightarrow> r | _ \<Rightarrow> s)
      in if t = [] then None
         else case digits_value 0 t of None \<Rightarrow> None
              | Some n \<Rightarrow>
                  let v = (if neg then - int n else int n)
                  in if lo \<le> v \<and> v \<le> hi then Some v else None)"

section \<open>IP addresses\<close>

text \<open>\<open>Ipv4Addr\<close> is its four octets, \<open>Ipv6Addr\<close> its eight groups.\<close>

datatype ip_addr = V4 "nat list" | V6 "nat list"

datatype socket_addr = SocketAddr (sa_ip: ip_addr) (sa_port: u16)

text \<open>
  The standard library's address parser: each reader returns the value and the rest of the
  text, and consumes nothing when it fails. \<open>read_digits\<close> fails past \<open>left\<close> digits.
\<close>

fun read_digits :: "nat \<Rightarrow> nat \<Rightarrow> nat \<Rightarrow> string \<Rightarrow> (nat \<times> string) option" where
  "read_digits radix left acc [] = Some (acc, [])"
| "read_digits radix left acc (c # cs) =
     (case to_digit radix c of
        None \<Rightarrow> Some (acc, c # cs)
      | Some d \<Rightarrow> (case left of 0 \<Rightarrow> None
                 | Suc l \<Rightarrow> read_digits radix l (acc * radix + d) cs))"

definition read_number :: "nat \<Rightarrow> nat \<Rightarrow> nat \<Rightarrow> bool \<Rightarrow> string \<Rightarrow> (nat \<times> string) option" where
  "read_number radix digits hi zero_prefix s =
     (case read_digits radix digits 0 s of
        None \<Rightarrow> None
      | Some (n, r) \<Rightarrow>
          let count = length s - length r
          in if count = 0 \<or> (\<not> zero_prefix \<and> take 1 s = ''0'' \<and> 1 < count) \<or> hi < n then None
             else Some (n, r))"

text \<open>\<open>read_separator\<close>: the separator is expected before every item but the first.\<close>

definition after_separator :: "char \<Rightarrow> nat \<Rightarrow> string \<Rightarrow> string option" where
  "after_separator c i s = (if 0 < i then strip_prefix c s else Some s)"

fun read_octets :: "nat \<Rightarrow> nat \<Rightarrow> string \<Rightarrow> (nat list \<times> string) option" where
  "read_octets i 0 s = Some ([], s)"
| "read_octets i (Suc n) s =
     (case after_separator CHR ''.'' i s of None \<Rightarrow> None
      | Some t \<Rightarrow>
        (case read_number 10 3 255 False t of None \<Rightarrow> None
         | Some (v, r) \<Rightarrow> map_option (\<lambda>(vs, q). (v # vs, q)) (read_octets (Suc i) n r)))"

definition read_ipv4_addr :: "string \<Rightarrow> (nat list \<times> string) option" where
  "read_ipv4_addr s = read_octets 0 4 s"

text \<open>
  \<open>read_groups\<close>: the groups read, whether the last two came from an embedded IPv4 address,
  and the rest. \<open>n\<close> groups are still wanted, \<open>i\<close> have been read.
\<close>

fun read_groups :: "nat \<Rightarrow> nat \<Rightarrow> string \<Rightarrow> nat list \<times> bool \<times> string" where
  "read_groups i 0 s = ([], False, s)"
| "read_groups i (Suc n) s =
     (let group = (case after_separator CHR '':'' i s of None \<Rightarrow> ([], False, s)
                   | Some t \<Rightarrow>
                     (case read_number 16 4 65535 True t of None \<Rightarrow> ([], False, s)
                      | Some (v, r) \<Rightarrow>
                          (case read_groups (Suc i) n r of (vs, b, q) \<Rightarrow> (v # vs, b, q))))
      in if n = 0 then group
         else case after_separator CHR '':'' i s of None \<Rightarrow> group
         | Some t \<Rightarrow>
           (case read_ipv4_addr t of
              Some ([a, b, c, d], r) \<Rightarrow> ([a * 256 + b, c * 256 + d], True, r)
            | _ \<Rightarrow> group))"

definition read_ipv6_addr :: "string \<Rightarrow> (nat list \<times> string) option" where
  "read_ipv6_addr s =
     (case read_groups 0 8 s of (head, ipv4, r) \<Rightarrow>
        if length head = 8 then Some (head, r)
        else if ipv4 then None
        else case r of
          c # d # q \<Rightarrow>
            (if c = CHR '':'' \<and> d = CHR '':'' then
               (case read_groups 0 (7 - length head) q of (tail, _, r') \<Rightarrow>
                  Some (head @ replicate (8 - length head - length tail) 0 @ tail, r'))
             else None)
        | _ \<Rightarrow> None)"

definition parse_ip :: "string \<Rightarrow> ip_addr option" where
  "parse_ip s =
     (case read_ipv4_addr s of
        Some (v, r) \<Rightarrow> if r = [] then Some (V4 v) else None
      | None \<Rightarrow> (case read_ipv6_addr s of
            Some (v, r) \<Rightarrow> if r = [] then Some (V6 v) else None
          | None \<Rightarrow> None))"

section \<open>Facts about splitting\<close>

lemma split_on_nonempty [simp]: "split_on c s \<noteq> []"
  by (induction s) (auto split: list.splits)

text \<open>The parts of a split, each after its separator, are the text after one.\<close>

lemma split_on_join: "concat (map (\<lambda>p. c # p) (split_on c s)) = c # s"
proof (induction s)
  case (Cons x s)
  then show ?case by (cases "split_on c s") (auto split: list.splits)
qed simp

lemma split_on_parts: "p \<in> set (split_on c s) \<Longrightarrow> c \<notin> set p"
proof (induction s arbitrary: p)
  case (Cons x s)
  then show ?case by (cases "split_on c s") (auto split: if_splits)
qed simp

section \<open>Plain text\<close>

text \<open>Text without whitespace or multi-byte characters passes through UTF-8 and trimming unchanged.\<close>

definition plain_char :: "char \<Rightarrow> bool" where
  "plain_char c \<longleftrightarrow> 32 < char_code c \<and> char_code c < 128"

lemma ws_len_plain [simp]: "plain_char c \<Longrightarrow> ws_len (c # s) = 0"
  by (auto simp: plain_char_def ws_len_def split: list.splits)

lemma trim_start_plain [simp]: "plain_char c \<Longrightarrow> trim_start (c # s) = c # s"
  by simp

lemma trim_end_plain: "list_all plain_char s \<Longrightarrow> trim_start w = [] \<Longrightarrow> trim_end (s @ w) = s"
proof (induction s)
  case Nil
  then show ?case by (cases w) auto
qed auto

lemma trim_plain: "list_all plain_char s \<Longrightarrow> s \<noteq> [] \<Longrightarrow> trim_start w = [] \<Longrightarrow> trim (s @ w) = s"
  by (cases s) (auto simp: trim_def trim_end_plain)

lemma utf8_valid_ascii: "list_all (\<lambda>b. b < 128) bs \<Longrightarrow> utf8_valid bs"
  by (induction bs) auto

lemma from_utf8_ascii: "list_all (\<lambda>c. char_code c < 128) s \<Longrightarrow> from_utf8 (bytes_of_string s) = Some s"
proof -
  assume a: "list_all (\<lambda>c. char_code c < 128) s"
  have "unat (of_nat (of_char c) :: u8) = char_code c" for c
    by (simp add: unat_byte_of_nat char_code_def)
  then have "map unat (bytes_of_string s) = map char_code s" "string_of_bytes (bytes_of_string s) = s"
    by (simp_all add: bytes_of_string_def string_of_bytes_def char_code_def o_def)
  with a show ?thesis by (simp add: from_utf8_def utf8_valid_ascii list_all_iff)
qed

end
