(* ===== verification/Nts.thy ===== *)
theory Nts
  imports ExtField RustText
begin

text \<open>
  Network Time Security (\<open>ntp/src/nts.rs\<close>): NTS-KE records and messages, the interpretation
  of a server's response, and the authenticator extension field. The AEAD cipher is a
  parameter (the \<open>aes_siv\<close> crate): every definition that seals or opens takes it as an
  argument, and a theorem that relies on its behaviour says so in a hypothesis.
\<close>

unbundle bit_operations_syntax

section \<open>Constants and keys\<close>

definition NEXT_PROTO_NTPV4 :: u16 where "NEXT_PROTO_NTPV4 = 0"
definition AEAD_AES_SIV_CMAC_256 :: u16 where "AEAD_AES_SIV_CMAC_256 = 15"
definition KEY_LEN :: nat where "KEY_LEN = 32"
definition NONCE_LEN :: nat where "NONCE_LEN = 16"
definition DEFAULT_KE_PORT :: u16 where "DEFAULT_KE_PORT = 4460"
definition DEFAULT_NTP_PORT :: u16 where "DEFAULT_NTP_PORT = 123"
definition MAX_KE_MESSAGE :: nat where "MAX_KE_MESSAGE = 65536"
definition MAX_COOKIE :: nat where "MAX_COOKIE = 1024"
definition COOKIE_TARGET :: nat where "COOKIE_TARGET = 8"

definition exporter_context :: "bool \<Rightarrow> bytes" where
  "exporter_context client_to_server =
     u16_to_be NEXT_PROTO_NTPV4 @ u16_to_be AEAD_AES_SIV_CMAC_256
       @ [if \<not> client_to_server then 1 else 0]"

record nts_keys =
  c2s :: bytes
  s2c :: bytes

section \<open>Records\<close>

definition KE_END_OF_MESSAGE :: u16 where "KE_END_OF_MESSAGE = 0"
definition KE_NEXT_PROTOCOL :: u16 where "KE_NEXT_PROTOCOL = 1"
definition KE_ERROR :: u16 where "KE_ERROR = 2"
definition KE_WARNING :: u16 where "KE_WARNING = 3"
definition KE_AEAD_ALGORITHM :: u16 where "KE_AEAD_ALGORITHM = 4"
definition KE_NEW_COOKIE :: u16 where "KE_NEW_COOKIE = 5"
definition KE_SERVER :: u16 where "KE_SERVER = 6"
definition KE_PORT :: u16 where "KE_PORT = 7"

lemmas ke_type_defs = KE_END_OF_MESSAGE_def KE_NEXT_PROTOCOL_def KE_ERROR_def KE_WARNING_def
  KE_AEAD_ALGORITHM_def KE_NEW_COOKIE_def KE_SERVER_def KE_PORT_def

record ke_record =
  critical :: bool
  record_type :: u16
  body :: bytes

definition record_encode_into :: "ke_record \<Rightarrow> bytes \<Rightarrow> bytes" where
  "record_encode_into r out =
     (let head = record_type r AND 0x7FFF;
          head = (if critical r then head OR 0x8000 else head)
      in out @ u16_to_be head @ u16_to_be (of_nat (length (body r))) @ body r)"

text \<open>
  The loop of \<open>Record::decode_message\<close>: \<open>records\<close> is what it has pushed, \<open>rest\<close> its cursor.
\<close>

function decode_records :: "ke_record list \<Rightarrow> bytes \<Rightarrow> wire_error + ke_record list option" where
  "decode_records records rest =
     (if length rest < 4 then Inr None
      else
        let head = u16_from_be (bslice 0 2 rest);
            body_len = unat (u16_from_be (bslice 2 4 rest))
        in if length rest < 4 + body_len then Inr None
           else
             let record = \<lparr>critical = (head AND 0x8000 \<noteq> 0), record_type = head AND 0x7FFF,
                           body = bslice 4 (4 + body_len) rest\<rparr>;
                 records' = records @ [record]
             in if record_type record = KE_END_OF_MESSAGE then Inr (Some records')
                else if 1024 < length records' then Inl (BadLength (of_nat (length records')))
                else decode_records records' (drop (4 + body_len) rest))"
  by pat_completeness auto
termination
  by (relation "measure (\<lambda>(records, rest). length rest)") auto

declare decode_records.simps [simp del]

definition decode_message :: "bytes \<Rightarrow> wire_error + ke_record list option" where
  "decode_message bytes =
     (if MAX_KE_MESSAGE < length bytes then Inl (BadLength (of_nat (length bytes)))
      else decode_records [] bytes)"

fun u16_chunks :: "bytes \<Rightarrow> u16 list" where
  "u16_chunks (a # b # bs) = u16_from_be [a, b] # u16_chunks bs"
| "u16_chunks _ = []"

definition body_as_u16s :: "ke_record \<Rightarrow> wire_error + u16 list" where
  "body_as_u16s r =
     (if \<not> 2 dvd length (body r) then Inl (BadLength (of_nat (length (body r))))
      else Inr (u16_chunks (body r)))"

definition body_as_u16 :: "ke_record \<Rightarrow> wire_error + u16" where
  "body_as_u16 r =
     (if length (body r) \<noteq> 2 then Inl (BadLength (of_nat (length (body r))))
      else Inr (u16_from_be (bslice 0 2 (body r))))"

definition client_request :: bytes where
  "client_request =
     record_encode_into \<lparr>critical = True, record_type = KE_END_OF_MESSAGE, body = []\<rparr>
      (record_encode_into \<lparr>critical = True, record_type = KE_AEAD_ALGORITHM,
                           body = u16_to_be AEAD_AES_SIV_CMAC_256\<rparr>
        (record_encode_into \<lparr>critical = True, record_type = KE_NEXT_PROTOCOL,
                             body = u16_to_be NEXT_PROTO_NTPV4\<rparr> []))"

section \<open>Interpreting the response\<close>

record negotiated =
  ng_cookies :: "bytes list"
  ng_server :: "string option"
  ng_port :: u16

datatype ke_error =
    ServerError u16
  | UnknownCritical u16
  | NoAgreement string
  | NoCookies
  | Wire wire_error

definition plausible_label :: "string \<Rightarrow> bool" where
  "plausible_label l \<longleftrightarrow> l \<noteq> [] \<and> length l \<le> 63
     \<and> list_all (\<lambda>b. is_ascii_alphanumeric b \<or> b = CHR ''-'' \<or> b = CHR ''_'') l"

definition is_plausible_host :: "string \<Rightarrow> bool" where
  "is_plausible_host name \<longleftrightarrow>
     parse_ip name \<noteq> None
     \<or> (name \<noteq> [] \<and> length name \<le> 253 \<and> list_all plausible_label (split_on CHR ''.'' name))"

text \<open>
  The state of the loop in \<open>interpret\<close>: the outcome so far and the two agreements.
\<close>

record ke_scan =
  ks_out :: negotiated
  ks_protocol :: bool
  ks_aead :: bool

definition interpret_record :: "ke_record \<Rightarrow> ke_scan \<Rightarrow> ke_error + ke_scan" where
  "interpret_record r s =
     (let t = record_type r in
      if t = KE_ERROR then
        (case body_as_u16 r of Inl e \<Rightarrow> Inl (Wire e) | Inr code \<Rightarrow> Inl (ServerError code))
      else if t = KE_WARNING then Inr s
      else if t = KE_NEXT_PROTOCOL then
        (case body_as_u16s r of Inl e \<Rightarrow> Inl (Wire e)
         | Inr ids \<Rightarrow> Inr (s\<lparr>ks_protocol := NEXT_PROTO_NTPV4 \<in> set ids\<rparr>))
      else if t = KE_AEAD_ALGORITHM then
        (case body_as_u16s r of Inl e \<Rightarrow> Inl (Wire e)
         | Inr ids \<Rightarrow> Inr (s\<lparr>ks_aead := AEAD_AES_SIV_CMAC_256 \<in> set ids\<rparr>))
      else if t = KE_NEW_COOKIE then
        (if body r = [] \<or> MAX_COOKIE < length (body r)
         then Inl (Wire (BadLength (of_nat (length (body r)))))
         else if length (ng_cookies (ks_out s)) < COOKIE_TARGET
         then Inr (s\<lparr>ks_out := (ks_out s)\<lparr>ng_cookies := ng_cookies (ks_out s) @ [body r]\<rparr>\<rparr>)
         else Inr s)
      else if t = KE_SERVER then
        (case from_utf8 (body r) of None \<Rightarrow> Inl (NoAgreement ''server name is not text'')
         | Some name \<Rightarrow>
             if \<not> is_plausible_host name then Inl (NoAgreement ''server name is not a host'')
             else Inr (s\<lparr>ks_out := (ks_out s)\<lparr>ng_server := Some name\<rparr>\<rparr>))
      else if t = KE_PORT then
        (case body_as_u16 r of Inl e \<Rightarrow> Inl (Wire e)
         | Inr p \<Rightarrow> Inr (s\<lparr>ks_out := (ks_out s)\<lparr>ng_port := p\<rparr>\<rparr>))
      else if t = KE_END_OF_MESSAGE then Inr s
      else if critical r then Inl (UnknownCritical t)
      else Inr s)"

fun interpret_records :: "ke_record list \<Rightarrow> ke_scan \<Rightarrow> ke_error + ke_scan" where
  "interpret_records [] s = Inr s"
| "interpret_records (r # rs) s = rbind (interpret_record r s) (interpret_records rs)"

definition interpret_response :: "ke_record list \<Rightarrow> ke_error + negotiated" where
  "interpret_response records =
     rbind (interpret_records records
              \<lparr>ks_out = \<lparr>ng_cookies = [], ng_server = None, ng_port = DEFAULT_NTP_PORT\<rparr>,
               ks_protocol = False, ks_aead = False\<rparr>)
       (\<lambda>s. if \<not> ks_protocol s then Inl (NoAgreement ''next protocol'')
            else if \<not> ks_aead s then Inl (NoAgreement ''AEAD algorithm'')
            else if ng_cookies (ks_out s) = [] then Inl NoCookies
            else Inr (ks_out s))"

section \<open>The authenticator\<close>

text \<open>
  The cipher: key, nonce, associated data, then the message or the ciphertext. \<open>None\<close> is the
  crate's opaque error.
\<close>

record aead =
  aead_encrypt :: "bytes \<Rightarrow> bytes \<Rightarrow> bytes \<Rightarrow> bytes \<Rightarrow> bytes option"
  aead_decrypt :: "bytes \<Rightarrow> bytes \<Rightarrow> bytes \<Rightarrow> bytes \<Rightarrow> bytes option"

definition pad_to_four :: "bytes \<Rightarrow> nat \<Rightarrow> bytes" where
  "pad_to_four out written = out @ replicate ((4 - written mod 4) mod 4) 0"

definition seal_authenticator ::
    "aead \<Rightarrow> bytes \<Rightarrow> bytes \<Rightarrow> bytes \<Rightarrow> bytes \<Rightarrow> wire_error + ext_field" where
  "seal_authenticator A key nonce prefix plaintext =
     (case aead_encrypt A key nonce prefix plaintext of
        None \<Rightarrow> Inl NotAuthentic
      | Some ciphertext \<Rightarrow>
          let value = u16_to_be (of_nat NONCE_LEN) @ u16_to_be (of_nat (length ciphertext)) @ nonce;
              value = pad_to_four value NONCE_LEN;
              value = pad_to_four (value @ ciphertext) (length ciphertext)
          in Inr \<lparr>field_type = NTS_AUTHENTICATOR, field_value = value\<rparr>)"

definition next_multiple_of_4 :: "nat \<Rightarrow> nat" where
  "next_multiple_of_4 n = (n + 3) div 4 * 4"

definition open_authenticator ::
    "aead \<Rightarrow> bytes \<Rightarrow> bytes \<Rightarrow> nat \<Rightarrow> bytes \<Rightarrow> wire_error + bytes" where
  "open_authenticator A key whole authenticator_at value =
     (if length whole < authenticator_at then Inl (BadLength (of_nat authenticator_at))
      else if length value < 4 then Inl (Truncated 4 (length value))
      else
        let nonce_len = unat (u16_from_be (bslice 0 2 value));
            ct_len = unat (u16_from_be (bslice 2 4 value));
            nonce_end = 4 + next_multiple_of_4 nonce_len;
            ct_end = nonce_end + next_multiple_of_4 ct_len
        in if nonce_len \<noteq> NONCE_LEN \<or> length value < ct_end then Inl (BadLength (of_nat ct_len))
           else
             let nonce = bslice 4 (4 + nonce_len) value;
                 ciphertext = bslice nonce_end (nonce_end + ct_len) value
             in case aead_decrypt A key nonce (take authenticator_at whole) ciphertext of
                  None \<Rightarrow> Inl NotAuthentic | Some m \<Rightarrow> Inr m)"

section \<open>One record on the wire\<close>

definition ke_ok :: "ke_record \<Rightarrow> bool" where
  "ke_ok r \<longleftrightarrow> record_type r < 0x8000 \<and> length (body r) < 2 ^ 16"

definition record_bytes :: "ke_record \<Rightarrow> bytes" where
  "record_bytes r = record_encode_into r []"

definition record_dec :: "bytes \<Rightarrow> (ke_record \<times> bytes) option" where
  "record_dec rest =
     (if length rest < 4 then None
      else
        let head = u16_from_be (bslice 0 2 rest);
            body_len = unat (u16_from_be (bslice 2 4 rest))
        in if length rest < 4 + body_len then None
           else Some (\<lparr>critical = (head AND 0x8000 \<noteq> 0), record_type = head AND 0x7FFF,
                       body = bslice 4 (4 + body_len) rest\<rparr>, drop (4 + body_len) rest))"

definition head_word :: "ke_record \<Rightarrow> u16" where
  "head_word r = (if critical r then (record_type r AND 0x7FFF) OR 0x8000 else record_type r AND 0x7FFF)"

lemma record_encode_append: "record_encode_into r out = out @ record_bytes r"
  by (simp add: record_encode_into_def record_bytes_def Let_def)

lemma record_bytes_eq:
  "record_bytes r = u16_to_be (head_word r) @ u16_to_be (of_nat (length (body r))) @ body r"
  by (simp add: record_bytes_def record_encode_into_def head_word_def Let_def)

lemma length_record_bytes [wire_simps]: "length (record_bytes r) = 4 + length (body r)"
  by (simp add: record_bytes_eq wire_simps)

lemma mask_15: "(0x7FFF :: u16) = mask 15"
  by (simp add: mask_eq_exp_minus_1)

lemma bit_15: "bit (0x8000 :: int) n \<longleftrightarrow> n = 15"
proof -
  have "bit ((2 :: int) ^ 15) n \<longleftrightarrow> n = 15"
    unfolding bit_exp_iff by auto
  then show ?thesis by simp
qed

lemma and_15: "(x :: u16) AND 0x8000 = 0 \<longleftrightarrow> \<not> bit x 15"
  by (auto simp: bit_eq_iff [of "x AND 0x8000"] bit_and_iff bit_15 dest!: spec [of _ 15])

lemma bit_high: "(x :: u16) < 0x8000 \<Longrightarrow> \<not> bit x 15"
proof
  assume "x < 0x8000" "bit x 15"
  then have "unat x < 2 ^ 15" by (simp add: word_less_nat_alt)
  moreover have "bit (unat x) 15" using \<open>bit x 15\<close> by (simp add: bit_unsigned_iff)
  ultimately show False by (simp add: bit_iff_odd)
qed

lemma head_word_fields:
  "record_type r < 0x8000 \<Longrightarrow> head_word r AND 0x7FFF = record_type r"
  "(head_word r AND 0x8000 \<noteq> 0) = critical r"
proof -
  show "(head_word r AND 0x8000 \<noteq> 0) = critical r"
    by (simp add: head_word_def and_15 bit_and_iff bit_or_iff bit_15 bit_mask_iff mask_15)
  assume "record_type r < 0x8000"
  then have "\<not> bit (record_type r) 15" by (rule bit_high)
  then have *: "n < 15" if "bit (record_type r) n" "n < 16" for n
    using that by (cases "n = 15") auto
  show "head_word r AND 0x7FFF = record_type r"
    by (rule bit_word_eqI)
      (auto simp: head_word_def mask_15 bit_and_iff bit_or_iff bit_mask_iff bit_15 dest: *)
qed

lemma head_word_rebuild:
  "head_word \<lparr>critical = (h AND 0x8000 \<noteq> 0), record_type = h AND 0x7FFF, body = b\<rparr> = h"
proof (rule bit_word_eqI)
  fix n assume "n < LENGTH(16)"
  then have "n < 15 \<or> n = 15" by auto
  then show "bit (head_word \<lparr>critical = (h AND 0x8000 \<noteq> 0), record_type = h AND 0x7FFF, body = b\<rparr>) n
      = bit h n"
    by (auto simp: head_word_def and_15 bit_and_iff bit_or_iff bit_15 mask_15 bit_mask_iff)
qed

lemma and_7FFF_less: "(h :: u16) AND 0x7FFF < 0x8000"
proof -
  have "h AND 0x7FFF \<le> 0x7FFF" by (rule word_and_le1)
  then show ?thesis by (rule order_le_less_trans) simp
qed

lemma record_dec_bytes:
  assumes "ke_ok r"
  shows "record_dec (record_bytes r @ rest) = Some (r, rest)"
proof -
  have len: "unat (of_nat (length (body r)) :: u16) = length (body r)"
    using assms by (simp add: ke_ok_def unat_of_nat)
  have h: "u16_from_be (bslice 0 2 (record_bytes r @ rest)) = head_word r"
    by (simp add: record_bytes_eq bslice_def wire_simps)
  have bl: "u16_from_be (bslice 2 4 (record_bytes r @ rest)) = of_nat (length (body r))"
    by (simp add: record_bytes_eq bslice_def wire_simps)
  have b: "bslice 4 (4 + length (body r)) (record_bytes r @ rest) = body r"
    by (simp add: record_bytes_eq bslice_def wire_simps)
  have d: "drop (4 + length (body r)) (record_bytes r @ rest) = rest"
    by (simp add: wire_simps)
  have t: "record_type r < 0x8000" using assms by (simp add: ke_ok_def)
  show ?thesis
    unfolding record_dec_def h bl len b d Let_def head_word_fields(2) head_word_fields(1) [OF t]
    by (simp add: wire_simps)
qed

lemma record_dec_sound:
  assumes "record_dec bs = Some (r, rest)"
  shows "bs = record_bytes r @ rest \<and> ke_ok r"
proof -
  define h where "h = u16_from_be (bslice 0 2 bs)"
  define l where "l = u16_from_be (bslice 2 4 bs)"
  have n: "4 + unat l \<le> length bs"
    and r: "r = \<lparr>critical = (h AND 0x8000 \<noteq> 0), record_type = h AND 0x7FFF,
                 body = bslice 4 (4 + unat l) bs\<rparr>"
    and rest: "rest = drop (4 + unat l) bs"
    using assms by (auto simp: record_dec_def h_def l_def Let_def split: if_splits)
  have len: "length (body r) = unat l" using n by (simp add: r length_bslice)
  then have ok: "ke_ok r"
    using unsigned_less [of l, where 'a = nat] and_7FFF_less [of h] by (simp add: ke_ok_def r)
  have "record_bytes r = u16_to_be h @ u16_to_be l @ body r"
    unfolding record_bytes_eq len by (simp add: r head_word_rebuild)
  also have "\<dots> = bslice 0 2 bs @ bslice 2 4 bs @ bslice 4 (4 + unat l) bs"
    using n by (simp add: h_def l_def be16.enc_dec length_bslice) (simp add: r h_def l_def)
  also have "\<dots> = take (4 + unat l) bs"
    using n by (simp add: bslice_append flip: bslice_0)
  finally show ?thesis using ok rest by simp
qed

interpretation ke: framed_item ke_ok record_bytes record_dec
proof unfold_locales
  show "record_bytes r \<noteq> []" for r
    using length_record_bytes [of r] by auto
qed (rule record_dec_bytes, assumption, rule record_dec_sound)

section \<open>Messages\<close>

definition is_end :: "ke_record \<Rightarrow> bool" where
  "is_end r \<longleftrightarrow> record_type r = KE_END_OF_MESSAGE"

lemma decode_records_step:
  "decode_records acc rest = (case record_dec rest of
     None \<Rightarrow> Inr None
   | Some (r, rest') \<Rightarrow>
       if is_end r then Inr (Some (acc @ [r]))
       else if 1024 < length (acc @ [r]) then Inl (BadLength (of_nat (length (acc @ [r]))))
       else decode_records (acc @ [r]) rest')"
  by (subst decode_records.simps) (simp add: record_dec_def Let_def is_end_def)

text \<open>A complete message: valid records, the last and only the last an end-of-message.\<close>

definition ke_message :: "ke_record list \<Rightarrow> bool" where
  "ke_message rs \<longleftrightarrow> rs \<noteq> [] \<and> list_all ke_ok rs \<and> is_end (last rs)
     \<and> list_all (\<lambda>r. \<not> is_end r) (butlast rs)"

definition message_bytes :: "ke_record list \<Rightarrow> bytes" where
  "message_bytes rs = concat (map record_bytes rs)"

lemma ke_message_Cons:
  "ke_message (r # rs) \<longleftrightarrow> ke_ok r \<and> (if rs = [] then is_end r else \<not> is_end r \<and> ke_message rs)"
  by (auto simp: ke_message_def)

lemma decode_records_complete:
  "ke_message rs \<Longrightarrow> length acc + length rs \<le> 1025 \<Longrightarrow>
   decode_records acc (message_bytes rs @ rest) = Inr (Some (acc @ rs))"
proof (induction rs arbitrary: acc)
  case Nil
  then show ?case by (simp add: ke_message_def)
next
  case (Cons r rs)
  then show ?case
    by (subst decode_records_step)
      (auto simp: message_bytes_def ke_message_Cons ke.item_dec_enc neq_Nil_conv split: if_splits)
qed

lemma record_dec_prefix:
  assumes "n < length (record_bytes r @ rest)" "record_dec (take n (record_bytes r @ rest)) = Some (r', q)"
    "ke_ok r"
  shows "r' = r \<and> q = take (n - length (record_bytes r)) rest \<and> length (record_bytes r) \<le> n"
proof -
  let ?p = "take n (record_bytes r @ rest)"
  have *: "?p = record_bytes r' @ q" "ke_ok r'" using record_dec_sound [OF assms(2)] by auto
  have "record_bytes r' @ (q @ drop n (record_bytes r @ rest)) = record_bytes r @ rest"
    unfolding append_assoc [symmetric] *(1) [symmetric] by (rule append_take_drop_id)
  from ke.item_prefix_unique [OF *(2) assms(3) this]
  have r: "r' = r" and q: "q @ drop n (record_bytes r @ rest) = rest" by auto
  have len: "length (record_bytes r) + length q = n"
    using arg_cong [OF *(1), of length] assms(1) r by simp
  then have "q = take (length q) rest" using q by (metis append_eq_conv_conj)
  with len r show ?thesis by auto
qed

lemma decode_records_prefix:
  "ke_message rs \<Longrightarrow> length acc + length rs \<le> 1025 \<Longrightarrow> n < length (message_bytes rs) \<Longrightarrow>
   decode_records acc (take n (message_bytes rs)) = Inr None"
proof (induction rs arbitrary: acc n)
  case Nil
  then show ?case by (simp add: ke_message_def)
next
  case (Cons r rs)
  let ?p = "take n (record_bytes r @ message_bytes rs)"
  have mb: "message_bytes (r # rs) = record_bytes r @ message_bytes rs" by (simp add: message_bytes_def)
  show ?case
  proof (cases "record_dec ?p")
    case None
    then show ?thesis by (subst decode_records_step) (simp add: mb del: take_append)
  next
    case (Some x)
    obtain r' q where x: "x = (r', q)" by (cases x)
    have ok: "ke_ok r" using Cons.prems(1) by (simp add: ke_message_Cons)
    have *: "r' = r" "q = take (n - length (record_bytes r)) (message_bytes rs)"
        "length (record_bytes r) \<le> n"
      using record_dec_prefix [OF _ _ ok, of n "message_bytes rs" r' q] Some x Cons.prems(3)
      by (auto simp: mb)
    have rs: "rs \<noteq> []" using *(3) Cons.prems(3) by (auto simp: mb message_bytes_def)
    then have msg: "ke_message rs" and nend: "\<not> is_end r" using Cons.prems(1) by (auto simp: ke_message_Cons)
    have "decode_records (acc @ [r]) q = Inr None"
      unfolding *(2) using Cons.prems *(3) by (intro Cons.IH [OF msg]) (auto simp: mb)
    moreover have "length (acc @ [r]) \<le> 1024" using Cons.prems(2) rs by (cases rs) auto
    ultimately show ?thesis
      using Some nend by (subst decode_records_step) (simp add: mb x *(1) del: take_append)
  qed
qed

lemma decode_records_sound:
  "decode_records acc bs = Inr (Some rs) \<Longrightarrow> length acc \<le> 1024 \<Longrightarrow>
   \<exists>new rest. rs = acc @ new \<and> ke_message new \<and> bs = message_bytes new @ rest \<and> length rs \<le> 1025"
proof (induction acc bs rule: decode_records.induct)
  case (1 acc rest)
  obtain r rest' where d: "record_dec rest = Some (r, rest')"
    using "1.prems"(1) by (subst (asm) decode_records_step) (auto split: option.splits)
  have s: "rest = record_bytes r @ rest'" "ke_ok r" using record_dec_sound [OF d] by auto
  show ?case
  proof (cases "is_end r")
    case True
    then have "rs = acc @ [r]" using "1.prems"(1) d by (subst (asm) decode_records_step) simp
    with True s "1.prems"(2) show ?thesis
      by (intro exI [of _ "[r]"] exI [of _ rest']) (simp add: ke_message_Cons message_bytes_def)
  next
    case False
    have len: "length (acc @ [r]) \<le> 1024" and rec: "decode_records (acc @ [r]) rest' = Inr (Some rs)"
      using "1.prems"(1) d False by (subst (asm) decode_records_step; auto split: if_splits)+
    have "\<exists>new q. rs = (acc @ [r]) @ new \<and> ke_message new \<and> rest' = message_bytes new @ q \<and> length rs \<le> 1025"
      using "1.IH" d False len rec unfolding record_dec_def
      by (auto simp: Let_def is_end_def split: if_splits)
    then obtain new q where "rs = (acc @ [r]) @ new" "ke_message new" "rest' = message_bytes new @ q"
        "length rs \<le> 1025" by blast
    with s False show ?thesis
      by (intro exI [of _ "r # new"] exI [of _ q])
        (auto simp: ke_message_Cons message_bytes_def, auto simp: ke_message_def)
  qed
qed

section \<open>What an accepted response guarantees\<close>

definition known_record :: "u16 \<Rightarrow> bool" where
  "known_record t \<longleftrightarrow> t \<le> KE_PORT"

definition of_type :: "u16 \<Rightarrow> ke_record list \<Rightarrow> ke_record list" where
  "of_type t rs = filter (\<lambda>r. record_type r = t) rs"

text \<open>The last record of a type decides whether its ids include the one asked for.\<close>

definition agreed :: "u16 \<Rightarrow> u16 \<Rightarrow> ke_record list \<Rightarrow> bool \<Rightarrow> bool" where
  "agreed t v rs d =
     (if of_type t rs = [] then d else v \<in> set (u16_chunks (body (last (of_type t rs)))))"

lemma agreed_Cons:
  "agreed t v (r # rs) d = agreed t v rs (if record_type r = t then v \<in> set (u16_chunks (body r)) else d)"
  by (simp add: agreed_def of_type_def)

lemma interpret_record_ok:
  assumes "interpret_record r s = Inr s'"
  shows "record_type r \<noteq> KE_ERROR" "critical r \<Longrightarrow> known_record (record_type r)"
    and "ks_protocol s' = agreed KE_NEXT_PROTOCOL NEXT_PROTO_NTPV4 [r] (ks_protocol s)"
    and "ks_aead s' = agreed KE_AEAD_ALGORITHM AEAD_AES_SIV_CMAC_256 [r] (ks_aead s)"
    and "record_type r = KE_NEW_COOKIE \<Longrightarrow> body r \<noteq> [] \<and> length (body r) \<le> MAX_COOKIE"
    and "ng_cookies (ks_out s') =
          (if record_type r = KE_NEW_COOKIE \<and> length (ng_cookies (ks_out s)) < COOKIE_TARGET
           then ng_cookies (ks_out s) @ [body r] else ng_cookies (ks_out s))"
    and "\<forall>n. ng_server (ks_out s') = Some n \<longrightarrow> ng_server (ks_out s) = Some n \<or> is_plausible_host n"
  using assms
  by (auto simp: interpret_record_def Let_def ke_type_defs agreed_def of_type_def body_as_u16s_def
                 known_record_def split: if_splits sum.splits option.splits)

lemma take_push: "k < n \<Longrightarrow> take (n - k) (b # bs) = b # take (n - Suc k) bs"
  by (simp add: take_Cons' Suc_diff_Suc)

lemma interpret_records_ok:
  "interpret_records rs s = Inr s' \<Longrightarrow>
     (\<forall>r\<in>set rs. record_type r \<noteq> KE_ERROR \<and> (critical r \<longrightarrow> known_record (record_type r)))
   \<and> ks_protocol s' = agreed KE_NEXT_PROTOCOL NEXT_PROTO_NTPV4 rs (ks_protocol s)
   \<and> ks_aead s' = agreed KE_AEAD_ALGORITHM AEAD_AES_SIV_CMAC_256 rs (ks_aead s)
   \<and> (\<forall>r\<in>set (of_type KE_NEW_COOKIE rs). body r \<noteq> [] \<and> length (body r) \<le> MAX_COOKIE)
   \<and> (length (ng_cookies (ks_out s)) \<le> COOKIE_TARGET \<longrightarrow>
        ng_cookies (ks_out s')
          = take COOKIE_TARGET (ng_cookies (ks_out s) @ map body (of_type KE_NEW_COOKIE rs)))
   \<and> (\<forall>n. ng_server (ks_out s') = Some n \<longrightarrow> ng_server (ks_out s) = Some n \<or> is_plausible_host n)"
proof (induction rs arbitrary: s)
  case Nil
  then show ?case by (simp add: agreed_def of_type_def)
next
  case (Cons r rs)
  then obtain s1 where s1: "interpret_record r s = Inr s1" "interpret_records rs s1 = Inr s'"
    by (auto simp: rbind_Inr_iff)
  note step = interpret_record_ok [OF s1(1)] and rest = Cons.IH [OF s1(2)]
  have ag: "agreed t v rs (agreed t v [r] d) = agreed t v (r # rs) d" for t v d
    by (simp add: agreed_def of_type_def)
  show ?case
  proof (intro conjI)
    show "length (ng_cookies (ks_out s)) \<le> COOKIE_TARGET \<longrightarrow>
        ng_cookies (ks_out s')
          = take COOKIE_TARGET (ng_cookies (ks_out s) @ map body (of_type KE_NEW_COOKIE (r # rs)))"
      using rest step(6) by (auto simp: of_type_def take_push not_less)
    show "ks_protocol s' = agreed KE_NEXT_PROTOCOL NEXT_PROTO_NTPV4 (r # rs) (ks_protocol s)"
      using rest step(3) by (simp add: ag)
    show "ks_aead s' = agreed KE_AEAD_ALGORITHM AEAD_AES_SIV_CMAC_256 (r # rs) (ks_aead s)"
      using rest step(4) by (simp add: ag)
    show "\<forall>r\<in>set (of_type KE_NEW_COOKIE (r # rs)). body r \<noteq> [] \<and> length (body r) \<le> MAX_COOKIE"
      using rest step(5) by (simp add: of_type_def)
    show "\<forall>q\<in>set (r # rs). record_type q \<noteq> KE_ERROR \<and> (critical q \<longrightarrow> known_record (record_type q))"
      using rest step(1,2) by simp
    show "\<forall>n. ng_server (ks_out s') = Some n \<longrightarrow> ng_server (ks_out s) = Some n \<or> is_plausible_host n"
      using rest step(7) by blast
  qed
qed

section \<open>The authenticator's layout\<close>

lemma next_multiple_of_4_pad: "next_multiple_of_4 n = n + (4 - n mod 4) mod 4"
proof -
  define q r where "q = n div 4" and "r = n mod 4"
  then have n: "n = 4 * q + r" and "r < 4" by simp_all
  then have "r = 0 \<or> r = 1 \<or> r = 2 \<or> r = 3" by linarith
  moreover have "(n + 3) div 4 = q + (r + 3) div 4" unfolding n by simp
  moreover have "n mod 4 = r" by (simp add: r_def)
  ultimately show ?thesis by (auto simp: next_multiple_of_4_def n)
qed

lemma seal_value:
  assumes "aead_encrypt A k n aad m = Some c" "length n = 16"
  shows "seal_authenticator A k n aad m = Inr \<lparr>field_type = NTS_AUTHENTICATOR,
     field_value = u16_to_be 16 @ u16_to_be (of_nat (length c)) @ n @ c
       @ replicate ((4 - length c mod 4) mod 4) 0\<rparr>"
  using assms by (simp add: seal_authenticator_def pad_to_four_def NONCE_LEN_def Let_def)

lemma open_value:
  assumes "length n = 16" "length c < 2 ^ 16" "(4 - length c mod 4) mod 4 \<le> length p"
  shows "open_authenticator A k (aad @ rest) (length aad)
           (u16_to_be 16 @ u16_to_be (of_nat (length c)) @ n @ c @ p)
       = (case aead_decrypt A k n aad c of None \<Rightarrow> Inl NotAuthentic | Some m \<Rightarrow> Inr m)"
proof -
  let ?v = "u16_to_be 16 @ u16_to_be (of_nat (length c)) @ n @ c @ p"
  have nl: "unat (u16_from_be (bslice 0 2 ?v)) = 16"
    by (simp add: bslice_def wire_simps)
  have cl: "unat (u16_from_be (bslice 2 4 ?v)) = length c"
    using assms(2) by (simp add: bslice_def wire_simps unat_of_nat)
  have ns: "bslice 4 20 ?v = n" using assms(1) by (simp add: bslice_def wire_simps)
  have cs: "bslice 20 (20 + length c) ?v = c" using assms(1) by (simp add: bslice_def wire_simps)
  have n4: "next_multiple_of_4 16 = 16" by (simp add: next_multiple_of_4_def)
  show ?thesis
    unfolding open_authenticator_def nl cl Let_def n4 NONCE_LEN_def
    using assms by (simp add: ns cs wire_simps next_multiple_of_4_pad)
qed

definition declared_nonce :: "bytes \<Rightarrow> bytes" where
  "declared_nonce v = bslice 4 20 v"

definition declared_ct_end :: "bytes \<Rightarrow> nat" where
  "declared_ct_end v = 20 + unat (u16_from_be (bslice 2 4 v))"

lemma open_authenticator_ok:
  assumes "open_authenticator A k whole a v = Inr m"
  shows "a \<le> length whole" "length (declared_nonce v) = NONCE_LEN" "declared_ct_end v \<le> length v"
    and "aead_decrypt A k (declared_nonce v) (take a whole) (bslice 20 (declared_ct_end v) v) = Some m"
    and "bslice 0 2 v = u16_to_be 16"
proof -
  have n: "unat (u16_from_be (bslice 0 2 v)) = 16" and n4: "next_multiple_of_4 16 = 16"
    and len: "20 + next_multiple_of_4 (unat (u16_from_be (bslice 2 4 v))) \<le> length v"
    using assms by (auto simp: open_authenticator_def Let_def NONCE_LEN_def next_multiple_of_4_def
                    split: if_splits)
  show "a \<le> length whole" "declared_ct_end v \<le> length v" "length (declared_nonce v) = NONCE_LEN"
    using assms len
    by (auto simp: open_authenticator_def declared_ct_end_def declared_nonce_def length_bslice
                   NONCE_LEN_def next_multiple_of_4_pad split: if_splits)
  show "aead_decrypt A k (declared_nonce v) (take a whole) (bslice 20 (declared_ct_end v) v) = Some m"
    using assms n n4 unfolding open_authenticator_def Let_def declared_nonce_def declared_ct_end_def
      NONCE_LEN_def by (auto split: if_splits option.splits)
  have "u16_from_be (bslice 0 2 v) = 16" using n by (simp add: word_unat_eq_iff)
  then have "u16_to_be (u16_from_be (bslice 0 2 v)) = u16_to_be 16" by simp
  then show "bslice 0 2 v = u16_to_be 16"
    using len by (simp add: be16.enc_dec length_bslice)
qed

lemma authenticator_front:
  assumes "bslice 0 2 v = u16_to_be 16" "declared_ct_end v \<le> length v"
  shows "take (declared_ct_end v) v = u16_to_be 16
     @ u16_to_be (of_nat (length (bslice 20 (declared_ct_end v) v)))
     @ declared_nonce v @ bslice 20 (declared_ct_end v) v"
proof -
  let ?l = "u16_from_be (bslice 2 4 v)"
  have le: "20 \<le> declared_ct_end v" by (simp add: declared_ct_end_def)
  have "length (bslice 20 (declared_ct_end v) v) = unat ?l"
    using assms(2) by (simp add: length_bslice declared_ct_end_def)
  then have "u16_to_be (of_nat (length (bslice 20 (declared_ct_end v) v))) = u16_to_be ?l" by simp
  also have "\<dots> = bslice 2 4 v" using assms(2) le by (simp add: be16.enc_dec length_bslice)
  finally show ?thesis
    using le unfolding declared_nonce_def assms(1) [symmetric]
    by (simp add: bslice_append flip: bslice_0)
qed

section \<open>Properties\<close>

text \<open>
  NTS-KE framing: a complete message is read back whatever the stream delivers after it,
  and every strict prefix of it is reported as not yet complete, never as an error and never
  as a shorter message, so the caller's read loop ends exactly at the end-of-message record.
\<close>
theorem ke_message_framing:
  assumes "ke_message rs" "length rs \<le> 1025" "length (message_bytes rs @ rest) \<le> MAX_KE_MESSAGE"
  shows "decode_message (message_bytes rs @ rest) = Inr (Some rs)
     \<and> (\<forall>n < length (message_bytes rs). decode_message (take n (message_bytes rs)) = Inr None)"
  using assms decode_records_complete [OF assms(1), of "[]" rest]
    decode_records_prefix [OF assms(1), of "[]"]
  by (simp add: decode_message_def)

theorem ke_message_framing_witness:
  "client_request = message_bytes
      [\<lparr>critical = True, record_type = KE_NEXT_PROTOCOL, body = [0, 0]\<rparr>,
       \<lparr>critical = True, record_type = KE_AEAD_ALGORITHM, body = [0, 15]\<rparr>,
       \<lparr>critical = True, record_type = KE_END_OF_MESSAGE, body = []\<rparr>]
   \<and> decode_message client_request = Inr (Some
      [\<lparr>critical = True, record_type = KE_NEXT_PROTOCOL, body = [0, 0]\<rparr>,
       \<lparr>critical = True, record_type = KE_AEAD_ALGORITHM, body = [0, 15]\<rparr>,
       \<lparr>critical = True, record_type = KE_END_OF_MESSAGE, body = []\<rparr>])
   \<and> decode_message (take 15 client_request) = Inr None"
proof -
  let ?rs = "[\<lparr>critical = True, record_type = KE_NEXT_PROTOCOL, body = [0, 0]\<rparr>,
       \<lparr>critical = True, record_type = KE_AEAD_ALGORITHM, body = [0, 15]\<rparr>,
       \<lparr>critical = True, record_type = KE_END_OF_MESSAGE, body = []\<rparr>] :: ke_record list"
  have "u16_to_be 0 = [0, 0]" "u16_to_be 15 = [0, 15]" by code_simp+
  then have eq: "client_request = message_bytes ?rs"
    by (simp add: client_request_def record_encode_append message_bytes_def NEXT_PROTO_NTPV4_def
                  AEAD_AES_SIV_CMAC_256_def)
  have "ke_message ?rs" by (simp add: ke_message_def ke_ok_def is_end_def ke_type_defs)
  moreover have len: "length (message_bytes ?rs) = 16" by (simp add: message_bytes_def wire_simps)
  ultimately show ?thesis
    using ke_message_framing [of ?rs "[]"] by (auto simp: eq MAX_KE_MESSAGE_def)
qed

text \<open>
  Decoding is exact: records returned for a message re-encode to the bytes it was read
  from, end with the one end-of-message record, and number at most 1,025.
\<close>
theorem ke_decode_sound:
  assumes "decode_message bs = Inr (Some rs)"
  shows "ke_message rs \<and> take (length (message_bytes rs)) bs = message_bytes rs
     \<and> length rs \<le> 1025 \<and> length bs \<le> MAX_KE_MESSAGE"
  using assms decode_records_sound [of "[]" bs rs] by (auto simp: decode_message_def split: if_splits)

theorem ke_decode_sound_witness:
  "decode_message [128, 0, 0, 0, 7] = Inr (Some [\<lparr>critical = True, record_type = 0, body = []\<rparr>])
   \<and> take 4 [128, 0, 0, 0, 7] = message_bytes [\<lparr>critical = True, record_type = 0, body = []\<rparr>]"
proof -
  have be: "u16_to_be 0 = [0, 0]" "u16_to_be 0x8000 = [128, 0]"
    unfolding u16_to_be_def numeral_2_eq_2 to_be.simps by simp_all
  let ?rs = "[\<lparr>critical = True, record_type = 0, body = []\<rparr>] :: ke_record list"
  have mb: "message_bytes ?rs = [128, 0, 0, 0]"
    unfolding message_bytes_def record_bytes_eq head_word_def by (simp add: be)
  have "ke_message ?rs" by (simp add: ke_message_def ke_ok_def is_end_def KE_END_OF_MESSAGE_def)
  from decode_records_complete [OF this, of "[]" "[7]"]
  have d: "decode_message [128, 0, 0, 0, 7] = Inr (Some ?rs)"
    unfolding mb by (simp add: decode_message_def MAX_KE_MESSAGE_def)
  from ke_decode_sound [OF d] d show ?thesis by (simp add: mb)
qed

lemma interpret_response_ok:
  assumes "interpret_response rs = Inr ng"
  shows "(\<forall>r\<in>set rs. record_type r \<noteq> KE_ERROR \<and> (critical r \<longrightarrow> known_record (record_type r)))
     \<and> agreed KE_NEXT_PROTOCOL NEXT_PROTO_NTPV4 rs False
     \<and> agreed KE_AEAD_ALGORITHM AEAD_AES_SIV_CMAC_256 rs False
     \<and> ng_cookies ng = take COOKIE_TARGET (map body (of_type KE_NEW_COOKIE rs))
     \<and> ng_cookies ng \<noteq> []
     \<and> (\<forall>c\<in>set (ng_cookies ng). c \<noteq> [] \<and> length c \<le> MAX_COOKIE)
     \<and> (\<forall>n. ng_server ng = Some n \<longrightarrow> is_plausible_host n)"
proof -
  obtain s where s: "interpret_records rs
        \<lparr>ks_out = \<lparr>ng_cookies = [], ng_server = None, ng_port = DEFAULT_NTP_PORT\<rparr>,
         ks_protocol = False, ks_aead = False\<rparr> = Inr s"
      and ng: "ks_protocol s" "ks_aead s" "ng_cookies (ks_out s) \<noteq> []" "ng = ks_out s"
    using assms by (auto simp: interpret_response_def rbind_Inr_iff split: if_splits)
  from interpret_records_ok [OF s] ng show ?thesis by (fastforce dest!: in_set_takeD)
qed

text \<open>
  A KE response is accepted only if it holds no error record and no unknown critical one,
  its last next-protocol record lists NTPv4 and its last AEAD record lists the algorithm
  offered; what is kept is its first eight cookies, at least one, each of 1 to 1,024 bytes,
  and a server name that is a plausible host.
\<close>
theorem interpret_guarantees:
  assumes "interpret_response rs = Inr ng"
  shows "(\<forall>r\<in>set rs. record_type r \<noteq> KE_ERROR \<and> (critical r \<longrightarrow> known_record (record_type r)))
     \<and> agreed KE_NEXT_PROTOCOL NEXT_PROTO_NTPV4 rs False
     \<and> agreed KE_AEAD_ALGORITHM AEAD_AES_SIV_CMAC_256 rs False
     \<and> ng_cookies ng = take COOKIE_TARGET (map body (of_type KE_NEW_COOKIE rs))
     \<and> ng_cookies ng \<noteq> []
     \<and> (\<forall>c\<in>set (ng_cookies ng). c \<noteq> [] \<and> length c \<le> MAX_COOKIE)
     \<and> (\<forall>n. ng_server ng = Some n \<longrightarrow> is_plausible_host n)"
  using assms by (rule interpret_response_ok)

theorem interpret_guarantees_witness:
  "interpret_response
     [\<lparr>critical = True, record_type = 1, body = [0, 0]\<rparr>, \<lparr>critical = True, record_type = 4, body = [0, 15]\<rparr>,
      \<lparr>critical = False, record_type = 5, body = [7, 8]\<rparr>, \<lparr>critical = True, record_type = 0, body = []\<rparr>]
   = Inr \<lparr>ng_cookies = [[7, 8]], ng_server = None, ng_port = 123\<rparr>
   \<and> length ([7, 8] :: bytes) \<le> MAX_COOKIE"
proof -
  let ?rs = "[\<lparr>critical = True, record_type = 1, body = [0, 0]\<rparr>, \<lparr>critical = True, record_type = 4, body = [0, 15]\<rparr>,
      \<lparr>critical = False, record_type = 5, body = [7, 8]\<rparr>, \<lparr>critical = True, record_type = 0, body = []\<rparr>] :: ke_record list"
  have "interpret_response ?rs = Inr \<lparr>ng_cookies = [[7, 8]], ng_server = None, ng_port = 123\<rparr>"
    by code_simp
  from interpret_guarantees [OF this] this show ?thesis by simp
qed

text \<open>
  Opening what was sealed returns the plaintext, for the prefix it was sealed over and
  whatever follows the field, when decryption inverts encryption and the ciphertext fits its
  16-bit length.
\<close>
theorem authenticator_round_trip:
  assumes "\<And>k n a m c. aead_encrypt A k n a m = Some c \<Longrightarrow> aead_decrypt A k n a c = Some m"
    and "seal_authenticator A k n prefix m = Inr f" "length n = NONCE_LEN"
    and "\<And>c. aead_encrypt A k n prefix m = Some c \<Longrightarrow> length c < 2 ^ 16"
  shows "open_authenticator A k (prefix @ rest) (length prefix) (field_value (pad_field f)) = Inr m"
proof -
  obtain c where c: "aead_encrypt A k n prefix m = Some c"
    using assms(2) by (auto simp: seal_authenticator_def split: option.splits)
  have n: "length n = 16" using assms(3) by (simp add: NONCE_LEN_def)
  obtain p where "field_value (pad_field f)
      = u16_to_be 16 @ u16_to_be (of_nat (length c)) @ n @ c @ p"
    and "(4 - length c mod 4) mod 4 \<le> length p"
    using assms(2) seal_value [OF c n] by (auto simp: pad_field_def)
  then show ?thesis using open_value [OF n assms(4) [OF c]] assms(1) [OF c] by simp
qed

text \<open>A cipher that satisfies the laws, for the witnesses: the ciphertext carries its inputs.\<close>

definition toy_tag :: "bytes \<Rightarrow> bytes \<Rightarrow> bytes \<Rightarrow> bytes" where
  "toy_tag k n a = of_nat (length k) # of_nat (length n) # of_nat (length a) # k @ n @ a"

definition toy_aead :: aead where
  "toy_aead = \<lparr>aead_encrypt = (\<lambda>k n a m. Some (toy_tag k n a @ m)),
     aead_decrypt = (\<lambda>k n a c. if take (length (toy_tag k n a)) c = toy_tag k n a
                        then Some (drop (length (toy_tag k n a)) c) else None)\<rparr>"

lemma toy_aead_inverts: "aead_encrypt toy_aead k n a m = Some c \<Longrightarrow> aead_decrypt toy_aead k n a c = Some m"
  by (auto simp: toy_aead_def)

theorem authenticator_round_trip_witness:
  "open_authenticator toy_aead (replicate 32 1) ([9, 9, 9] @ [5]) (length [9, 9, 9 :: u8])
     (field_value (pad_field \<lparr>field_type = NTS_AUTHENTICATOR,
        field_value = u16_to_be 16 @ u16_to_be (of_nat 56) @ replicate 16 2
          @ toy_tag (replicate 32 1) (replicate 16 2) [9, 9, 9] @ [4, 4]\<rparr>)) = Inr [4, 4]"
proof -
  let ?k = "replicate 32 1 :: bytes" and ?n = "replicate 16 2 :: bytes"
  have e: "aead_encrypt toy_aead ?k ?n [9, 9, 9] [4, 4] = Some (toy_tag ?k ?n [9, 9, 9] @ [4, 4])"
    by (simp add: toy_aead_def)
  have l: "length (toy_tag ?k ?n [9, 9, 9]) = 54" by (simp add: toy_tag_def)
  show "open_authenticator toy_aead ?k ([9, 9, 9] @ [5]) (length [9, 9, 9 :: u8])
     (field_value (pad_field \<lparr>field_type = NTS_AUTHENTICATOR,
        field_value = u16_to_be 16 @ u16_to_be (of_nat 56) @ ?n
          @ toy_tag ?k ?n [9, 9, 9] @ [4, 4]\<rparr>)) = Inr [4, 4]"
    by (rule authenticator_round_trip [where n = ?n])
      (use toy_aead_inverts e l seal_value [OF e] in \<open>auto simp: NONCE_LEN_def\<close>)
qed

lemma toy_aead_binds: "aead_decrypt toy_aead k n a c = Some m \<Longrightarrow> aead_encrypt toy_aead k n a m = Some c"
  by (simp add: toy_aead_def split: if_splits) (metis append_take_drop_id)

text \<open>
  An authenticator opens only for a packet that was sealed: if the cipher decrypts nothing
  but what it encrypts under the same key, nonce and associated data, then sealing the returned
  plaintext over exactly the bytes before the field, under the field's nonce, yields this very
  field, padding apart. No byte of the packet before the field can have been altered.
\<close>
theorem authenticator_binds_prefix:
  assumes "\<And>k n a m c. aead_decrypt A k n a c = Some m \<Longrightarrow> aead_encrypt A k n a m = Some c"
    and "open_authenticator A k whole authenticator_at value = Inr m"
  shows "authenticator_at \<le> length whole \<and> declared_ct_end value \<le> length value
    \<and> (\<exists>f. seal_authenticator A k (declared_nonce value) (take authenticator_at whole) m = Inr f
         \<and> take (declared_ct_end value) (field_value f) = take (declared_ct_end value) value)"
proof -
  note ok = open_authenticator_ok [OF assms(2)]
  have n: "length (declared_nonce value) = 16" using ok(2) by (simp add: NONCE_LEN_def)
  have len: "length (take (declared_ct_end value) value) = declared_ct_end value" using ok(3) by simp
  show ?thesis
    using ok(1,3) seal_value [OF assms(1) [OF ok(4)] n] authenticator_front [OF ok(5) ok(3)] len
    by (auto simp: declared_ct_end_def)
qed

theorem authenticator_binds_prefix_witness:
  "take (declared_ct_end (u16_to_be 16 @ u16_to_be 54 @ replicate 16 2
      @ toy_tag (replicate 32 1) (replicate 16 2) [9, 9, 9]))
     (u16_to_be 16 @ u16_to_be 54 @ replicate 16 2 @ toy_tag (replicate 32 1) (replicate 16 2) [9, 9, 9])
   = u16_to_be 16 @ u16_to_be 54 @ replicate 16 2 @ toy_tag (replicate 32 1) (replicate 16 2) [9, 9, 9]
   \<and> (\<exists>f. seal_authenticator toy_aead (replicate 32 1) (replicate 16 2) (take 3 [9, 9, 9, 5]) [] = Inr f)"
proof -
  let ?k = "replicate 32 1 :: bytes" and ?n = "replicate 16 2 :: bytes"
  let ?v = "u16_to_be 16 @ u16_to_be (of_nat (length (toy_tag ?k ?n [9, 9, 9]))) @ ?n
              @ toy_tag ?k ?n [9, 9, 9] @ [0, 0]"
  have l: "length (toy_tag ?k ?n [9, 9, 9]) = 54" by (simp add: toy_tag_def)
  have "open_authenticator toy_aead ?k ([9, 9, 9] @ [5]) (length [9, 9, 9 :: u8]) ?v = Inr []"
    by (subst open_value) (simp_all add: l, simp add: toy_aead_def)
  from authenticator_binds_prefix [OF toy_aead_binds this]
  show ?thesis
    by (auto simp: declared_nonce_def declared_ct_end_def bslice_def wire_simps l)
qed

end
