(* ===== verification/PollSource.thy ===== *)
theory PollSource
  imports NtpPacket Nts ClockFilter
begin

text \<open>
  One polled server (\<open>timed/src/source.rs\<close>): building requests, accepting or refusing replies,
  reachability, poll scheduling and back-off. Random draws are arguments (\<open>None\<close> where the
  kernel's generator fails), the AEAD cipher is a parameter, and every operation returns the
  source it leaves behind.
\<close>

section \<open>State\<close>

definition UNIQUE_ID_LEN :: nat where "UNIQUE_ID_LEN = 32"
definition DEFAULT_MIN_POLL :: int where "DEFAULT_MIN_POLL = 6"
definition DEFAULT_MAX_POLL :: int where "DEFAULT_MAX_POLL = 10"
definition POLL_FLOOR :: int where "POLL_FLOOR = 4"
definition POLL_CEILING :: int where "POLL_CEILING = 17"
definition MAX_DELAY :: f64 where "MAX_DELAY = lit 1"
definition BURST :: nat where "BURST = 4"
definition REPLY_TIMEOUT :: f64 where "REPLY_TIMEOUT = lit 5"

record pending =
  pd_transmit :: ntp_timestamp
  pd_origin :: ntp_timestamp
  pd_unique_id :: "bytes option"
  pd_s2c :: "bytes option"
  pd_sent_at :: f64

datatype rejected =
    Malformed wire_error
  | NotAReply
  | WrongOrigin
  | WrongIdentifier
  | BadTag
  | ServerUnsynchronised
  | Kiss reference_id
  | Unusable sample_error

datatype security =
    NtsKeyed nts_keys "bytes list"
  | NtsPending
  | Unauthenticated

fun is_nts :: "security \<Rightarrow> bool" where
  "is_nts (NtsKeyed k cs) = True"
| "is_nts NtsPending = True"
| "is_nts Unauthenticated = False"

fun cookie_count :: "security \<Rightarrow> nat" where
  "cookie_count (NtsKeyed k cs) = length cs"
| "cookie_count NtsPending = 0"
| "cookie_count Unauthenticated = 0"

text \<open>What a note says; \<open>NoteRejected\<close> and \<open>NoteRefused\<close> stand for the texts of a rejection and a kiss code.\<close>

datatype source_note =
    NoReplyForEight
  | RateLimitedKiss
  | NoteText string
  | NoteRejected rejected
  | NoteRefused reference_id

record source =
  src_name :: string
  src_address :: socket_addr
  src_security :: security
  src_filter :: clock_filter
  src_reach :: u8
  src_poll :: int
  src_min_poll :: int
  src_max_poll :: int
  src_next_poll :: f64
  src_pending :: "pending option"
  src_burst :: nat
  src_stratum :: u8
  src_leap :: leap_indicator
  src_reference_id :: reference_id
  src_root_delay :: f64
  src_root_dispersion :: f64
  src_precision :: int
  src_last_reply :: "f64 option"
  src_note :: "source_note option"
  src_rate_limited :: bool

definition clamp_int :: "int \<Rightarrow> int \<Rightarrow> int \<Rightarrow> int" where
  "clamp_int x lo hi = (if x < lo then lo else if hi < x then hi else x)"

definition source_new :: "string \<Rightarrow> socket_addr \<Rightarrow> security \<Rightarrow> int \<Rightarrow> int \<Rightarrow> source" where
  "source_new name address security lo hi =
     (let min_poll = clamp_int lo POLL_FLOOR POLL_CEILING;
          max_poll = clamp_int hi min_poll POLL_CEILING
      in \<lparr>src_name = name, src_address = address, src_security = security,
          src_filter = filter_new, src_reach = 0, src_poll = min_poll, src_min_poll = min_poll,
          src_max_poll = max_poll, src_next_poll = fzero, src_pending = None, src_burst = BURST,
          src_stratum = 16, src_leap = Unsynchronised, src_reference_id = reference_id_default,
          src_root_delay = fzero, src_root_dispersion = fzero, src_precision = - 20,
          src_last_reply = None, src_note = None, src_rate_limited = False\<rparr>)"

definition is_reachable :: "source \<Rightarrow> bool" where
  "is_reachable s \<longleftrightarrow> src_reach s \<noteq> 0"

definition can_poll :: "source \<Rightarrow> bool" where
  "can_poll s \<longleftrightarrow> src_security s \<noteq> NtsPending
     \<and> \<not> (case src_security s of NtsKeyed k cs \<Rightarrow> cs = [] | _ \<Rightarrow> False)"

definition source_filtered :: "source \<Rightarrow> f64 \<Rightarrow> filtered option" where
  "source_filtered s now = filter_peek (src_filter s) now"

section \<open>Requests\<close>

text \<open>The draws one request makes, in order: the transmit nonce, the identifier, the AEAD nonce.\<close>

record draws =
  dr_transmit :: "u64 option"
  dr_unique_id :: "bytes option"
  dr_nonce :: "bytes option"

datatype prepare_error = RandomFailed | SealFailed wire_error | NotKeyed | NoCookiePanic

definition prepare_nts ::
    "aead \<Rightarrow> draws \<Rightarrow> nts_keys \<Rightarrow> bytes list \<Rightarrow> ntp_packet \<Rightarrow> prepare_error + bytes \<times> bytes" where
  "prepare_nts A dr keys cookies packet =
     (let cookie = last cookies;
          kept = butlast cookies
      in case dr_unique_id dr of None \<Rightarrow> Inl RandomFailed
         | Some unique_id \<Rightarrow>
             let wanted = COOKIE_TARGET - (length kept + 1);
                 packet = packet\<lparr>pk_extensions := pk_extensions packet
                   @ [\<lparr>field_type = NTS_UNIQUE_IDENTIFIER, field_value = unique_id\<rparr>,
                      \<lparr>field_type = NTS_COOKIE, field_value = cookie\<rparr>]
                   @ replicate wanted \<lparr>field_type = NTS_COOKIE_PLACEHOLDER,
                                       field_value = replicate (length cookie) 0\<rparr>\<rparr>;
                 prefix = packet_encode packet
             in case dr_nonce dr of None \<Rightarrow> Inl RandomFailed
                | Some nonce \<Rightarrow>
                    (case seal_authenticator A (c2s keys) nonce prefix [] of
                       Inl e \<Rightarrow> Inl (SealFailed e)
                     | Inr authenticator \<Rightarrow> Inr (encode_into authenticator prefix, unique_id)))"

definition prepare :: "aead \<Rightarrow> draws \<Rightarrow> ntp_timestamp \<Rightarrow> f64 \<Rightarrow> source \<Rightarrow> source \<times> (prepare_error + bytes)"
where
  "prepare A dr wall monotonic s =
     (case dr_transmit dr of
        None \<Rightarrow> (s, Inl RandomFailed)
      | Some transmit \<Rightarrow>
          let packet = packet_default\<lparr>pk_mode := Client, pk_version := VERSION, pk_poll := src_poll s,
                                      pk_transmit_timestamp := transmit\<rparr>;
              pending = \<lparr>pd_transmit = transmit, pd_origin = wall, pd_unique_id = None,
                         pd_s2c = None, pd_sent_at = monotonic\<rparr>
          in case src_security s of
               NtsKeyed keys cookies \<Rightarrow>
                 if cookies = [] then (s, Inl NoCookiePanic)
                 else let s = s\<lparr>src_security := NtsKeyed keys (butlast cookies)\<rparr>
                      in (case prepare_nts A dr keys cookies packet of
                            Inl e \<Rightarrow> (s, Inl e)
                          | Inr (bytes, unique_id) \<Rightarrow>
                              (s\<lparr>src_pending := Some (pending\<lparr>pd_unique_id := Some unique_id,
                                                              pd_s2c := Some (s2c keys)\<rparr>)\<rparr>,
                               Inr bytes))
             | Unauthenticated \<Rightarrow> (s\<lparr>src_pending := Some pending\<rparr>, Inr (packet_encode packet))
             | NtsPending \<Rightarrow> (s, Inl NotKeyed))"

section \<open>Replies\<close>

definition constant_time_eq :: "bytes \<Rightarrow> bytes \<Rightarrow> bool" where
  "constant_time_eq a b =
     (if length a \<noteq> length b then False
      else fold (\<lambda>(x, y) difference. difference OR (x XOR y)) (zip a b) 0 = 0)"

fun offset_of_first :: "u16 \<Rightarrow> nat \<Rightarrow> ext_field list \<Rightarrow> nat" where
  "offset_of_first t pos [] = pos"
| "offset_of_first t pos (f # fs) =
     (if field_type f = t then pos else offset_of_first t (pos + encoded_len f) fs)"

definition verify :: "aead \<Rightarrow> ntp_packet \<Rightarrow> bytes \<Rightarrow> bytes \<Rightarrow> rejected + bytes list" where
  "verify A packet bytes key =
     (case extension packet NTS_AUTHENTICATOR of
        None \<Rightarrow> Inl BadTag
      | Some field \<Rightarrow>
          let pos = offset_of_first NTS_AUTHENTICATOR HEADER_LEN (pk_extensions packet)
          in case open_authenticator A key bytes pos (field_value field) of
               Inl e \<Rightarrow> Inl BadTag
             | Inr plaintext \<Rightarrow>
                 let fields = (case decode_all plaintext of Inl e \<Rightarrow> [] | Inr fs \<Rightarrow> fs)
                 in Inr (map field_value
                      (filter (\<lambda>f. field_type f = NTS_COOKIE \<and> field_value f \<noteq> []
                                   \<and> length (field_value f) \<le> MAX_COOKIE) fields)))"

definition add_cookies :: "bytes list \<Rightarrow> bytes list \<Rightarrow> bytes list" where
  "add_cookies kept cookies =
     fold (\<lambda>c kept. if length kept < COOKIE_TARGET then kept @ [c] else kept) cookies kept"

definition record_reply :: "f64 \<Rightarrow> source \<Rightarrow> source" where
  "record_reply monotonic s =
     s\<lparr>src_reach := push_bit 1 (src_reach s) OR 1, src_last_reply := Some monotonic\<rparr>"

definition destination_to_seconds :: "ntp_timestamp \<Rightarrow> ntp_timestamp \<Rightarrow> f64" where
  "destination_to_seconds destination origin =
     (let elapsed = as_seconds_f64 (ts_wrapping_sub destination origin);
          (secs, nanos) = to_unix_near origin 0
      in fadd (fadd (f_of_int secs) (fdiv (f_of_int (uint nanos)) (lit 1000000000))) elapsed)"

text \<open>The NTS part of \<open>accept\<close>: the source with the cookies the reply carried.\<close>

definition check_nts :: "aead \<Rightarrow> pending \<Rightarrow> ntp_packet \<Rightarrow> bytes \<Rightarrow> source \<Rightarrow> rejected + source" where
  "check_nts A p packet bytes s =
     (case pd_unique_id p of
        None \<Rightarrow> Inr s
      | Some expected \<Rightarrow>
          (case extension packet NTS_UNIQUE_IDENTIFIER of
             None \<Rightarrow> Inl WrongIdentifier
           | Some field \<Rightarrow>
               if \<not> constant_time_eq (field_value field) expected then Inl WrongIdentifier
               else (case pd_s2c p of
                       None \<Rightarrow> Inl BadTag
                     | Some key \<Rightarrow>
                         (case verify A packet bytes key of
                            Inl e \<Rightarrow> Inl e
                          | Inr cookies \<Rightarrow>
                              Inr (case src_security s of
                                     NtsKeyed keys kept \<Rightarrow>
                                       s\<lparr>src_security := NtsKeyed keys (add_cookies kept cookies)\<rparr>
                                   | _ \<Rightarrow> s)))))"

text \<open>The rest of \<open>accept\<close>, on a packet that passed the checks.\<close>

definition take_measurement ::
    "pending \<Rightarrow> ntp_packet \<Rightarrow> ntp_timestamp \<Rightarrow> f64 \<Rightarrow> source \<Rightarrow> source \<times> (rejected + sample)" where
  "take_measurement p packet destination monotonic s =
     (if is_kiss_of_death packet then (s\<lparr>src_pending := None\<rparr>, Inl (Kiss (pk_reference_id packet)))
      else if pk_leap packet = Unsynchronised \<or> 16 \<le> pk_stratum packet then
        ((record_reply monotonic (s\<lparr>src_pending := None\<rparr>))
           \<lparr>src_stratum := pk_stratum packet, src_leap := pk_leap packet\<rparr>, Inl ServerUnsynchronised)
      else
        let exchange = \<lparr>ex_origin = pd_origin p, ex_receive = pk_receive_timestamp packet,
                        ex_transmit = pk_transmit_timestamp packet, ex_destination = destination\<rparr>;
            wall = destination_to_seconds destination (pd_origin p)
        in case reduce exchange (src_precision s) (pk_precision packet) MAX_DELAY wall of
             Inl e \<Rightarrow> (s, Inl (Unusable e))
           | Inr sample \<Rightarrow>
               ((record_reply monotonic (s\<lparr>src_pending := None\<rparr>))
                  \<lparr>src_stratum := pk_stratum packet, src_leap := pk_leap packet,
                   src_reference_id := pk_reference_id packet,
                   src_root_delay := short_as_seconds_f64 (pk_root_delay packet),
                   src_root_dispersion := short_as_seconds_f64 (pk_root_dispersion packet),
                   src_note := None\<rparr>, Inr sample))"

definition source_accept ::
    "aead \<Rightarrow> bytes \<Rightarrow> ntp_timestamp \<Rightarrow> f64 \<Rightarrow> source \<Rightarrow> source \<times> (rejected + sample)" where
  "source_accept A bytes destination monotonic s =
     (case src_pending s of
        None \<Rightarrow> (s, Inl WrongOrigin)
      | Some p \<Rightarrow>
          (case packet_decode bytes of
             Inl e \<Rightarrow> (s, Inl (Malformed e))
           | Inr packet \<Rightarrow>
               if pk_mode packet \<noteq> Server \<or> pk_version packet \<noteq> VERSION then (s, Inl NotAReply)
               else if pk_origin_timestamp packet \<noteq> pd_transmit p then (s, Inl WrongOrigin)
               else (case check_nts A p packet bytes s of
                       Inl e \<Rightarrow> (s, Inl e)
                     | Inr s' \<Rightarrow> take_measurement p packet destination monotonic s')))"

section \<open>Scheduling\<close>

definition schedule :: "u64 option \<Rightarrow> f64 \<Rightarrow> source \<Rightarrow> source" where
  "schedule draw monotonic s =
     (let interval = f_pow2 (src_poll s);
          raw = (case draw of None \<Rightarrow> 0 | Some r \<Rightarrow> r);
          spread = fdiv (f_of_int (uint raw)) (f_of_int (2 ^ 64 - 1))
      in s\<lparr>src_next_poll := fadd monotonic (fmul interval (fadd (lit 1) (fmul spread (lit (1 / 4)))))\<rparr>)"

definition record_loss :: "u64 option \<Rightarrow> f64 \<Rightarrow> source \<Rightarrow> source" where
  "record_loss draw monotonic s =
     (let s = s\<lparr>src_reach := push_bit 1 (src_reach s), src_pending := None\<rparr>;
          s = (if src_reach s = 0
               then s\<lparr>src_filter := filter_reset (src_filter s), src_note := Some NoReplyForEight\<rparr>
               else s)
      in schedule draw monotonic s)"

definition schedule_burst :: "u64 option \<Rightarrow> f64 \<Rightarrow> source \<Rightarrow> source" where
  "schedule_burst draw monotonic s =
     (let s = s\<lparr>src_burst := src_burst s - 1\<rparr>
      in if src_burst s = 0 then schedule draw monotonic s
         else s\<lparr>src_next_poll := fadd monotonic (lit 2)\<rparr>)"

definition adapt_poll :: "f64 \<Rightarrow> f64 \<Rightarrow> source \<Rightarrow> source" where
  "adapt_poll system_offset system_jitter s =
     (if src_rate_limited s then s
      else let noisy = flt (fmul (lit 4) (fmax system_jitter (lit (1 / 1000000000)))) (fabs system_offset)
           in if noisy then s\<lparr>src_poll := max (src_poll s - 1) (src_min_poll s)\<rparr>
              else s\<lparr>src_poll := min (src_poll s + 1) (src_max_poll s)\<rparr>)"

definition back_off :: "u64 option \<Rightarrow> f64 \<Rightarrow> source \<Rightarrow> source" where
  "back_off draw monotonic s =
     schedule draw monotonic (s\<lparr>src_rate_limited := True, src_poll := src_max_poll s,
                                src_note := Some RateLimitedKiss\<rparr>)"

datatype leap = LeapNone | LeapInsertSecond | LeapDeleteSecond

definition announced_leap :: "source \<Rightarrow> leap" where
  "announced_leap s = (case src_leap s of LeapInsert \<Rightarrow> LeapInsertSecond
     | LeapDelete \<Rightarrow> LeapDeleteSecond | _ \<Rightarrow> LeapNone)"

definition timed_out :: "f64 \<Rightarrow> source \<Rightarrow> bool" where
  "timed_out monotonic s = (case src_pending s of None \<Rightarrow> False
     | Some p \<Rightarrow> flt REPLY_TIMEOUT (fsub monotonic (pd_sent_at p)))"

section \<open>Comparison and cookies\<close>

lemma or_word_eq_0: "(x :: u8) OR y = 0 \<longleftrightarrow> x = 0 \<and> y = 0"
  by (auto simp: bit_eq_iff bit_or_iff)

lemma xor_word_eq_0: "(x :: u8) XOR y = 0 \<longleftrightarrow> x = y"
  by (auto simp: bit_eq_iff bit_xor_iff)

lemma fold_difference:
  "length a = length b \<Longrightarrow> fold (\<lambda>(x, y) d. d OR (x XOR y)) (zip a b) d = 0 \<longleftrightarrow> d = 0 \<and> a = (b :: bytes)"
  by (induction a b arbitrary: d rule: list_induct2) (auto simp: or_word_eq_0 xor_word_eq_0)

lemma constant_time_eq_iff: "constant_time_eq a b \<longleftrightarrow> a = b"
  using fold_difference [of a b 0] by (auto simp: constant_time_eq_def)

lemma add_cookies_eq: "length kept \<le> COOKIE_TARGET \<Longrightarrow> add_cookies kept cs = take COOKIE_TARGET (kept @ cs)"
  unfolding add_cookies_def
proof (induction cs arbitrary: kept)
  case (Cons c cs)
  then show ?case by (auto simp: take_push not_less)
qed simp

lemma offset_of_first_ge: "pos \<le> offset_of_first t pos fs"
  by (induction fs arbitrary: pos) (auto intro: le_trans [OF le_add1])

lemma offset_of_first_split:
  "find (\<lambda>f. field_type f = t) fs = Some f \<Longrightarrow>
   \<exists>pre post. fs = pre @ f # post \<and> offset_of_first t pos fs = pos + sum_list (map encoded_len pre)
     \<and> field_type f = t \<and> list_all (\<lambda>g. field_type g \<noteq> t) pre"
proof (induction fs arbitrary: pos)
  case (Cons g fs)
  show ?case
  proof (cases "field_type g = t")
    case True
    with Cons.prems show ?thesis by (intro exI [of _ "[]"] exI [of _ fs]) auto
  next
    case False
    then have "find (\<lambda>f. field_type f = t) fs = Some f" using Cons.prems by simp
    from Cons.IH [OF this, of "pos + encoded_len g"] obtain pre post where
      "fs = pre @ f # post" "offset_of_first t (pos + encoded_len g) fs = pos + encoded_len g + sum_list (map encoded_len pre)"
      "field_type f = t" "list_all (\<lambda>g. field_type g \<noteq> t) pre" by blast
    with False show ?thesis by (intro exI [of _ "g # pre"] exI [of _ post]) auto
  qed
qed simp

text \<open>The bytes the authenticator's tag covers are exactly those received before it.\<close>

lemma authenticator_position:
  assumes "packet_decode bs = Inr p" "extension p t = Some f"
  defines "pos \<equiv> offset_of_first t HEADER_LEN (pk_extensions p)"
  shows "HEADER_LEN \<le> pos" "pos + encoded_len f \<le> length bs"
    "bslice pos (pos + encoded_len f) bs = field_bytes f"
proof -
  obtain pre post where fs: "pk_extensions p = pre @ f # post"
    and pos: "pos = HEADER_LEN + sum_list (map encoded_len pre)"
    using offset_of_first_split assms(2) unfolding extension_def pos_def by blast
  obtain hd m where bs: "bs = hd @ concat (map field_bytes (pk_extensions p)) @ mac_bytes m" "length hd = HEADER_LEN"
    using packet_decode_header(1,3) [OF assms(1)] decode_all_sound [of "drop 48 bs" "pk_extensions p"]
    by (metis HEADER_LEN_def append_take_drop_id length_take min.absorb2)
  have len: "length (concat (map field_bytes pre)) = sum_list (map encoded_len pre)"
    by (induction pre) (simp_all add: wire_simps)
  show "HEADER_LEN \<le> pos" by (simp add: pos)
  show "pos + encoded_len f \<le> length bs" by (simp add: bs fs pos len wire_simps)
  show "bslice pos (pos + encoded_len f) bs = field_bytes f"
    by (simp add: bs fs pos len wire_simps bslice_def)
qed

section \<open>What acceptance requires\<close>

text \<open>
  A datagram that answers the outstanding request: a server-mode NTPv4 packet echoing its
  transmit timestamp and, when the request was authenticated, carrying its identifier and an
  authenticator that opens under the key established for it, over the bytes before it.
\<close>

definition answers :: "aead \<Rightarrow> pending \<Rightarrow> bytes \<Rightarrow> ntp_packet \<Rightarrow> bool" where
  "answers A p bs packet \<longleftrightarrow>
     packet_decode bs = Inr packet \<and> pk_mode packet = Server \<and> pk_version packet = VERSION
     \<and> pk_origin_timestamp packet = pd_transmit p
     \<and> (\<forall>uid. pd_unique_id p = Some uid \<longrightarrow>
          (\<exists>u f key m. extension packet NTS_UNIQUE_IDENTIFIER = Some u \<and> field_value u = uid
             \<and> extension packet NTS_AUTHENTICATOR = Some f \<and> pd_s2c p = Some key
             \<and> open_authenticator A key bs
                 (offset_of_first NTS_AUTHENTICATOR HEADER_LEN (pk_extensions packet)) (field_value f) = Inr m))"

lemma check_nts_ok:
  assumes "check_nts A p packet bs s = Inr s'"
  shows "\<forall>uid. pd_unique_id p = Some uid \<longrightarrow>
          (\<exists>u f key m. extension packet NTS_UNIQUE_IDENTIFIER = Some u \<and> field_value u = uid
             \<and> extension packet NTS_AUTHENTICATOR = Some f \<and> pd_s2c p = Some key
             \<and> open_authenticator A key bs
                 (offset_of_first NTS_AUTHENTICATOR HEADER_LEN (pk_extensions packet)) (field_value f) = Inr m)"
    and "\<exists>cs. s' = s\<lparr>src_security := (case src_security s of
            NtsKeyed k kept \<Rightarrow> NtsKeyed k (add_cookies kept cs) | x \<Rightarrow> x)\<rparr>"
proof -
  show "\<forall>uid. pd_unique_id p = Some uid \<longrightarrow>
          (\<exists>u f key m. extension packet NTS_UNIQUE_IDENTIFIER = Some u \<and> field_value u = uid
             \<and> extension packet NTS_AUTHENTICATOR = Some f \<and> pd_s2c p = Some key
             \<and> open_authenticator A key bs
                 (offset_of_first NTS_AUTHENTICATOR HEADER_LEN (pk_extensions packet)) (field_value f) = Inr m)"
    using assms
    by (auto simp: check_nts_def verify_def constant_time_eq_iff Let_def
             split: option.splits if_splits sum.splits)
  have triv: "add_cookies kept [] = kept" for kept by (simp add: add_cookies_def)
  show "\<exists>cs. s' = s\<lparr>src_security := (case src_security s of
            NtsKeyed k kept \<Rightarrow> NtsKeyed k (add_cookies kept cs) | x \<Rightarrow> x)\<rparr>"
  proof (cases "pd_unique_id p")
    case None
    then have "s' = s" using assms by (simp add: check_nts_def)
    then show ?thesis by (intro exI [of _ "[]"]) (cases "src_security s"; simp add: triv)
  next
    case (Some uid)
    then show ?thesis
      using assms
      by (cases "src_security s") (auto simp: check_nts_def Let_def split: option.splits if_splits sum.splits)
  qed
qed

lemma accept_cases:
  assumes "source_accept A bs dest tick s = (s', r)"
  obtains (refused) "s' = s" "\<exists>e. r = Inl e"
    | (answered) p packet s1 where "src_pending s = Some p" "answers A p bs packet"
        "check_nts A p packet bs s = Inr s1" "take_measurement p packet dest tick s1 = (s', r)"
proof (cases "\<exists>p packet s1. src_pending s = Some p \<and> packet_decode bs = Inr packet \<and> pk_mode packet = Server
    \<and> pk_version packet = VERSION \<and> pk_origin_timestamp packet = pd_transmit p \<and> check_nts A p packet bs s = Inr s1")
  case True
  then obtain p packet s1 where a: "src_pending s = Some p" "packet_decode bs = Inr packet"
    "pk_mode packet = Server" "pk_version packet = VERSION" "pk_origin_timestamp packet = pd_transmit p"
    "check_nts A p packet bs s = Inr s1" by blast
  then have "take_measurement p packet dest tick s1 = (s', r)" using assms by (simp add: source_accept_def)
  moreover have "answers A p bs packet" using a check_nts_ok(1) [OF a(6)] by (simp add: answers_def)
  ultimately show ?thesis using a answered by blast
next
  case False
  then have "s' = s \<and> (\<exists>e. r = Inl e)"
    using assms by (auto simp: source_accept_def split: option.splits sum.splits if_splits)
  then show ?thesis using refused by blast
qed

lemma answers_sealed:
  assumes "answers A p bs packet" "pd_unique_id p = Some uid"
  obtains key n m c pos where "pd_s2c p = Some key" "HEADER_LEN \<le> pos" "pos \<le> length bs"
    "header_bytes packet = take HEADER_LEN (take pos bs)"
    "aead_decrypt A key n (take pos bs) c = Some m" "length n = NONCE_LEN"
proof -
  obtain f key m where f: "extension packet NTS_AUTHENTICATOR = Some f" "pd_s2c p = Some key"
    and o: "open_authenticator A key bs (offset_of_first NTS_AUTHENTICATOR HEADER_LEN (pk_extensions packet))
        (field_value f) = Inr m"
    using assms by (auto simp: answers_def)
  have d: "packet_decode bs = Inr packet" using assms(1) by (simp add: answers_def)
  note pos = authenticator_position [OF d f(1)] and h = packet_decode_header(5) [OF d]
  show ?thesis
    using that [OF f(2) pos(1) _ _ open_authenticator_ok(4) [OF o] open_authenticator_ok(2) [OF o]]
      open_authenticator_ok(1) [OF o] pos(1) h by (simp add: min_absorb1 HEADER_LEN_def)
qed

section \<open>Invariants\<close>

definition poll_ok :: "source \<Rightarrow> bool" where
  "poll_ok s \<longleftrightarrow> POLL_FLOOR \<le> src_min_poll s \<and> src_min_poll s \<le> src_poll s
     \<and> src_poll s \<le> src_max_poll s \<and> src_max_poll s \<le> POLL_CEILING"

definition source_inv :: "source \<Rightarrow> bool" where
  "source_inv s \<longleftrightarrow> poll_ok s \<and> filter_inv (src_filter s)
     \<and> cookie_count (src_security s) \<le> COOKIE_TARGET
     \<and> (src_rate_limited s \<longrightarrow> src_poll s = src_max_poll s)
     \<and> (\<forall>p. src_pending s = Some p \<longrightarrow> (pd_unique_id p \<noteq> None \<longleftrightarrow> pd_s2c p \<noteq> None))"

text \<open>Everything the daemon does to a source, as one relation.\<close>

inductive source_step :: "source \<Rightarrow> source \<Rightarrow> bool" where
  step_prepare: "prepare A dr wall tick s = (s', r) \<Longrightarrow> source_step s s'"
| step_accept: "source_accept A bs dest tick s = (s', r) \<Longrightarrow> source_step s s'"
| step_insert: "source_step s (s\<lparr>src_filter := fst (filter_insert (src_filter s) smp now)\<rparr>)"
| step_reset: "source_step s (s\<lparr>src_filter := filter_reset (src_filter s)\<rparr>)"
| step_loss: "source_step s (record_loss draw tick s)"
| step_schedule: "source_step s (schedule draw tick s)"
| step_burst: "source_step s (schedule_burst draw tick s)"
| step_adapt: "source_step s (adapt_poll offset jitter s)"
| step_back_off: "source_step s (back_off draw tick s)"

lemmas source_ops = schedule_def record_loss_def schedule_burst_def adapt_poll_def back_off_def

lemma prepare_fields:
  assumes "prepare A dr wall tick s = (s', r)"
  shows "src_min_poll s' = src_min_poll s \<and> src_max_poll s' = src_max_poll s \<and> src_poll s' = src_poll s
    \<and> src_filter s' = src_filter s \<and> src_rate_limited s' = src_rate_limited s \<and> src_reach s' = src_reach s
    \<and> cookie_count (src_security s') \<le> cookie_count (src_security s)
    \<and> is_nts (src_security s') = is_nts (src_security s)
    \<and> (src_pending s' = src_pending s
       \<or> (\<exists>p. src_pending s' = Some p \<and> (pd_unique_id p \<noteq> None \<longleftrightarrow> pd_s2c p \<noteq> None)))"
  using assms
  by (auto simp: prepare_def Let_def split: option.splits security.splits if_splits sum.splits)

lemma measurement_fields:
  assumes "take_measurement p packet dest tick s = (s', r)"
  shows "src_min_poll s' = src_min_poll s \<and> src_max_poll s' = src_max_poll s \<and> src_poll s' = src_poll s
    \<and> src_filter s' = src_filter s \<and> src_rate_limited s' = src_rate_limited s
    \<and> src_security s' = src_security s \<and> (src_pending s' = src_pending s \<or> src_pending s' = None)"
  using assms by (auto simp: take_measurement_def record_reply_def Let_def split: if_splits sum.splits)

lemma accept_fields:
  assumes "source_accept A bs dest tick s = (s', r)"
  shows "src_min_poll s' = src_min_poll s \<and> src_max_poll s' = src_max_poll s \<and> src_poll s' = src_poll s
    \<and> src_filter s' = src_filter s \<and> src_rate_limited s' = src_rate_limited s
    \<and> (cookie_count (src_security s) \<le> COOKIE_TARGET \<longrightarrow> cookie_count (src_security s') \<le> COOKIE_TARGET)
    \<and> is_nts (src_security s') = is_nts (src_security s)
    \<and> (src_pending s' = src_pending s \<or> src_pending s' = None)"
  using assms
proof (cases rule: accept_cases)
  case (answered p packet s1)
  obtain cs where s1: "s1 = s\<lparr>src_security := (case src_security s of
            NtsKeyed k kept \<Rightarrow> NtsKeyed k (add_cookies kept cs) | x \<Rightarrow> x)\<rparr>"
    using check_nts_ok(2) [OF answered(3)] by blast
  then show ?thesis
    using measurement_fields [OF answered(4)]
    by (cases "src_security s") (auto simp: add_cookies_eq)
qed auto

lemma source_step_inv: "source_step s s' \<Longrightarrow> source_inv s \<Longrightarrow> source_inv s'"
proof (induction rule: source_step.induct)
  case (step_prepare A dr wall tick s s' r)
  then show ?case using prepare_fields [OF step_prepare(1)] by (auto simp: source_inv_def poll_ok_def)
next
  case (step_accept A bs dest tick s s' r)
  then show ?case using accept_fields [OF step_accept(1)] by (auto simp: source_inv_def poll_ok_def)
next
  case (step_insert s smp now)
  then show ?case by (simp add: source_inv_def poll_ok_def reg.inv_push)
next
  case (step_reset s)
  then show ?case by (simp add: source_inv_def poll_ok_def reg.inv_clear)
next
  case (step_adapt offset jitter s)
  then show ?case by (auto simp: source_inv_def poll_ok_def adapt_poll_def Let_def)
qed (auto simp: source_inv_def poll_ok_def source_ops reg.inv_clear Let_def)

lemma clamp_int_bounds: "lo \<le> hi \<Longrightarrow> lo \<le> clamp_int x lo hi \<and> clamp_int x lo hi \<le> hi"
  by (simp add: clamp_int_def)

lemma source_new_inv:
  "cookie_count sec \<le> COOKIE_TARGET \<Longrightarrow> source_inv (source_new n a sec lo hi)"
  using clamp_int_bounds [of POLL_FLOOR POLL_CEILING lo]
    clamp_int_bounds [of "clamp_int lo POLL_FLOOR POLL_CEILING" POLL_CEILING hi]
  by (simp add: source_new_def source_inv_def poll_ok_def reg.inv_empty POLL_FLOOR_def POLL_CEILING_def Let_def)

lemma source_step_nts: "source_step s s' \<Longrightarrow> is_nts (src_security s') = is_nts (src_security s)"
proof (induction rule: source_step.induct)
  case (step_prepare A dr wall tick s s' r)
  then show ?case using prepare_fields by blast
next
  case (step_accept A bs dest tick s s' r)
  then show ?case using accept_fields by blast
qed (auto simp: source_ops Let_def)

section \<open>Scheduling bounds\<close>

lemma fmul_one: "rep c \<Longrightarrow> c < f64_top \<Longrightarrow> fmul (Fin False c) (lit 1) = Fin False c"
proof -
  have "lit 1 = Fin False 1" by (simp add: rnd_eval)
  then show "rep c \<Longrightarrow> c < f64_top \<Longrightarrow> ?thesis" by (simp add: rnd_def rep_def)
qed

lemma spread_bounds:
  fixes r :: u64
  defines "x \<equiv> fdiv (f_of_int (uint r)) (f_of_int (2 ^ 64 - 1))"
  shows "fnonneg x" "fle x (lit 1)" "is_finite x"
proof -
  have c: "f_of_int (2 ^ 64 - 1) = Fin False (2 ^ 64)"
    unfolding f_of_int_def fround_def by (simp add: rnd_eval)
  have r: "0 \<le> uint r" "uint r \<le> 2 ^ 64 - 1" using uint_range_size [of r] by (simp_all add: word_size)
  have z: "f_of_int 0 = fzero" by (simp add: f_of_int_def fround_def)
  have le: "fle fzero (f_of_int (uint r))" "fle (f_of_int (uint r)) (Fin False (2 ^ 64))"
    using f_of_int_mono [OF r(1)] f_of_int_mono [OF r(2)] by (simp_all only: z c)
  then have fin: "is_finite (f_of_int (uint r))" using is_finite_between by fastforce
  have ok: "f64_ok (Fin False (2 ^ 64))" using f_of_int_ok [of "2 ^ 64 - 1"] by (simp only: c)
  have one: "fdiv (Fin False (2 ^ 64)) (Fin False (2 ^ 64)) = lit 1" by (simp add: lit_def)
  have zero: "fdiv fzero (Fin False (2 ^ 64)) = fzero" by simp
  have "fle (fdiv (f_of_int (uint r)) (Fin False (2 ^ 64))) (fdiv (Fin False (2 ^ 64)) (Fin False (2 ^ 64)))"
    by (rule fdiv_mono [OF le(2) fin _ f_of_int_ok ok]) simp_all
  then show le1: "fle x (lit 1)" unfolding x_def c one .
  have "fle (fdiv fzero (Fin False (2 ^ 64))) (fdiv (f_of_int (uint r)) (Fin False (2 ^ 64)))"
    by (rule fdiv_mono [OF le(1) _ fin _ f_of_int_ok]) simp_all
  then show nn: "fnonneg x" unfolding x_def c zero fnonneg_def .
  have "is_finite (lit 1)" by (simp add: rnd_eval)
  then show "is_finite x" using is_finite_between [of fzero x "lit 1"] le1 nn by (simp add: fnonneg_def)
qed

lemma factor_bounds:
  fixes r :: u64
  defines "y \<equiv> fadd (lit 1) (fmul (fdiv (f_of_int (uint r)) (f_of_int (2 ^ 64 - 1))) (lit (1 / 4)))"
  shows "fle (lit 1) y" "fle y (lit (5 / 4))" "fnonneg y" "is_finite y" "f64_ok y"
proof -
  let ?x = "fdiv (f_of_int (uint r)) (f_of_int (2 ^ 64 - 1))"
  have lits: "lit 1 = Fin False 1" "lit (1 / 4) = Fin False (1 / 4)" "lit (5 / 4) = Fin False (5 / 4)"
    by (simp_all add: rnd_eval)
  have comm: "fmul ?x (lit (1 / 4)) = fmul (lit (1 / 4)) ?x"
    using spread_bounds(3) [of r] by (cases ?x) (auto simp: lits mult.commute)
  have q: "fle (fmul (lit (1 / 4)) ?x) (fmul (lit (1 / 4)) (lit 1))"
    unfolding lits(2) using spread_bounds [of r] by (intro fmul_mono) simp_all
  have q1: "fmul (lit (1 / 4)) (lit 1) = lit (1 / 4)" by (simp add: rnd_eval)
  have nn: "fnonneg (fmul (lit (1 / 4)) ?x)"
    using spread_bounds(1,3) [of r] f64_ok_ops(2)
    by (cases ?x) (auto simp: lits fnonneg_cases rnd_def Let_def round_mag_nonpos mult_le_0_iff split: if_splits)
  have one: "fnonneg (lit 1)" "f64_ok (lit 1)" by (simp_all add: fnonneg_cases lits(1) f64_top_def)
  show le: "fle (lit 1) y" unfolding y_def comm by (rule fadd_ge(1) [OF one(1) nn]) simp_all
  have "fle y (fadd (lit 1) (lit (1 / 4)))"
    unfolding y_def comm using q [unfolded q1] one nn by (intro fadd_mono_nonneg) (simp_all add: fnonneg_not_nan)
  moreover have "fadd (lit 1) (lit (1 / 4)) = lit (5 / 4)" by (simp add: lits fround_def) (simp add: rnd_eval)
  ultimately show le2: "fle y (lit (5 / 4))" by simp
  show "fnonneg y" using fnonneg_of_le [OF one(1) le] .
  show "is_finite y" using is_finite_between [OF le le2] by (simp add: lits)
  show "f64_ok y" by (simp add: y_def)
qed

lemma f_pow2_exact: "- 1074 \<le> n \<Longrightarrow> n < 1024 \<Longrightarrow> f_pow2 n = Fin False (2 powi n)"
proof -
  assume n: "- 1074 \<le> n" "n < 1024"
  have "(2::rat) powi n < 2 powi 1024" unfolding two_powi_less by (rule n(2))
  also have "\<dots> = f64_top" by (simp add: f64_top_def)
  finally show ?thesis using rep_powi [OF n(1)] by (simp add: f_pow2_def rnd_def rep_def)
qed

lemma schedule_next:
  assumes "poll_ok s" "is_finite tick"
  shows "fle (fadd tick (f_pow2 (src_poll s))) (src_next_poll (schedule draw tick s))"
    "fle (fadd tick (lit 16)) (src_next_poll (schedule draw tick s))"
    "fle (src_next_poll (schedule draw tick s)) (fadd tick (fmul (f_pow2 (src_poll s)) (lit (5 / 4))))"
proof -
  let ?n = "src_poll s"
  define r where "r = (case draw of None \<Rightarrow> 0 | Some r \<Rightarrow> r)"
  let ?y = "fadd (lit 1) (fmul (fdiv (f_of_int (uint r)) (f_of_int (2 ^ 64 - 1))) (lit (1 / 4)))"
  have n: "4 \<le> ?n" "?n \<le> 17" using assms(1) by (simp_all add: poll_ok_def POLL_FLOOR_def POLL_CEILING_def)
  have p: "f_pow2 ?n = Fin False (2 powi ?n)" using n by (intro f_pow2_exact) simp_all
  have pw: "(2::rat) powi 4 \<le> 2 powi ?n" "(2::rat) powi ?n \<le> 2 powi 17"
    using power_int_increasing [OF n(1), of "2::rat"] power_int_increasing [OF n(2), of "2::rat"] by simp_all
  have top: "(2::rat) powi ?n < f64_top" using pw(2) by (simp add: f64_top_def)
  have i: "f_pow2 ?n = fmul (f_pow2 ?n) (lit 1)"
    unfolding p using fmul_one [OF _ top] rep_powi [of ?n] n by simp
  note y = factor_bounds [of r]
  have lo: "fle (f_pow2 ?n) (fmul (f_pow2 ?n) ?y)"
    using fmul_mono [OF y(1), of "2 powi ?n"] y(5) by (subst i) (simp add: p fnonneg_cases rnd_eval)
  have hi: "fle (fmul (f_pow2 ?n) ?y) (fmul (f_pow2 ?n) (lit (5 / 4)))"
    using fmul_mono [OF y(2), of "2 powi ?n"] y(3,5) by (simp add: p)
  have "\<bar>2 powi ?n * (5 / 4)\<bar> \<le> (2::rat) powi 18" using pw(2) by simp
  then have hf: "is_finite (fmul (f_pow2 ?n) (lit (5 / 4)))"
    unfolding p using fmul_abs_le(1) [of "Fin False (2 powi ?n)" "lit (5 / 4)", OF _ _ _ rep_powi [of 18]]
    by (simp add: rnd_eval)
  have mf: "is_finite (fmul (f_pow2 ?n) ?y)"
    using is_finite_between [OF lo hi] hf by (simp add: p)
  have nx: "src_next_poll (schedule draw tick s) = fadd tick (fmul (f_pow2 ?n) ?y)"
    by (simp add: schedule_def r_def Let_def)
  have self: "fle tick tick" using assms(2) by simp
  show "fle (fadd tick (f_pow2 ?n)) (src_next_poll (schedule draw tick s))"
    unfolding nx using self lo mf assms(2) by (intro fadd_mono) (simp_all add: p)
  show "fle (src_next_poll (schedule draw tick s)) (fadd tick (fmul (f_pow2 ?n) (lit (5 / 4))))"
    unfolding nx using self hi hf mf assms(2) by (intro fadd_mono) simp_all
  have l16: "lit 16 = Fin False 16" by (simp add: rnd_eval)
  have "fle (lit 16) (f_pow2 ?n)" using pw(1) by (simp add: l16 p fle_def)
  then have "fle (lit 16) (fmul (f_pow2 ?n) ?y)" using lo by (rule fle_trans)
  then show "fle (fadd tick (lit 16)) (src_next_poll (schedule draw tick s))"
    unfolding nx using self mf assms(2) by (intro fadd_mono) (simp_all add: l16)
qed

section \<open>Reachability\<close>

text \<open>A history of polls: answered or lost, oldest first.\<close>

definition after_polls :: "(bool \<times> f64) list \<Rightarrow> source \<Rightarrow> source" where
  "after_polls ps s = foldl (\<lambda>s (ok, t). if ok then record_reply t s else record_loss None t s) s ps"

lemma after_polls_snoc:
  "after_polls (ps @ [(ok, t)]) s =
     (if ok then record_reply t (after_polls ps s) else record_loss None t (after_polls ps s))"
  by (simp add: after_polls_def)

lemma record_reach:
  "src_reach (record_reply t s) = push_bit 1 (src_reach s) OR 1"
  "src_reach (record_loss d t s) = push_bit 1 (src_reach s)"
  by (simp_all add: record_reply_def record_loss_def schedule_def Let_def)

lemma u8_double_bit: "j < 7 \<Longrightarrow> bit ((r :: u8) * 2) (Suc j) = bit r j"
proof -
  have "r * 2 = push_bit 1 r" by (simp add: push_bit_eq_mult)
  then show "j < 7 \<Longrightarrow> ?thesis" by (simp only: bit_push_bit_iff) simp
qed

lemma reach_bits:
  "src_reach s = 0 \<Longrightarrow> i < 8 \<Longrightarrow>
   bit (src_reach (after_polls ps s)) i \<longleftrightarrow> i < length ps \<and> fst (rev ps ! i)"
proof (induction ps arbitrary: i rule: rev_induct)
  case Nil
  then show ?case by (simp add: after_polls_def)
next
  case (snoc p ps)
  obtain ok t where p: "p = (ok, t)" by (cases p)
  show ?case
  proof (cases i)
    case 0
    then show ?thesis
      by (simp add: p after_polls_snoc record_reach bit_or_iff bit_push_bit_iff bit_1_iff bit_0 even_or_iff)
  next
    case (Suc j)
    then have "bit (src_reach (after_polls (ps @ [p]) s)) i = bit (src_reach (after_polls ps s)) j"
      using snoc.prems by (simp add: p after_polls_snoc record_reach bit_or_iff bit_1_iff u8_double_bit)
    then show ?thesis using snoc.IH [of j] snoc.prems Suc by simp
  qed
qed

lemma reach_zero_iff: "(r :: u8) = 0 \<longleftrightarrow> (\<forall>i<8. \<not> bit r i)"
  by (auto simp: bit_eq_iff)

section \<open>Properties\<close>

text \<open>
  C1: only authentic replies count: a datagram changes anything in a source, or yields a sample,
  only if it is a server-mode NTPv4 packet echoing the outstanding request's nonce and, when
  that request was authenticated, it carries the request's identifier and the holder of the
  session key sealed exactly the bytes before its authenticator, the 48 header bytes with every
  timestamp among them. The cipher is assumed to decrypt only what it encrypts.
\<close>
theorem only_authentic_replies_count:
  assumes "\<And>k n a m c. aead_decrypt A k n a c = Some m \<Longrightarrow> aead_encrypt A k n a m = Some c"
    and "source_accept A bs dest tick s = (s', r)" and "s' \<noteq> s \<or> (\<exists>smp. r = Inr smp)"
  shows "\<exists>p packet. src_pending s = Some p \<and> answers A p bs packet
    \<and> (\<forall>uid. pd_unique_id p = Some uid \<longrightarrow>
         (\<exists>key n m c pos. pd_s2c p = Some key \<and> aead_encrypt A key n (take pos bs) m = Some c
            \<and> HEADER_LEN \<le> pos \<and> pos \<le> length bs \<and> header_bytes packet = take HEADER_LEN (take pos bs)))"
  using assms(2)
proof (cases rule: accept_cases)
  case refused
  then show ?thesis using assms(3) by auto
next
  case (answered p packet s1)
  have "\<exists>key n m c pos. pd_s2c p = Some key \<and> aead_encrypt A key n (take pos bs) m = Some c
      \<and> HEADER_LEN \<le> pos \<and> pos \<le> length bs \<and> header_bytes packet = take HEADER_LEN (take pos bs)"
    if "pd_unique_id p = Some uid" for uid
    using answers_sealed [OF answered(2) that] assms(1) by metis
  then show ?thesis using answered by blast
qed

text \<open>A plain source and a reply to it, for the witnesses.\<close>

definition demo_source :: source where
  "demo_source = (source_new ''ntp'' (SocketAddr (V4 [192, 0, 2, 1]) 123) Unauthenticated 6 10)
     \<lparr>src_pending := Some \<lparr>pd_transmit = 5, pd_origin = 0, pd_unique_id = None, pd_s2c = None,
        pd_sent_at = fzero\<rparr>\<rparr>"

definition demo_reply :: ntp_packet where
  "demo_reply = packet_default\<lparr>pk_mode := Server, pk_stratum := 1, pk_precision := - 20,
     pk_origin_timestamp := 5, pk_receive_timestamp := 2 ^ 32, pk_transmit_timestamp := 2 ^ 32\<rparr>"

lemma demo_reply_decodes: "packet_decode (packet_encode demo_reply) = Inr demo_reply"
  using packet_decode_encode [of demo_reply]
  by (simp add: demo_reply_def packet_default_def packet_ok_def VERSION_def reference_id_default_def
      no_mac_clash_def encode_eq length_header MAX_PACKET_def)

lemma demo_accepts:
  "\<exists>s' smp. source_accept A (packet_encode demo_reply) (2 ^ 31) fzero demo_source = (s', Inr smp)"
proof -
  have sub: "ts_wrapping_sub (2 ^ 31) 0 = 2 ^ 31" "ts_wrapping_sub (2 ^ 32) (2 ^ 32) = 0"
    by (simp_all add: ts_wrapping_sub_def u64_as_i64_def)
  let ?ex = "\<lparr>ex_origin = 0, ex_receive = 2 ^ 32, ex_transmit = 2 ^ 32, ex_destination = 2 ^ 31\<rparr>"
  let ?p = "\<lparr>pd_transmit = 5, pd_origin = 0, pd_unique_id = None, pd_s2c = None, pd_sent_at = fzero\<rparr>"
  have "\<exists>smp. reduce ?ex lp sp MAX_DELAY w = Inr smp" for lp sp w
    unfolding reduce_def Let_def exchange.simps sub dur_is_negative_def MAX_DELAY_def
    using half_second(2) by simp
  then obtain smp where r: "reduce ?ex (src_precision demo_source) (- 20) MAX_DELAY
      (destination_to_seconds (2 ^ 31) 0) = Inr smp" by blast
  have f: "\<not> is_kiss_of_death demo_reply" "pk_leap demo_reply = NoWarning" "pk_stratum demo_reply = 1"
    "pk_receive_timestamp demo_reply = 2 ^ 32" "pk_transmit_timestamp demo_reply = 2 ^ 32"
    "pk_precision demo_reply = - 20" "pk_mode demo_reply = Server" "pk_version demo_reply = VERSION"
    "pk_origin_timestamp demo_reply = 5"
    by (simp_all add: is_kiss_of_death_def demo_reply_def packet_default_def)
  have "\<exists>s'. take_measurement ?p demo_reply (2 ^ 31) fzero demo_source = (s', Inr smp)"
    unfolding take_measurement_def Let_def by (simp add: f r [simplified] word_le_nat_alt)
  moreover have "src_pending demo_source = Some ?p" by (simp add: demo_source_def)
  moreover have "check_nts A ?p demo_reply bs demo_source = Inr demo_source" for bs
    by (simp add: check_nts_def)
  ultimately show ?thesis
    unfolding source_accept_def by (simp add: demo_reply_decodes f) blast
qed

theorem only_authentic_replies_count_witness:
  "\<exists>p packet. src_pending demo_source = Some p \<and> answers toy_aead p (packet_encode demo_reply) packet"
proof -
  obtain s' smp where "source_accept toy_aead (packet_encode demo_reply) (2 ^ 31) fzero demo_source = (s', Inr smp)"
    using demo_accepts by blast
  from only_authentic_replies_count [OF toy_aead_binds this] show ?thesis by blast
qed

definition request_header :: "source \<Rightarrow> u64 \<Rightarrow> ntp_packet" where
  "request_header s transmit = packet_default\<lparr>pk_mode := Client, pk_version := VERSION,
     pk_poll := src_poll s, pk_transmit_timestamp := transmit\<rparr>"

definition nts_request :: "ntp_packet \<Rightarrow> bytes \<Rightarrow> bytes list \<Rightarrow> ntp_packet" where
  "nts_request packet uid cookies = packet\<lparr>pk_extensions :=
     [\<lparr>field_type = NTS_UNIQUE_IDENTIFIER, field_value = uid\<rparr>,
      \<lparr>field_type = NTS_COOKIE, field_value = last cookies\<rparr>]
     @ replicate (COOKIE_TARGET - (length (butlast cookies) + 1))
         \<lparr>field_type = NTS_COOKIE_PLACEHOLDER, field_value = replicate (length (last cookies)) 0\<rparr>\<rparr>"

lemma nts_request_fields:
  "extension (nts_request pk uid cookies) NTS_UNIQUE_IDENTIFIER
     = Some \<lparr>field_type = NTS_UNIQUE_IDENTIFIER, field_value = uid\<rparr>"
  "extension (nts_request pk uid cookies) NTS_COOKIE = Some \<lparr>field_type = NTS_COOKIE, field_value = last cookies\<rparr>"
  "pk_transmit_timestamp (nts_request pk uid cookies) = pk_transmit_timestamp pk"
  by (simp_all add: extension_def nts_request_def NTS_UNIQUE_IDENTIFIER_def NTS_COOKIE_def)

lemma prepare_nts_ok:
  "prepare_nts A dr keys cookies packet = Inr (bs, uid) \<Longrightarrow> pk_extensions packet = [] \<Longrightarrow>
   \<exists>nonce f. dr_unique_id dr = Some uid \<and> dr_nonce dr = Some nonce
     \<and> bs = packet_encode (nts_request packet uid cookies) @ field_bytes f
     \<and> seal_authenticator A (c2s keys) nonce (packet_encode (nts_request packet uid cookies)) [] = Inr f"
  by (auto simp: prepare_nts_def nts_request_def encode_into_append Let_def split: option.splits sum.splits)

text \<open>
  C17: no downgrade: a source configured for NTS stays one through every operation, and every
  request it manages to send consumes one cookie, carries it together with the identifier drawn
  for this very request, and ends in an authenticator over all the bytes before it, under the
  session's client key and with the nonce drawn for it; its transmit time is the number drawn. The
  reply will then be held to that number, that identifier and the server key.
\<close>
theorem nts_never_downgrades:
  assumes "source_step\<^sup>*\<^sup>* s0 s" "is_nts (src_security s0)"
    and "prepare A dr wall tick s = (s', Inr bs)"
  shows "\<exists>keys cookies uid nonce transmit prefix f packet p. src_security s = NtsKeyed keys cookies \<and> cookies \<noteq> []
    \<and> dr = \<lparr>dr_transmit = Some transmit, dr_unique_id = Some uid, dr_nonce = Some nonce\<rparr>
    \<and> src_security s' = NtsKeyed keys (butlast cookies)
    \<and> prefix = packet_encode packet \<and> bs = prefix @ field_bytes f
    \<and> seal_authenticator A (c2s keys) nonce prefix [] = Inr f
    \<and> extension packet NTS_UNIQUE_IDENTIFIER = Some \<lparr>field_type = NTS_UNIQUE_IDENTIFIER, field_value = uid\<rparr>
    \<and> extension packet NTS_COOKIE = Some \<lparr>field_type = NTS_COOKIE, field_value = last cookies\<rparr>
    \<and> src_pending s' = Some p \<and> pd_unique_id p = Some uid \<and> pd_s2c p = Some (s2c keys)
    \<and> pd_transmit p = transmit \<and> pk_transmit_timestamp packet = transmit"
proof -
  have "is_nts (src_security s)" using assms(1,2)
    by (induction rule: rtranclp_induct) (auto simp: source_step_nts)
  then obtain keys cookies where sec: "src_security s = NtsKeyed keys cookies" "cookies \<noteq> []"
    using assms(3) by (cases "src_security s") (auto simp: prepare_def split: option.splits if_splits)
  then obtain transmit uid where t: "dr_transmit dr = Some transmit"
    and n: "prepare_nts A dr keys cookies (request_header s transmit) = Inr (bs, uid)"
    and s': "s' = s\<lparr>src_security := NtsKeyed keys (butlast cookies),
      src_pending := Some \<lparr>pd_transmit = transmit, pd_origin = wall, pd_unique_id = Some uid,
         pd_s2c = Some (s2c keys), pd_sent_at = tick\<rparr>\<rparr>"
    using assms(3) by (auto simp: prepare_def request_header_def Let_def split: option.splits sum.splits)
  let ?packet = "nts_request (request_header s transmit) uid cookies"
  obtain nonce f where d: "dr_unique_id dr = Some uid" "dr_nonce dr = Some nonce"
    and bs: "bs = packet_encode ?packet @ field_bytes f"
    and sealed: "seal_authenticator A (c2s keys) nonce (packet_encode ?packet) [] = Inr f"
    using prepare_nts_ok [OF n] by (auto simp: request_header_def packet_default_def)
  have dr: "dr = \<lparr>dr_transmit = Some transmit, dr_unique_id = Some uid, dr_nonce = Some nonce\<rparr>"
    using t d by simp
  note fields = nts_request_fields [of "request_header s transmit" uid cookies]
  have transmit: "pk_transmit_timestamp ?packet = transmit" by (simp add: nts_request_def request_header_def)
  show ?thesis
    using sec bs sealed dr fields(1,2) transmit
    by (intro exI conjI) (assumption | simp add: s')+
qed

theorem nts_never_downgrades_witness:
  "\<exists>s' bs f prefix. prepare toy_aead \<lparr>dr_transmit = Some 5, dr_unique_id = Some [1], dr_nonce = Some [2]\<rparr> 0 fzero
       (demo_source\<lparr>src_security := NtsKeyed \<lparr>c2s = [3], s2c = [4]\<rparr> [[7, 7]]\<rparr>) = (s', Inr bs)
     \<and> src_security s' = NtsKeyed \<lparr>c2s = [3], s2c = [4]\<rparr> [] \<and> bs = prefix @ field_bytes f"
proof -
  let ?s = "demo_source\<lparr>src_security := NtsKeyed \<lparr>c2s = [3], s2c = [4]\<rparr> [[7, 7]]\<rparr>"
  let ?dr = "\<lparr>dr_transmit = Some 5, dr_unique_id = Some [1], dr_nonce = Some [2]\<rparr>"
  obtain s' bs where p: "prepare toy_aead ?dr 0 fzero ?s = (s', Inr bs)"
    by (simp add: prepare_def prepare_nts_def seal_authenticator_def toy_aead_def Let_def)
  from nts_never_downgrades [OF rtranclp.rtrancl_refl _ p] p show ?thesis by auto
qed

text \<open>
  A server is never hammered: whatever poll bounds are configured, and after any sequence of
  operations, the poll exponent stays within the floor of 16 seconds and the ceiling, and a
  scheduled poll is at least 16 seconds away and at most a quarter more than the interval.
\<close>
theorem poll_never_hammers:
  assumes "source_step\<^sup>*\<^sup>* (source_new name address sec lo hi) s" "cookie_count sec \<le> COOKIE_TARGET"
    and "is_finite tick"
  shows "4 \<le> src_poll s \<and> src_poll s \<le> 17
    \<and> fle (fadd tick (lit 16)) (src_next_poll (schedule draw tick s))
    \<and> fle (src_next_poll (schedule draw tick s)) (fadd tick (fmul (f_pow2 (src_poll s)) (lit (5 / 4))))"
proof -
  have "source_inv s" using assms(1)
    by (induction rule: rtranclp_induct) (auto simp: source_new_inv assms(2) source_step_inv)
  then have "poll_ok s" by (simp add: source_inv_def)
  then show ?thesis
    using schedule_next [OF _ assms(3), of s] by (auto simp: poll_ok_def POLL_FLOOR_def POLL_CEILING_def)
qed

theorem poll_never_hammers_witness:
  "4 \<le> src_poll (source_new ''ntp'' (SocketAddr (V4 [192, 0, 2, 1]) 123) NtsPending (- 100) 100)"
  using poll_never_hammers [OF rtranclp.rtrancl_refl, of NtsPending fzero "''ntp''"
      "SocketAddr (V4 [192, 0, 2, 1]) 123" "- 100" "100"] by simp

text \<open>
  The reachability register is the record of the last eight polls: bit \<open>i\<close> is set exactly
  when the poll \<open>i\<close> back was answered, so a source is reachable exactly when one of its last
  eight polls was; and a source that a lost poll leaves unreachable has no estimate left.
\<close>
theorem reach_is_last_eight_polls:
  assumes "src_reach s = 0"
  shows "(is_reachable (after_polls ps s) \<longleftrightarrow> True \<in> set (map fst (take 8 (rev ps))))
    \<and> (\<not> is_reachable (record_loss draw tick s1) \<longrightarrow> source_filtered (record_loss draw tick s1) now = None)"
proof
  have "is_reachable (after_polls ps s) \<longleftrightarrow> (\<exists>i<8. i < length ps \<and> fst (rev ps ! i))"
    unfolding is_reachable_def reach_zero_iff using reach_bits [OF assms] by auto
  also have "\<dots> \<longleftrightarrow> (\<exists>x\<in>set (take 8 (rev ps)). fst x)"
    by (auto simp: list_ex_length simp flip: list_ex_iff)
  finally show "is_reachable (after_polls ps s) \<longleftrightarrow> True \<in> set (map fst (take 8 (rev ps)))" by auto
  show "\<not> is_reachable (record_loss draw tick s1) \<longrightarrow> source_filtered (record_loss draw tick s1) now = None"
    using reg.clear_forgets
    by (auto simp: is_reachable_def source_filtered_def record_loss_def schedule_def Let_def)
qed

theorem reach_is_last_eight_polls_witness:
  "is_reachable (after_polls [(True, fzero), (False, fzero)] demo_source)
   \<and> \<not> is_reachable (after_polls ((True, fzero) # replicate 8 (False, fzero)) demo_source)"
proof -
  have z: "src_reach demo_source = 0" by (simp add: demo_source_def source_new_def Let_def)
  show ?thesis
    unfolding conjunct1 [OF reach_is_last_eight_polls [OF z]] by simp
qed

text \<open>
  A source told to slow down stays slow: after a RATE kiss, no sequence of operations, poll
  adaptation and further replies included, brings its interval below the maximum again.
\<close>
theorem rate_limit_sticks:
  assumes "source_inv s" and "source_step\<^sup>*\<^sup>* (back_off draw tick s) s'"
  shows "src_rate_limited s' \<and> src_poll s' = src_max_poll s' \<and> src_max_poll s' = src_max_poll s"
  using assms(2)
proof (induction rule: rtranclp_induct)
  case base
  then show ?case by (simp add: back_off_def schedule_def Let_def)
next
  case (step y z)
  from step(2,3) show ?case
  proof (induction rule: source_step.induct)
    case (step_prepare A dr wall tick s s' r)
    then show ?case using prepare_fields [OF step_prepare(1)] by simp
  next
    case (step_accept A bs dest tick s s' r)
    then show ?case using accept_fields [OF step_accept(1)] by simp
  qed (auto simp: source_ops Let_def)
qed

theorem rate_limit_sticks_witness:
  "src_poll (adapt_poll fzero fzero (back_off None fzero demo_source)) = 10"
proof -
  have inv: "source_inv demo_source"
    using source_new_inv [of Unauthenticated "''ntp''" "SocketAddr (V4 [192, 0, 2, 1]) 123" 6 10]
    by (simp add: demo_source_def source_inv_def poll_ok_def)
  have m: "src_max_poll demo_source = 10"
    by (simp add: demo_source_def source_new_def clamp_int_def POLL_FLOOR_def POLL_CEILING_def Let_def)
  have "source_step\<^sup>*\<^sup>* (back_off None fzero demo_source) (adapt_poll fzero fzero (back_off None fzero demo_source))"
    by (intro r_into_rtranclp step_adapt)
  from rate_limit_sticks [OF inv this] m show ?thesis by metis
qed

lemma from_unix_era: "uint n \<le> 999999999 \<Longrightarrow> from_unix (s - 2 ^ 32) n = from_unix s n"
proof -
  assume n: "uint n \<le> 999999999"
  have "unix_ticks (s - 2 ^ 32 + UNIX_TO_NTP_ERA0) (uint n)
      = unix_ticks (s + UNIX_TO_NTP_ERA0) (uint n) - 2 ^ 64" by (simp add: unix_ticks_def algebra_simps)
  moreover have "(word_of_int (x - 2 ^ 64) :: u64) = word_of_int x" for x
    by (simp flip: wi_hom_sub)
  ultimately show ?thesis by (simp only: from_unix_ticks [OF n])
qed

text \<open>
  From 2038-01-19 on, the time stamped on every sample is \<open>2\<^sup>3\<^sup>2\<close> seconds early: it resolves
  the era of the request's timestamp against the Unix epoch instead of the local clock, so a
  moment at or past \<open>2\<^sup>3\<^sup>1\<close> lands in the previous era.
\<close>
theorem sample_time_wraps_in_2038:
  assumes "2 ^ 31 \<le> s" "s < 2 ^ 31 + 2 ^ 32" "uint n \<le> 999999999"
  shows "\<exists>nanos. destination_to_seconds dest (from_unix s n)
      = fadd (fadd (f_of_int (s - 2 ^ 32)) (fdiv (f_of_int nanos) (lit 1000000000)))
          (as_seconds_f64 (ts_wrapping_sub dest (from_unix s n)))
    \<and> nanos \<le> uint n \<and> uint n \<le> nanos + 1"
proof -
  have w: "- (2 ^ 31) \<le> s - 2 ^ 32 - 0" "s - 2 ^ 32 - 0 < 2 ^ 31" using assms by simp_all
  note u = to_unix_near_window [OF assms(3) w, unfolded from_unix_era [OF assms(3)]]
  have "destination_to_seconds dest (from_unix s n)
      = fadd (fadd (f_of_int (s - 2 ^ 32))
           (fdiv (f_of_int (uint (snd (to_unix_near (from_unix s n) 0)))) (lit 1000000000)))
          (as_seconds_f64 (ts_wrapping_sub dest (from_unix s n)))"
    unfolding destination_to_seconds_def Let_def case_prod_beta u(1) by simp
  moreover have "uint (snd (to_unix_near (from_unix s n) 0)) \<le> uint n
      \<and> uint n \<le> uint (snd (to_unix_near (from_unix s n) 0)) + 1"
    using u(2) frac_round_trip [of "uint n"] assms(3) by simp
  ultimately show ?thesis by blast
qed

theorem sample_time_wraps_in_2038_witness:
  "\<exists>nanos. destination_to_seconds 0 (from_unix 2147483648 0)
      = fadd (fadd (f_of_int (- 2147483648)) (fdiv (f_of_int nanos) (lit 1000000000)))
          (as_seconds_f64 (ts_wrapping_sub 0 (from_unix 2147483648 0)))"
  using sample_time_wraps_in_2038 [of 2147483648 0 0] by auto

end
