(* ===== verification/SysClock.thy ===== *)
theory SysClock
  imports PollSource Discipline
begin

text \<open>
  The system clock (\<open>timed/src/clock.rs\<close>, with \<open>unix_nanos\<close> of \<open>timed/src/audit.rs\<close>): the requests
  timed makes of the kernel, in full, and the three operations that make them. The kernel is a
  parameter: what \<open>adjtimex(2)\<close> returns and does, and the two clocks it is read through. The
  build timestamp, fixed when the program is compiled, is the argument \<open>build_epoch\<close>.
\<close>

unbundle bit_operations_syntax

section \<open>Definitions\<close>

definition ADJ_FREQUENCY :: u32 where "ADJ_FREQUENCY = 0x0002"
definition ADJ_MAXERROR :: u32 where "ADJ_MAXERROR = 0x0004"
definition ADJ_ESTERROR :: u32 where "ADJ_ESTERROR = 0x0008"
definition ADJ_STATUS :: u32 where "ADJ_STATUS = 0x0010"
definition ADJ_SETOFFSET :: u32 where "ADJ_SETOFFSET = 0x0100"
definition ADJ_NANO :: u32 where "ADJ_NANO = 0x2000"

definition STA_PLL :: u32 where "STA_PLL = 0x0001"
definition STA_FLL :: u32 where "STA_FLL = 0x0008"
definition STA_INS :: u32 where "STA_INS = 0x0010"
definition STA_DEL :: u32 where "STA_DEL = 0x0020"
definition STA_UNSYNC :: u32 where "STA_UNSYNC = 0x0040"
definition STA_FREQHOLD :: u32 where "STA_FREQHOLD = 0x0080"
definition STA_NANO :: u32 where "STA_NANO = 0x2000"

record timex =
  tx_modes :: u32
  tx_freq :: int
  tx_maxerror :: int
  tx_esterror :: int
  tx_status :: u32
  tx_sec :: int
  tx_usec :: int

definition timex_zeroed :: timex where
  "timex_zeroed = \<lparr>tx_modes = 0, tx_freq = 0, tx_maxerror = 0, tx_esterror = 0, tx_status = 0,
     tx_sec = 0, tx_usec = 0\<rparr>"

record steering =
  st_frequency :: f64
  st_max_error :: f64
  st_est_error :: f64
  st_synchronised :: bool
  st_leap :: leap

datatype clock_error = StepOfNaN | BelowFloor f64 | OsError

text \<open>
  The kernel: \<open>adjtimex\<close> returns its result code, the structure it wrote back and its next
  state; the wall clock is read in nanoseconds since the Unix epoch.
\<close>

record 'k kernel =
  k_adjtimex :: "timex \<Rightarrow> 'k \<Rightarrow> int \<times> timex \<times> 'k"
  k_wall :: "'k \<Rightarrow> int"

text \<open>\<open>Clock::now\<close>: before 1970 the duration to the epoch, its seconds negated.\<close>

definition clock_now :: "int \<Rightarrow> int \<times> int" where
  "clock_now nanos =
     (if 0 \<le> nanos then (nanos div 1000000000, nanos mod 1000000000)
      else (- ((- nanos) div 1000000000), (- nanos) mod 1000000000))"

definition now_f64 :: "int \<times> int \<Rightarrow> f64" where
  "now_f64 p = fadd (f_of_int (fst p)) (fdiv (f_of_int (snd p)) (lit 1000000000))"

text \<open>\<open>audit::unix_nanos\<close>: a count of nanoseconds, absent before the epoch or out of range.\<close>

definition unix_nanos :: "int \<Rightarrow> int \<Rightarrow> nat option" where
  "unix_nanos seconds nanos =
     (if seconds < 0 then None
      else let n = seconds * 1000000000 in
        if 2 ^ 64 \<le> n then None else if 2 ^ 64 \<le> n + nanos then None else Some (nat (n + nanos)))"

definition now_nanos :: "int \<Rightarrow> nat option" where
  "now_nanos nanos = (case clock_now nanos of (s, ns) \<Rightarrow> unix_nanos s ns)"

definition monotonic_reading :: "int \<Rightarrow> int \<Rightarrow> int \<Rightarrow> f64" where
  "monotonic_reading rc sec nsec =
     (if rc \<noteq> 0 then fzero else fadd (f_of_int sec) (fdiv (f_of_int nsec) (lit 1000000000)))"

definition adjtimex :: "'k kernel \<Rightarrow> timex \<Rightarrow> 'k \<Rightarrow> (clock_error + timex) \<times> 'k" where
  "adjtimex K tx k = (case k_adjtimex K tx k of (rc, tx', k') \<Rightarrow>
     (if rc < 0 then Inl OsError else Inr tx', k'))"

definition steer_ppm :: "f64 \<Rightarrow> f64" where
  "steer_ppm frequency =
     (if is_finite frequency then fclamp (fmul frequency (lit 1000000)) (fneg (lit 32768)) (lit 32768)
      else fzero)"

definition error_micros :: "f64 \<Rightarrow> int" where
  "error_micros e = f_to_i64 (fmin (fmul (fmax e fzero) (lit 1000000)) (lit 1000000000))"

definition steer_status :: "bool \<Rightarrow> leap \<Rightarrow> u32" where
  "steer_status synchronised lp =
     (let status = (STA_NANO OR STA_FREQHOLD) AND NOT (STA_PLL OR STA_FLL);
          status = (if \<not> synchronised then status OR STA_UNSYNC else status)
      in case lp of LeapInsertSecond \<Rightarrow> status OR STA_INS
         | LeapDeleteSecond \<Rightarrow> status OR STA_DEL
         | LeapNone \<Rightarrow> status)"

definition steer_request :: "steering \<Rightarrow> timex" where
  "steer_request st = timex_zeroed
     \<lparr>tx_modes := ADJ_FREQUENCY OR ADJ_STATUS OR ADJ_MAXERROR OR ADJ_ESTERROR,
      tx_freq := f_to_i64 (fmul (steer_ppm (st_frequency st)) (lit 65536)),
      tx_maxerror := error_micros (st_max_error st),
      tx_esterror := error_micros (st_est_error st),
      tx_status := steer_status (st_synchronised st) (st_leap st)\<rparr>"

definition clock_steer :: "'k kernel \<Rightarrow> steering \<Rightarrow> 'k \<Rightarrow> (clock_error + unit) \<times> 'k" where
  "clock_steer K st k = (case adjtimex K (steer_request st) k of
     (Inl e, k') \<Rightarrow> (Inl e, k') | (Inr _, k') \<Rightarrow> (Inr (), k'))"

text \<open>\<open>x % 1.0\<close>, \<open>x.div_euclid(1.0)\<close> and \<open>x.rem_euclid(1.0)\<close> of a finite \<open>x\<close>.\<close>

fun f_trunc :: "f64 \<Rightarrow> f64" where
  "f_trunc (Fin s m) = Fin s (of_int \<lfloor>m\<rfloor>)"
| "f_trunc x = x"

fun f_rem1 :: "f64 \<Rightarrow> f64" where
  "f_rem1 (Fin s m) = Fin s (m - of_int \<lfloor>m\<rfloor>)"
| "f_rem1 x = NaN"

definition div_euclid1 :: "f64 \<Rightarrow> f64" where
  "div_euclid1 x = (if flt (f_rem1 x) fzero then fsub (f_trunc x) (lit 1) else f_trunc x)"

definition rem_euclid1 :: "f64 \<Rightarrow> f64" where
  "rem_euclid1 x = (if flt (f_rem1 x) fzero then fadd (f_rem1 x) (lit 1) else f_rem1 x)"

definition step_timex :: "f64 \<Rightarrow> timex" where
  "step_timex seconds = timex_zeroed
     \<lparr>tx_modes := ADJ_SETOFFSET OR ADJ_NANO,
      tx_sec := f_to_i64 (div_euclid1 seconds),
      tx_usec := f_to_i64 (fmul (rem_euclid1 seconds) (lit 1000000000))\<rparr>"

definition clock_step :: "'k kernel \<Rightarrow> int \<Rightarrow> f64 \<Rightarrow> 'k \<Rightarrow> (clock_error + unit) \<times> 'k" where
  "clock_step K build_epoch seconds k =
     (if \<not> is_finite seconds then (Inl StepOfNaN, k)
      else let landing = fadd (f_of_int (fst (clock_now (k_wall K k)))) seconds in
        if flt landing (f_of_int build_epoch) then (Inl (BelowFloor landing), k)
        else case adjtimex K (step_timex seconds) k of
               (Inl e, k') \<Rightarrow> (Inl e, k') | (Inr _, k') \<Rightarrow> (Inr (), k'))"

definition floor_timex :: "int \<Rightarrow> timex" where
  "floor_timex by_seconds = timex_zeroed
     \<lparr>tx_modes := ADJ_SETOFFSET OR ADJ_NANO, tx_sec := f_to_i64 (f_of_int by_seconds), tx_usec := 0\<rparr>"

definition enforce_floor :: "'k kernel \<Rightarrow> int \<Rightarrow> 'k \<Rightarrow> (clock_error + f64) \<times> 'k" where
  "enforce_floor K build_epoch k =
     (let now = fst (clock_now (k_wall K k)) in
      if build_epoch \<le> now then (Inr fzero, k)
      else case adjtimex K (floor_timex (build_epoch - now)) k of
             (Inl e, k') \<Rightarrow> (Inl e, k') | (Inr _, k') \<Rightarrow> (Inr (f_of_int (build_epoch - now)), k'))"

definition read_frequency :: "'k kernel \<Rightarrow> 'k \<Rightarrow> (clock_error + f64) \<times> 'k" where
  "read_frequency K k = (case adjtimex K timex_zeroed k of
     (Inl e, k') \<Rightarrow> (Inl e, k')
   | (Inr tx, k') \<Rightarrow> (Inr (fdiv (fdiv (f_of_int (tx_freq tx)) (lit 65536)) (lit 1000000)), k'))"


section \<open>What a step asks for\<close>

lemma f_to_i64_close:
  assumes "is_finite x" "\<bar>val x\<bar> \<le> 2 ^ 62"
  shows "\<bar>of_int (f_to_i64 x) - val x\<bar> < 1"
proof -
  obtain s m where x: "x = Fin s m" using assms(1) by (cases x) auto
  have "\<bar>of_int (rat_trunc (val x)) - val x\<bar> < 1"
    by (auto simp: rat_trunc_def abs_less_iff) linarith+
  moreover have "i64_min \<le> rat_trunc (val x)" "rat_trunc (val x) \<le> i64_max"
    using assms(2) unfolding rat_trunc_def i64_min_def i64_max_def
    by (auto simp: abs_le_iff floor_le_iff le_floor_iff) linarith+
  ultimately show ?thesis by (simp add: x del: val.simps)
qed

lemma f_to_i64_integer: "in_i64 n \<Longrightarrow> is_finite x \<Longrightarrow> val x = of_int n \<Longrightarrow> f_to_i64 x = n"
  by (cases x) (auto simp: in_i64_def rat_trunc_def max_def min_def simp del: val.simps)

lemma billion_lit: "lit 1000000000 = Fin False 1000000000"
  by (simp add: rnd_eval)

lemma nanos_close:
  assumes "0 \<le> g" "g \<le> 1"
  shows "\<bar>of_int (f_to_i64 (fmul (Fin False g) (lit 1000000000))) - g * 1000000000\<bar> < 1 + 1 / 1000000"
proof -
  let ?y = "rnd False (g * 1000000000)"
  have "ilog2 (2 ^ 30) = 30" by (rule ilog2_eqI) simp_all
  then have q: "quantum (2 ^ 30) \<le> 1 / 1000000" by (simp add: quantum_def power_int_minus)
  have r: "0 \<le> g * 1000000000" "g * 1000000000 \<le> 2 ^ 30" using assms by simp_all
  then have e: "\<bar>val ?y - g * 1000000000\<bar> \<le> 1 / 1000000"
    using rnd_error [OF r] q by (simp add: power_increasing)
  have fin: "is_finite ?y" using r by (intro rnd_finite) (rule order.trans [of _ "2 ^ 30"], simp_all)
  have "\<bar>val ?y\<bar> \<le> 2 ^ 62" using e r unfolding abs_le_iff by simp
  from f_to_i64_close [OF fin this] e
  have "\<bar>of_int (f_to_i64 ?y) - g * 1000000000\<bar> < 1 + 1 / 1000000" by linarith
  then show ?thesis by (simp add: billion_lit)
qed


lemma f_trunc_integer: "f_to_i64 (f_trunc (Fin s m)) = (if s then - \<lfloor>m\<rfloor> else \<lfloor>m\<rfloor>)"
  if "0 \<le> m" "m \<le> 2 ^ 62"
proof (rule f_to_i64_integer)
  obtain n where n: "\<lfloor>m\<rfloor> = n" by blast
  then have "0 \<le> n" "n \<le> 2 ^ 62" using that by (auto simp flip: n simp: floor_le_iff)
  then show "in_i64 (if s then - \<lfloor>m\<rfloor> else \<lfloor>m\<rfloor>)"
    by (auto simp: n in_i64_def i64_min_def i64_max_def)
qed auto

text \<open>A step's seconds and nanoseconds add up to the step, to two nanoseconds.\<close>

lemma step_timex_close:
  assumes "is_finite x" "f64_ok x" "\<bar>val x\<bar> \<le> 2 ^ 62"
  shows "\<bar>of_int (tx_sec (step_timex x) * 1000000000 + tx_usec (step_timex x)) - val x * 1000000000\<bar> \<le> 2"
proof -
  obtain s m where x: "x = Fin s m" using assms(1) by (cases x) auto
  have rep: "rep m" using assms(2) x by simp
  then have m: "0 \<le> m" "m \<le> 2 ^ 62" using assms(3) x by (auto simp: rep_nonneg split: if_splits)
  let ?i = "\<lfloor>m\<rfloor>" and ?r = "m - of_int \<lfloor>m\<rfloor>"
  have r: "0 \<le> ?r" "?r < 1" by linarith+
  show ?thesis
  proof (cases "s \<and> ?r \<noteq> 0")
    case False
    have "\<not> m < of_int ?i" by (simp add: not_less)
    then have "flt (f_rem1 x) fzero \<longleftrightarrow> False" using False by (auto simp: x flt_val)
    then have "tx_sec (step_timex x) = (if s then - ?i else ?i)"
      "tx_usec (step_timex x) = f_to_i64 (fmul (Fin s ?r) (lit 1000000000))"
      using f_trunc_integer [OF m] by (simp_all add: step_timex_def div_euclid1_def rem_euclid1_def x)
    moreover have "s \<Longrightarrow> m = of_int ?i" using False by simp
    ultimately show ?thesis using nanos_close [of ?r] r
      by (cases s) (auto simp: x billion_lit rat_trunc_def i64_min_def i64_max_def algebra_simps)
  next
    case True
    then have "of_int ?i < m" using of_int_floor_le [of m] unfolding le_less by auto
    then have neg: "flt (f_rem1 x) fzero" using True by (simp add: x flt_val)
    have "m < 2 ^ 52" using rep_ge_integer [OF rep] True by force
    obtain n where n: "?i = n" by blast
    have i: "0 \<le> n" "n < 2 ^ 52" using m \<open>m < 2 ^ 52\<close> by (simp_all flip: n add: floor_less_iff)
    have one: "lit 1 = Fin False 1" by (simp add: rnd_eval)
    have "fsub (f_trunc x) (lit 1) = fround True (of_int (- ?i - 1))"
      using True by (simp add: x one fsub_def)
    then have w: "fsub (f_trunc x) (lit 1) = f_of_int (- ?i - 1)"
    proof -
      have "0 \<le> rat_of_int n" using i(1) by (simp only: of_int_0_le_iff)
      then have "- 1 < rat_of_int n" "rat_of_int n \<noteq> - 1" "\<bar>- rat_of_int n - 1\<bar> = 1 + of_int n" by linarith+
      with \<open>fsub (f_trunc x) (lit 1) = _\<close> show ?thesis by (simp add: n f_of_int_def fround_def)
    qed
    have "f_to_i64 (f_of_int (- ?i - 1)) = - ?i - 1"
      using f_of_int_exact [of "- n - 1"] i unfolding n
      by (intro f_to_i64_integer) (auto simp: in_i64_def i64_min_def i64_max_def)
    then have sec: "tx_sec (step_timex x) = - ?i - 1"
      using neg w by (simp add: step_timex_def div_euclid1_def)
    obtain g where g: "fadd (f_rem1 x) (lit 1) = Fin False g" "\<bar>g - (1 - ?r)\<bar> \<le> quantum 1" "0 \<le> g" "g \<le> 1"
    proof -
      have "fadd (f_rem1 x) (lit 1) = rnd False (1 - ?r)"
        using True r by (simp add: x one fround_def algebra_simps)
      moreover have "rnd False (1 - ?r) = Fin False (round_mag (1 - ?r))"
        using rep_round_le [of 1 "1 - ?r"] r by (simp add: rnd_def Let_def f64_top_def)
      moreover have "\<bar>round_mag (1 - ?r) - (1 - ?r)\<bar> \<le> quantum 1"
        using round_mag_error [of "1 - ?r"] quantum_mono [of "1 - ?r" 1] r by simp
      ultimately show ?thesis using that rep_round_le [of 1 "1 - ?r"] r by simp
    qed
    have q: "quantum 1 \<le> 1 / 10000000000" by (simp add: quantum_def ilog2_base power_int_minus)
    have usec: "tx_usec (step_timex x) = f_to_i64 (fmul (Fin False g) (lit 1000000000))"
      using neg g(1) by (simp add: step_timex_def rem_euclid1_def)
    have "\<bar>of_int (tx_usec (step_timex x)) - (1 - ?r) * 1000000000\<bar> \<le> 2"
      using nanos_close [OF g(3,4)] g(2) q unfolding usec abs_le_iff abs_less_iff by (simp add: algebra_simps)
    moreover have "val x = - m" using True by (simp add: x)
    ultimately show ?thesis unfolding sec n [symmetric] by (simp add: algebra_simps)
  qed
qed

section \<open>Landing\<close>

text \<open>A landing the floor test lets through is above the floor, up to the test's rounding.\<close>

lemma landing_above_floor:
  assumes "\<not> flt (fadd (f_of_int n) x) (f_of_int build_epoch)"
    and "is_finite x" "\<bar>n\<bar> \<le> 2 ^ 53" "0 < build_epoch" "build_epoch < 2 ^ 32"
  shows "of_int build_epoch - 1 / 2 ^ 21 < of_int n + val x"
proof (rule ccontr)
  assume "\<not> ?thesis"
  then have le: "of_int n + val x \<le> of_int (build_epoch * 2 ^ 21 - 1) / 2 ^ 21" by (simp add: field_simps)
  let ?k = "build_epoch * 2 ^ 21 - 1"
  have k: "0 < ?k" "?k \<le> 2 ^ 53" using assms(4,5) by simp_all
  have "rep (of_int ?k * 2 powi (- 21))" by (rule rep_dyadic [OF less_imp_le [OF k(1)] k(2)]) simp
  moreover have "(2::rat) powi (- 21) = 1 / 2 ^ 21" by (simp add: power_int_minus)
  ultimately have rep: "rep (of_int ?k / 2 ^ 21)" by (simp only: times_divide_eq_right mult_1_right)
  have "rat_of_int build_epoch \<le> of_int (2 ^ 32)" using assms(5) by (simp only: of_int_le_iff)
  then have b: "of_int ?k / 2 ^ 21 < (2::rat) ^ 32" by (simp add: field_simps)
  obtain z where "fadd (f_of_int n) x = fround z (of_int n + val x)"
    using fadd_fin [of "f_of_int n" x] f_of_int_exact [OF assms(3)] assms(2) by auto
  with fround_mono [OF le] have f: "fle (fadd (f_of_int n) x) (fround False (of_int ?k / 2 ^ 21))" by simp
  have pos: "0 < rat_of_int ?k / 2 ^ 21" using k(1) by (simp only: zero_less_divide_iff of_int_0_less_iff) simp
  have "of_int ?k / 2 ^ 21 < f64_top" by (rule less_trans [OF b]) (simp add: f64_top_def)
  then have g: "fround False (of_int ?k / 2 ^ 21) = Fin False (of_int ?k / 2 ^ 21)"
    using rep pos by (simp add: fround_def rnd_def Let_def rep_def del: of_int_diff of_int_mult)
  have "flt (Fin False (of_int ?k / 2 ^ 21)) (f_of_int build_epoch)"
    using f_of_int_exact [of build_epoch] assms(4,5) by (simp add: flt_val field_simps)
  with f g have "flt (fadd (f_of_int n) x) (f_of_int build_epoch)" by (simp add: fle_lt_trans)
  with assms(1) show False by blast
qed

lemma clock_now_value:
  "clock_now t = (s, ns) \<Longrightarrow> 0 \<le> t \<Longrightarrow> t = s * 1000000000 + ns \<and> 0 \<le> ns \<and> ns < 1000000000 \<and> 0 \<le> s"
  by (auto simp: clock_now_def pos_imp_zdiv_nonneg_iff)

text \<open>
  What \<open>adjtimex(2)\<close> documents of an offset: when the call succeeds, the clock has moved by
  exactly the seconds and nanoseconds given.
\<close>

definition sets_offset :: "'k kernel \<Rightarrow> bool" where
  "sets_offset K \<longleftrightarrow> (\<forall>tx k rc tx' k'. k_adjtimex K tx k = (rc, tx', k') \<and> 0 \<le> rc
     \<and> tx_modes tx = ADJ_SETOFFSET OR ADJ_NANO
     \<longrightarrow> k_wall K k' = k_wall K k + tx_sec tx * 1000000000 + tx_usec tx)"

lemma adjtimex_offset:
  assumes "sets_offset K" "adjtimex K tx k = (Inr tx', k')" "tx_modes tx = ADJ_SETOFFSET OR ADJ_NANO"
  shows "k_wall K k' = k_wall K k + tx_sec tx * 1000000000 + tx_usec tx"
proof -
  obtain rc where "k_adjtimex K tx k = (rc, tx', k')" "0 \<le> rc"
    using assms(2) by (auto simp: adjtimex_def split: prod.splits if_splits)
  with assms(1,3) show ?thesis unfolding sets_offset_def by blast
qed

lemma step_moves:
  assumes "sets_offset K" and "clock_step K build_epoch seconds k = (Inr (), k')"
    and "0 \<le> k_wall K k" "k_wall K k < 2 ^ 53 * 1000000000"
    and "0 < build_epoch" "build_epoch < 2 ^ 32" "f64_ok seconds" "\<bar>val seconds\<bar> \<le> 2 ^ 62"
  shows "\<bar>of_int (k_wall K k' - k_wall K k) - val seconds * 1000000000\<bar> \<le> 2
    \<and> build_epoch * 1000000000 - 1000 \<le> k_wall K k'"
proof -
  obtain s ns where now: "clock_now (k_wall K k) = (s, ns)" by fastforce
  from clock_now_value [OF now assms(3)] have t: "k_wall K k = s * 1000000000 + ns" "0 \<le> ns" "0 \<le> s"
    by simp_all
  then have s: "\<bar>s\<bar> \<le> 2 ^ 53" using assms(4) by simp
  from assms(2) obtain tx' where fin: "is_finite seconds"
    and land: "\<not> flt (fadd (f_of_int s) seconds) (f_of_int build_epoch)"
    and adj: "adjtimex K (step_timex seconds) k = (Inr tx', k')"
    by (auto simp: clock_step_def now Let_def split: if_splits sum.splits prod.splits)
  let ?d = "tx_sec (step_timex seconds) * 1000000000 + tx_usec (step_timex seconds)"
  have moved: "k_wall K k' = k_wall K k + ?d"
    using adjtimex_offset [OF assms(1) adj] by (simp add: step_timex_def)
  have close: "\<bar>of_int ?d - val seconds * 1000000000\<bar> \<le> 2"
    by (rule step_timex_close [OF fin assms(7,8)])
  have "of_int build_epoch - 1 / 2 ^ 21 < of_int s + val seconds"
    by (rule landing_above_floor [OF land fin s assms(5,6)])
  then have "rat_of_int (build_epoch * 1000000000 - 1000) \<le> of_int (s * 1000000000 + ?d)"
    using close by (simp add: abs_le_iff)
  then have "build_epoch * 1000000000 - 1000 \<le> s * 1000000000 + ?d" by (simp only: of_int_le_iff)
  with moved close t show ?thesis by simp
qed

text \<open>
  C31: a step lands where it was told, and never before the build floor: after a step that
  succeeds, on a clock reading a time after 1970, the clock has moved by the amount asked for to
  within two nanoseconds, and reads no more than a microsecond before the build timestamp. The
  kernel is assumed to apply an accepted offset as documented.
\<close>
theorem step_lands_above_floor:
  assumes "sets_offset K" and "clock_step K build_epoch seconds k = (Inr (), k')"
    and "0 \<le> k_wall K k" "k_wall K k < 2 ^ 53 * 1000000000"
    and "0 < build_epoch" "build_epoch < 2 ^ 32" "f64_ok seconds" "\<bar>val seconds\<bar> \<le> 2 ^ 62"
  shows "\<bar>of_int (k_wall K k' - k_wall K k) - val seconds * 1000000000\<bar> \<le> 2
    \<and> build_epoch * 1000000000 - 1000 \<le> k_wall K k'"
  using assms by (rule step_moves)

text \<open>A kernel that does what is documented, for the witnesses: its state is its clock.\<close>

definition plain_kernel :: "int kernel" where
  "plain_kernel = \<lparr>k_adjtimex = (\<lambda>tx t. (0, tx, if tx_modes tx = ADJ_SETOFFSET OR ADJ_NANO
       then t + tx_sec tx * 1000000000 + tx_usec tx else t)), k_wall = (\<lambda>t. t)\<rparr>"

lemma plain_kernel_sets_offset: "sets_offset plain_kernel"
  by (simp add: sets_offset_def plain_kernel_def)

theorem step_lands_above_floor_witness:
  "clock_step plain_kernel 1700000000 (Fin False 2) 1800000000000000005 = (Inr (), 1800000002000000005)
   \<and> 1700000000 * 1000000000 - 1000 \<le> k_wall plain_kernel 1800000002000000005"
proof -
  have step: "clock_step plain_kernel 1700000000 (Fin False 2) 1800000000000000005 = (Inr (), 1800000002000000005)"
    by (simp add: clock_step_def plain_kernel_def clock_now_def adjtimex_def step_timex_def timex_zeroed_def
        div_euclid1_def rem_euclid1_def f_of_int_def fround_def rnd_eval flt_def rat_trunc_def
        i64_min_def i64_max_def)
  have "f64_ok (Fin False 2)" by (simp add: f64_top_def)
  with step_lands_above_floor [OF plain_kernel_sets_offset step] step show ?thesis
    by (simp add: plain_kernel_def)
qed

section \<open>The floor at startup\<close>

text \<open>
  Raising the clock to the build floor works whenever the clock reads 1970 or later; before
  that it falls short by the fraction of a second the clock stood before a whole one, because
  the reading negates the seconds but not the nanoseconds. So a clock \<open>n\<close> nanoseconds before
  1970 is left \<open>n mod 10\<^sup>9\<close> nanoseconds below the build timestamp.
\<close>
theorem floor_enforcement:
  assumes "sets_offset K" and "enforce_floor K build_epoch k = (Inr by_how_much, k')"
    and "0 < build_epoch" "build_epoch < 2 ^ 32" "\<bar>k_wall K k\<bar> \<le> 2 ^ 52 * 1000000000"
  shows "(0 \<le> k_wall K k \<longrightarrow> build_epoch * 1000000000 \<le> k_wall K k')
    \<and> (k_wall K k < 0 \<longrightarrow> k_wall K k' = build_epoch * 1000000000 - (- k_wall K k) mod 1000000000)"
proof (cases "build_epoch \<le> fst (clock_now (k_wall K k))")
  case True
  then have "k' = k" "0 < fst (clock_now (k_wall K k))" using assms(2,3) by (simp_all add: enforce_floor_def)
  moreover have "build_epoch * 1000000000 \<le> k_wall K k" if "0 \<le> k_wall K k"
    using clock_now_value [OF prod.collapse [symmetric] that] True by auto
  moreover have "\<not> k_wall K k < 0"
    using \<open>0 < fst _\<close> by (auto simp: clock_now_def split: if_splits)
  ultimately show ?thesis by simp
next
  case False
  let ?now = "fst (clock_now (k_wall K k))"
  from False assms(2) obtain tx' where adj: "adjtimex K (floor_timex (build_epoch - ?now)) k = (Inr tx', k')"
    by (auto simp: enforce_floor_def Let_def split: sum.splits prod.splits)
  have "- (2 ^ 52) \<le> ?now"
    using assms(5) by (auto simp: clock_now_def)
  then have r: "0 < build_epoch - ?now" "build_epoch - ?now \<le> 2 ^ 53" using False assms(4) by simp_all
  have "f_to_i64 (f_of_int (build_epoch - ?now)) = build_epoch - ?now"
    using f_of_int_exact [of "build_epoch - ?now"] r
    by (intro f_to_i64_integer) (simp_all add: in_i64_def i64_min_def i64_max_def)
  then have moved: "k_wall K k' = k_wall K k + (build_epoch - ?now) * 1000000000"
    using adjtimex_offset [OF assms(1) adj] by (simp add: floor_timex_def)
  show ?thesis
  proof (cases "0 \<le> k_wall K k")
    case True
    from clock_now_value [OF prod.collapse [symmetric] True] moved True show ?thesis by (simp add: algebra_simps)
  next
    case False
    have "(- k_wall K k) = (- k_wall K k) div 1000000000 * 1000000000 + (- k_wall K k) mod 1000000000"
      by simp
    with False moved show ?thesis by (simp add: clock_now_def algebra_simps)
  qed
qed

theorem floor_enforcement_witness:
  "enforce_floor plain_kernel 1700000000 (- 1500000000) = (Inr (f_of_int 1700000001), 1699999999500000000)
   \<and> k_wall plain_kernel 1699999999500000000 = 1700000000 * 1000000000 - 500000000"
proof -
  have e: "enforce_floor plain_kernel 1700000000 (- 1500000000) = (Inr (f_of_int 1700000001), 1699999999500000000)"
    by (simp add: enforce_floor_def plain_kernel_def clock_now_def adjtimex_def floor_timex_def timex_zeroed_def
        f_of_int_def fround_def rnd_eval rat_trunc_def i64_min_def i64_max_def)
  from floor_enforcement [OF plain_kernel_sets_offset e] e show ?thesis
    by (simp add: plain_kernel_def)
qed

section \<open>What steering asks for\<close>

lemma rat_trunc_mono: "v \<le> w \<Longrightarrow> rat_trunc v \<le> rat_trunc w"
proof -
  assume le: "v \<le> w"
  have "rat_trunc v \<le> 0" if "v < 0" using that by (simp add: rat_trunc_def)
  moreover have "0 \<le> rat_trunc w" if "0 \<le> w" using that by (simp add: rat_trunc_def)
  moreover have "rat_trunc v \<le> rat_trunc w" if "0 \<le> v \<or> w < 0"
    using that le floor_mono [OF le] floor_mono [of "- w" "- v"] by (auto simp: rat_trunc_def)
  ultimately show ?thesis by (cases "v < 0"; cases "w < 0") force+
qed

lemma f_to_i64_mono: "fle x y \<Longrightarrow> f_to_i64 x \<le> f_to_i64 y"
  using rat_trunc_mono [of "val x" "val y"]
  by (cases x; cases y) (auto simp: fle_def i64_min_def i64_max_def max_def min_def simp del: val.simps split: if_splits)

lemma scale_lits: "lit 65536 = Fin False 65536" "lit 1000000 = Fin False 1000000" "lit 32768 = Fin False 32768"
  by (simp_all add: rnd_eval)

lemma steer_ppm_finite: "is_finite (steer_ppm r) \<and> fle (fneg (lit 32768)) (steer_ppm r) \<and> fle (steer_ppm r) (lit 32768)"
proof (cases "is_finite r")
  case True
  then have "\<not> is_nan (fmul r (lit 1000000))" by (cases r) (simp_all add: scale_lits)
  moreover have "fle (fneg (lit 32768)) (lit 32768)" by (simp add: scale_lits fle_val)
  ultimately show ?thesis
    using True fclamp_bounds fclamp_finite by (simp add: steer_ppm_def scale_lits)
next
  case False
  then show ?thesis by (simp add: steer_ppm_def scale_lits fle_val)
qed

lemma steer_ppm_ok: "f64_ok (steer_ppm r)"
  by (auto simp: steer_ppm_def fclamp_def f64_top_def)

lemma freq_bound:
  assumes "fle (fneg b) (steer_ppm r)" "fle (steer_ppm r) b" "is_finite b" "f64_ok b"
    "st_frequency st = r"
  shows "f_to_i64 (fmul (fneg b) (lit 65536)) \<le> tx_freq (steer_request st)
    \<and> tx_freq (steer_request st) \<le> f_to_i64 (fmul b (lit 65536))"
proof -
  have "fle (fmul (fneg b) (lit 65536)) (fmul (steer_ppm r) (lit 65536))"
    "fle (fmul (steer_ppm r) (lit 65536)) (fmul b (lit 65536))"
    unfolding scale_lits(1) using assms steer_ppm_finite [of r] steer_ppm_ok [of r]
    by (auto intro!: fmul_const_mono)
  from this [THEN f_to_i64_mono] show ?thesis using assms(5) by (simp add: steer_request_def)
qed

lemma error_micros_bounds: "f64_ok e \<Longrightarrow> 0 \<le> error_micros e \<and> error_micros e \<le> 1000000000"
proof -
  assume ok: "f64_ok e"
  let ?y = "fmul (fmax e fzero) (lit 1000000)"
  have "fnonneg (fmax e fzero)" by (rule fmax_nonneg) (simp add: fnonneg_cases)
  moreover have "f64_ok (fmax e fzero)" using ok by (simp add: f64_top_def)
  ultimately have y: "fnonneg ?y"
    by (cases "fmax e fzero") (auto simp: scale_lits fnonneg_cases rnd_def Let_def dest: rep_nonneg split: if_splits)
  have hi: "fle (fmin ?y (lit 1000000000)) (lit 1000000000)" by (rule fmin_le2) (simp add: billion_lit)
  have "fle fzero (fmin ?y (lit 1000000000))"
    using y fmin_cases [of ?y "lit 1000000000"] by (auto simp: fnonneg_def billion_lit fle_val)
  from f_to_i64_mono [OF this] f_to_i64_mono [OF hi] show ?thesis
    by (simp add: error_micros_def billion_lit rat_trunc_def i64_min_def i64_max_def)
qed

lemmas status_defs = steer_status_def STA_PLL_def STA_FLL_def STA_INS_def STA_DEL_def STA_UNSYNC_def
  STA_FREQHOLD_def STA_NANO_def Let_def

lemma steer_status_bits:
  "steer_status sync lp AND (STA_PLL OR STA_FLL) = 0
   \<and> (steer_status sync lp AND STA_UNSYNC = 0 \<longleftrightarrow> sync)
   \<and> (steer_status sync lp AND STA_INS \<noteq> 0 \<longleftrightarrow> lp = LeapInsertSecond)
   \<and> (steer_status sync lp AND STA_DEL \<noteq> 0 \<longleftrightarrow> lp = LeapDeleteSecond)"
  by (cases sync; cases lp) (simp_all add: status_defs)

text \<open>
  Every request to steer the clock is one the kernel can take as meant, whatever the numbers
  behind it, NaN and infinities included: the rate is within 32,768 ppm, and within the kernel's
  own 500 ppm limit whenever it is a rate the discipline hands out; both error bounds are between
  zero and 1,000 seconds; the kernel's own control loop is off; the unsynchronised flag is set
  exactly when timed is not synchronised; and the leap flags say exactly what was announced.
\<close>
theorem steer_request_in_range:
  assumes "f64_ok (st_max_error st)" "f64_ok (st_est_error st)"
  shows "\<bar>tx_freq (steer_request st)\<bar> \<le> 2 ^ 31
    \<and> (bounded_rate (st_frequency st) \<and> f64_ok (st_frequency st) \<longrightarrow> \<bar>tx_freq (steer_request st)\<bar> \<le> 500 * 2 ^ 16)
    \<and> 0 \<le> tx_maxerror (steer_request st) \<and> tx_maxerror (steer_request st) \<le> 10 ^ 9
    \<and> 0 \<le> tx_esterror (steer_request st) \<and> tx_esterror (steer_request st) \<le> 10 ^ 9
    \<and> tx_status (steer_request st) AND (STA_PLL OR STA_FLL) = 0
    \<and> (tx_status (steer_request st) AND STA_UNSYNC = 0 \<longleftrightarrow> st_synchronised st)
    \<and> (tx_status (steer_request st) AND STA_INS \<noteq> 0 \<longleftrightarrow> st_leap st = LeapInsertSecond)
    \<and> (tx_status (steer_request st) AND STA_DEL \<noteq> 0 \<longleftrightarrow> st_leap st = LeapDeleteSecond)"
proof -
  let ?r = "st_frequency st"
  note eval = scale_lits rnd_eval rat_trunc_def i64_min_def i64_max_def
  have oks: "f64_ok (Fin False 32768)" "f64_ok (Fin False 500)"
    using rep_of_int [of 32768] rep_of_int [of 500] by (simp_all add: f64_top_def)
  have "\<bar>tx_freq (steer_request st)\<bar> \<le> 2 ^ 31"
    using freq_bound [of "Fin False 32768" ?r st] steer_ppm_finite [of ?r] oks(1)
    by (auto simp: eval abs_le_iff simp del: f64_ok.simps)
  moreover have "\<bar>tx_freq (steer_request st)\<bar> \<le> 500 * 2 ^ 16" if b: "bounded_rate ?r" and ok: "f64_ok ?r"
  proof -
    have M: "fmul MAX_FREQUENCY (lit 1000000) = Fin False 500"
      "fmul (fneg MAX_FREQUENCY) (lit 1000000) = Fin True 500" "f64_ok MAX_FREQUENCY" "is_finite MAX_FREQUENCY"
      by (simp_all add: MAX_FREQUENCY_def) (simp_all add: rnd_eval)
    have fin: "is_finite ?r"
      using b M(4) is_finite_between [of "fneg MAX_FREQUENCY" ?r MAX_FREQUENCY] by (simp add: bounded_rate_def)
    have "fle (Fin True 500) (fmul ?r (lit 1000000))" "fle (fmul ?r (lit 1000000)) (Fin False 500)"
      unfolding M(1,2) [symmetric] scale_lits(2) using b ok fin M(3,4)
      by (auto intro!: fmul_const_mono simp: bounded_rate_def)
    moreover from this have "fclamp (fmul ?r (lit 1000000)) (fneg (lit 32768)) (lit 32768) = fmul ?r (lit 1000000)"
      using fle_trans [of "Fin True 32768" "Fin True 500"] fle_trans [of _ "Fin False 500" "Fin False 32768"]
      by (intro fclamp_id) (simp_all add: scale_lits fle_val [of "Fin _ _" "Fin _ _"])
    ultimately have "fle (fneg (Fin False 500)) (steer_ppm ?r)" "fle (steer_ppm ?r) (Fin False 500)"
      using fin by (simp_all add: steer_ppm_def)
    from freq_bound [OF this _ oks(2), of st] show ?thesis
      by (auto simp: eval abs_le_iff simp del: f64_ok.simps)
  qed
  moreover have "tx_status (steer_request st) = steer_status (st_synchronised st) (st_leap st)"
    "tx_maxerror (steer_request st) = error_micros (st_max_error st)"
    "tx_esterror (steer_request st) = error_micros (st_est_error st)" by (simp_all add: steer_request_def)
  ultimately show ?thesis
    using error_micros_bounds [OF assms(1)] error_micros_bounds [OF assms(2)] steer_status_bits by simp
qed

theorem steer_request_in_range_witness:
  "\<bar>tx_freq (steer_request \<lparr>st_frequency = NaN, st_max_error = Inf False, st_est_error = NaN,
      st_synchronised = False, st_leap = LeapInsertSecond\<rparr>)\<bar> \<le> 2 ^ 31
   \<and> tx_status (steer_request \<lparr>st_frequency = NaN, st_max_error = Inf False, st_est_error = NaN,
      st_synchronised = False, st_leap = LeapInsertSecond\<rparr>) AND STA_INS \<noteq> 0"
  using steer_request_in_range [of "\<lparr>st_frequency = NaN, st_max_error = Inf False, st_est_error = NaN,
      st_synchronised = False, st_leap = LeapInsertSecond\<rparr>"] by simp

end
