(* ===== verification/Servers.thy ===== *)
theory Servers
  imports RustText
begin

text \<open>
  The grammar of a \<open>Servers\<close> entry (\<open>libtimed/src/servers.rs\<close>): \<open>parse_server\<close>, which the daemon
  and the programs that write its configuration share. Error texts are reduced to their kind.
\<close>

section \<open>Definitions\<close>

record server_spec =
  sp_host :: string
  sp_port :: "u16 option"
  sp_prefer :: bool
  sp_unauthenticated :: bool

definition server_spec_new :: "string \<Rightarrow> server_spec" where
  "server_spec_new host =
     \<lparr>sp_host = host, sp_port = None, sp_prefer = False, sp_unauthenticated = False\<rparr>"

datatype server_error =
    EmptyEntry
  | NotAHost string
  | UnknownOption string
  | UnclosedBracket string
  | NotAPort string
  | TrailingText string

text \<open>\<open>p.parse::<u16>()\<close>.\<close>

definition parse_port :: "string \<Rightarrow> server_error + u16" where
  "parse_port p = (case parse_unsigned 65535 p of None \<Rightarrow> Inl (NotAPort p) | Some n \<Rightarrow> Inr (of_nat n))"

definition split_host_port :: "string \<Rightarrow> server_error + string \<times> u16 option" where
  "split_host_port target =
     (case strip_prefix CHR ''['' target of
        Some rest \<Rightarrow>
          (case split_once CHR '']'' rest of
             None \<Rightarrow> Inl (UnclosedBracket target)
           | Some (host, after) \<Rightarrow>
               (case strip_prefix CHR '':'' after of
                  Some p \<Rightarrow> rbind (parse_port p) (\<lambda>n. Inr (host, Some n))
                | None \<Rightarrow> if after = [] then Inr (host, None) else Inl (TrailingText target)))
      | None \<Rightarrow>
          (case rsplit_once CHR '':'' target of
             Some (host, port) \<Rightarrow>
               (if 1 < length (filter (\<lambda>c. c = CHR '':'') target) then Inr (target, None)
                else rbind (parse_port port) (\<lambda>n. Inr (host, Some n)))
           | None \<Rightarrow> Inr (target, None)))"

fun read_options :: "string list \<Rightarrow> server_spec \<Rightarrow> server_error + server_spec" where
  "read_options [] spec = Inr spec"
| "read_options (w # ws) spec =
     (if w = ''prefer'' then read_options ws (spec\<lparr>sp_prefer := True\<rparr>)
      else if w = ''unauthenticated'' \<or> w = ''noauth'' then read_options ws (spec\<lparr>sp_unauthenticated := True\<rparr>)
      else Inl (UnknownOption w))"

definition parse_server :: "string \<Rightarrow> server_error + server_spec" where
  "parse_server entry =
     (case split_whitespace entry of
        [] \<Rightarrow> Inl EmptyEntry
      | target # words \<Rightarrow>
          rbind (split_host_port target) (\<lambda>(host, port).
            if host = [] \<or> 253 < length host then Inl (NotAHost target)
            else read_options words
                   \<lparr>sp_host = host, sp_port = port, sp_prefer = False, sp_unauthenticated = False\<rparr>))"

section \<open>Splitting\<close>

lemma split_once_Some: "split_once c s = Some (a, b) \<longleftrightarrow> s = a @ c # b \<and> c \<notin> set a"
proof (induction s arbitrary: a)
  case (Cons x s)
  show ?case by (cases a) (auto simp: Cons.IH)
qed simp

lemma split_once_None: "split_once c s = None \<longleftrightarrow> c \<notin> set s"
  by (induction s) auto

lemma rsplit_once_Some: "rsplit_once c s = Some (a, b) \<longleftrightarrow> s = a @ c # b \<and> c \<notin> set b"
proof -
  have "rsplit_once c s = Some (a, b) \<longleftrightarrow> split_once c (rev s) = Some (rev b, rev a)"
    by (auto simp: rsplit_once_def)
  also have "\<dots> \<longleftrightarrow> rev s = rev (a @ c # b) \<and> c \<notin> set b" by (simp add: split_once_Some)
  finally show ?thesis by (simp only: rev_is_rev_conv)
qed

lemma rsplit_once_None: "rsplit_once c s = None \<longleftrightarrow> c \<notin> set s"
  by (simp add: rsplit_once_def split_once_None)

lemma strip_prefix_Some: "strip_prefix c s = Some r \<longleftrightarrow> s = c # r"
  by (cases s) auto

lemma read_options_Inr:
  "read_options ws spec = Inr spec' \<longleftrightarrow>
     list_all (\<lambda>w. w = ''prefer'' \<or> w = ''unauthenticated'' \<or> w = ''noauth'') ws
     \<and> spec' = spec\<lparr>sp_prefer := sp_prefer spec \<or> ''prefer'' \<in> set ws,
          sp_unauthenticated := sp_unauthenticated spec \<or> ''unauthenticated'' \<in> set ws \<or> ''noauth'' \<in> set ws\<rparr>"
  by (induction ws arbitrary: spec) auto

text \<open>How a host and a port may be written; \<open>colons\<close> is what separates the forms.\<close>

definition colons :: "string \<Rightarrow> nat" where
  "colons s = length (filter (\<lambda>c. c = CHR '':'') s)"

inductive target_form :: "string \<Rightarrow> string \<Rightarrow> u16 option \<Rightarrow> bool" where
  bare: "take 1 h \<noteq> ''['' \<Longrightarrow> colons h \<noteq> 1 \<Longrightarrow> target_form h h None"
| with_port: "take 1 (h @ '':'') \<noteq> ''['' \<Longrightarrow> colons h = 0 \<Longrightarrow> colons p = 0 \<Longrightarrow> parse_port p = Inr n
    \<Longrightarrow> target_form (h @ '':'' @ p) h (Some n)"
| bracketed: "CHR '']'' \<notin> set h \<Longrightarrow> target_form (''['' @ h @ '']'') h None"
| bracketed_port: "CHR '']'' \<notin> set h \<Longrightarrow> parse_port p = Inr n
    \<Longrightarrow> target_form (''['' @ h @ '']:'' @ p) h (Some n)"

lemma colons_0: "colons s = 0 \<longleftrightarrow> CHR '':'' \<notin> set s"
  by (auto simp: colons_def filter_empty_conv)

lemma colons_append [simp]: "colons (s @ t) = colons s + colons t" "colons [] = 0"
  "colons (c # s) = (if c = CHR '':'' then 1 else 0) + colons s"
  by (simp_all add: colons_def)

lemma split_host_port_bracket:
  assumes "split_host_port (CHR ''['' # rest) = Inr (h, p)"
  shows "target_form (CHR ''['' # rest) h p"
proof -
  from assms obtain after where sp: "split_once CHR '']'' rest = Some (h, after)"
    and "(case strip_prefix CHR '':'' after of
            Some q \<Rightarrow> rbind (parse_port q) (\<lambda>n. Inr (h, Some n))
          | None \<Rightarrow> if after = [] then Inr (h, None) else Inl (TrailingText (CHR ''['' # rest))) = Inr (h, p)"
    by (auto simp: split_host_port_def rbind_Inr_iff split: option.splits prod.splits if_splits)
  moreover from sp have "rest = h @ CHR '']'' # after" "CHR '']'' \<notin> set h" by (simp_all add: split_once_Some)
  ultimately show ?thesis
    using target_form.bracketed [of h] target_form.bracketed_port [of h]
    by (fastforce simp: rbind_Inr_iff strip_prefix_Some split: option.splits if_splits)
qed

lemma split_host_port_form:
  assumes "split_host_port t = Inr (h, p)"
  shows "target_form t h p"
proof (cases "strip_prefix CHR ''['' t")
  case (Some rest)
  with assms show ?thesis by (auto simp: strip_prefix_Some intro: split_host_port_bracket)
next
  case None
  then have nb: "take 1 t \<noteq> ''[''" by (cases t) (auto split: if_splits)
  show ?thesis
  proof (cases "rsplit_once CHR '':'' t")
    case None
    then have "colons t = 0" by (simp add: rsplit_once_None colons_0)
    with assms None \<open>strip_prefix _ t = None\<close> nb show ?thesis
      by (auto simp: split_host_port_def intro: target_form.bare)
  next
    case (Some ab)
    obtain a b where ab: "ab = (a, b)" by (cases ab)
    with Some have t: "t = a @ CHR '':'' # b" and cb: "colons b = 0" by (simp_all add: rsplit_once_Some colons_0)
    show ?thesis
    proof (cases "1 < colons t")
      case True
      with assms Some ab \<open>strip_prefix _ t = None\<close> nb show ?thesis
        by (auto simp: split_host_port_def colons_def intro: target_form.bare)
    next
      case False
      then have ca: "colons a = 0" using t by simp
      from False assms Some ab \<open>strip_prefix _ t = None\<close> obtain n where "h = a" "p = Some n" "parse_port b = Inr n"
        by (auto simp: split_host_port_def colons_def rbind_Inr_iff)
      with target_form.with_port [of a b n] ca cb nb t show ?thesis by (cases a) auto
    qed
  qed
qed


lemma target_form_split:
  assumes "target_form t h p"
  shows "split_host_port t = Inr (h, p)"
  using assms
proof cases
  case bare
  then have "strip_prefix CHR ''['' t = None" by (cases t) auto
  then show ?thesis using bare
    by (auto simp: split_host_port_def colons_def rsplit_once_Some split: option.splits)
next
  case (with_port q n)
  then have "strip_prefix CHR ''['' t = None" by (cases h) auto
  moreover have "rsplit_once CHR '':'' t = Some (h, q)"
    using with_port by (simp add: rsplit_once_Some colons_0)
  moreover have "\<not> 1 < length (filter (\<lambda>c. c = CHR '':'') t)"
    using with_port by (simp flip: colons_def)
  ultimately show ?thesis using with_port by (simp add: split_host_port_def)
next
  case bracketed
  then have "split_once CHR '']'' (h @ '']'') = Some (h, [])" by (simp add: split_once_Some)
  with bracketed show ?thesis by (simp add: split_host_port_def)
next
  case (bracketed_port q n)
  then have "split_once CHR '']'' (h @ '']:'' @ q) = Some (h, CHR '':'' # q)" by (simp add: split_once_Some)
  with bracketed_port show ?thesis by (simp add: split_host_port_def)
qed

text \<open>
  C37: the parser of a \<open>Servers\<close> entry accepts exactly its grammar and reads it as written: a host,
  which may be a bare IPv6 literal, a \<open>host:port\<close>, or either form in brackets, of 1 to 253 bytes,
  followed by option words none of which is unknown; the source is preferred, or plain NTP, if and
  only if a word says so.
\<close>
theorem parse_server_grammar:
  "parse_server entry = Inr spec \<longleftrightarrow>
   (\<exists>target words. split_whitespace entry = target # words
      \<and> target_form target (sp_host spec) (sp_port spec)
      \<and> sp_host spec \<noteq> [] \<and> length (sp_host spec) \<le> 253
      \<and> set words \<subseteq> {''prefer'', ''unauthenticated'', ''noauth''}
      \<and> sp_prefer spec = (''prefer'' \<in> set words)
      \<and> sp_unauthenticated spec = (''unauthenticated'' \<in> set words \<or> ''noauth'' \<in> set words))"
proof -
  have form: "split_host_port t = Inr (h, p) \<longleftrightarrow> target_form t h p" for t h p
    using split_host_port_form target_form_split by blast
  have words: "list_all (\<lambda>w. w = ''prefer'' \<or> w = ''unauthenticated'' \<or> w = ''noauth'') ws
      \<longleftrightarrow> set ws \<subseteq> {''prefer'', ''unauthenticated'', ''noauth''}" for ws
    by (auto simp: list_all_iff)
  show ?thesis
  proof (cases "split_whitespace entry")
    case Nil
    then show ?thesis by (simp add: parse_server_def)
  next
    case (Cons target ws)
    then show ?thesis
      by (cases spec)
        (auto simp: parse_server_def rbind_Inr_iff form read_options_Inr words split: if_splits prod.splits)
  qed
qed

end
