(* ===== verification/Config.thy ===== *)
theory Config
  imports Servers PollSource
begin

text \<open>
  The machine's clock policy (\<open>timed/src/config.rs\<close>): what is read from \<open>Machine\System\Time\<close> and
  what it becomes. The registry is a parameter: nothing if the key cannot be opened, otherwise
  the value each name has.
\<close>

section \<open>Definitions\<close>

definition SERVERS_VALUE :: string where "SERVERS_VALUE = ''Servers''"
definition ALLOW_UNAUTHENTICATED_VALUE :: string where "ALLOW_UNAUTHENTICATED_VALUE = ''AllowUnauthenticated''"
definition USE_FROM_DHCP_VALUE :: string where "USE_FROM_DHCP_VALUE = ''UseFromDHCP''"
definition MIN_POLL_VALUE :: string where "MIN_POLL_VALUE = ''MinPoll''"
definition MAX_POLL_VALUE :: string where "MAX_POLL_VALUE = ''MaxPoll''"
definition CONTROL_SECURITY_VALUE :: string where "CONTROL_SECURITY_VALUE = ''ControlSecurity''"
definition AUTOMATIC_VALUE :: string where "AUTOMATIC_VALUE = ''Automatic''"
definition TIME_ZONE_VALUE :: string where "TIME_ZONE_VALUE = ''TimeZone''"

datatype value_type = REG_SZ | REG_EXPAND_SZ | REG_BINARY | REG_DWORD | REG_MULTI_SZ | REG_OTHER nat

record reg_value =
  rv_ty :: value_type
  rv_data :: bytes

type_synonym registry = "(string \<Rightarrow> reg_value option) option"

record config =
  cf_servers :: "server_spec list"
  cf_allow_unauthenticated :: bool
  cf_use_from_dhcp :: bool
  cf_min_poll :: int
  cf_max_poll :: int
  cf_control_security :: "bytes option"
  cf_automatic :: bool
  cf_time_zone :: "string option"

definition FALLBACK_SERVERS :: "string list" where
  "FALLBACK_SERVERS = [''0.time.peios.org'', ''1.time.peios.org'', ''2.time.peios.org'', ''3.time.peios.org'']"

definition config_default :: config where
  "config_default = \<lparr>cf_servers = [], cf_allow_unauthenticated = False, cf_use_from_dhcp = False,
     cf_min_poll = DEFAULT_MIN_POLL, cf_max_poll = DEFAULT_MAX_POLL, cf_control_security = None,
     cf_automatic = True, cf_time_zone = None\<rparr>"

definition has_explicit_servers :: "config \<Rightarrow> bool" where
  "has_explicit_servers c \<longleftrightarrow> cf_servers c \<noteq> []"

definition fallback :: "server_spec list" where
  "fallback = map server_spec_new FALLBACK_SERVERS"

definition dword :: "reg_value \<Rightarrow> u32 option" where
  "dword v = (if rv_ty v = REG_DWORD \<and> length (rv_data v) = 4 then Some (u32_from_le (rv_data v)) else None)"

definition utf8_text :: "string \<Rightarrow> string option" where
  "utf8_text s = (if utf8_valid (map char_code s) then Some s else None)"

definition multi :: "reg_value \<Rightarrow> string list option" where
  "multi v =
     (let s = string_of_bytes (rv_data v) in
      case rv_ty v of
        REG_MULTI_SZ \<Rightarrow> Some (List.map_filter utf8_text (filter (\<lambda>p. p \<noteq> []) (split_on CHR 0x00 s)))
      | REG_SZ \<Rightarrow> map_option (\<lambda>t. [t]) (utf8_text (takeWhile (\<lambda>c. c \<noteq> CHR 0x00) s))
      | REG_EXPAND_SZ \<Rightarrow> map_option (\<lambda>t. [t]) (utf8_text (takeWhile (\<lambda>c. c \<noteq> CHR 0x00) s))
      | _ \<Rightarrow> None)"

text \<open>Entries that do not parse are logged and left out.\<close>

definition accepted_servers :: "string list \<Rightarrow> server_spec list" where
  "accepted_servers entries =
     List.map_filter (\<lambda>e. case parse_server e of Inl _ \<Rightarrow> None | Inr spec \<Rightarrow> Some spec) entries"

definition clamped_poll :: "u32 \<Rightarrow> int" where
  "clamped_poll v = clamp_int (int (unat v)) POLL_FLOOR POLL_CEILING"

text \<open>A value that is missing or of another type leaves the setting as it was.\<close>

definition setting :: "'v option \<Rightarrow> ('v \<Rightarrow> config \<Rightarrow> config) \<Rightarrow> config \<Rightarrow> config" where
  "setting v set_it c = (case v of None \<Rightarrow> c | Some x \<Rightarrow> set_it x c)"

definition load_config :: "registry \<Rightarrow> config" where
  "load_config reg =
     (case reg of None \<Rightarrow> config_default
      | Some reg_key \<Rightarrow>
          let num = (\<lambda>name. Option.bind (reg_key name) dword);
              c = setting (Option.bind (reg_key SERVERS_VALUE) multi)
                    (\<lambda>entries. cf_servers_update (\<lambda>_. accepted_servers entries)) config_default;
              c = setting (num ALLOW_UNAUTHENTICATED_VALUE) (\<lambda>v. cf_allow_unauthenticated_update (\<lambda>_. v \<noteq> 0)) c;
              c = setting (num USE_FROM_DHCP_VALUE) (\<lambda>v. cf_use_from_dhcp_update (\<lambda>_. v \<noteq> 0)) c;
              c = setting (num MIN_POLL_VALUE) (\<lambda>v. cf_min_poll_update (\<lambda>_. clamped_poll v)) c;
              c = setting (num MAX_POLL_VALUE) (\<lambda>v. cf_max_poll_update (\<lambda>_. clamped_poll v)) c;
              c = (if cf_max_poll c < cf_min_poll c then c\<lparr>cf_max_poll := cf_min_poll c\<rparr> else c);
              c = c\<lparr>cf_control_security :=
                     (case reg_key CONTROL_SECURITY_VALUE of None \<Rightarrow> None
                      | Some v \<Rightarrow> if rv_ty v = REG_BINARY \<and> rv_data v \<noteq> [] then Some (rv_data v) else None)\<rparr>;
              c = setting (num AUTOMATIC_VALUE) (\<lambda>v. cf_automatic_update (\<lambda>_. v \<noteq> 0)) c
          in c\<lparr>cf_time_zone :=
                 (case Option.bind (reg_key TIME_ZONE_VALUE) multi of None \<Rightarrow> None
                  | Some [] \<Rightarrow> None
                  | Some (z # _) \<Rightarrow> if trim z = [] then None else Some (trim z))\<rparr>)"

section \<open>Any registry gives a usable configuration\<close>

lemma setting_frame [frame_simps]:
  "cf_servers (setting v1 (\<lambda>x. cf_allow_unauthenticated_update (g1 x)) c) = cf_servers c"
  "cf_servers (setting v2 (\<lambda>x. cf_use_from_dhcp_update (g2 x)) c) = cf_servers c"
  "cf_servers (setting v3 (\<lambda>x. cf_min_poll_update (g3 x)) c) = cf_servers c"
  "cf_servers (setting v4 (\<lambda>x. cf_max_poll_update (g4 x)) c) = cf_servers c"
  "cf_servers (setting v5 (\<lambda>x. cf_automatic_update (g5 x)) c) = cf_servers c"
  "cf_min_poll (setting v6 (\<lambda>x. cf_servers_update (g6 x)) c) = cf_min_poll c"
  "cf_min_poll (setting v7 (\<lambda>x. cf_allow_unauthenticated_update (g7 x)) c) = cf_min_poll c"
  "cf_min_poll (setting v8 (\<lambda>x. cf_use_from_dhcp_update (g8 x)) c) = cf_min_poll c"
  "cf_min_poll (setting v9 (\<lambda>x. cf_max_poll_update (g9 x)) c) = cf_min_poll c"
  "cf_min_poll (setting v10 (\<lambda>x. cf_automatic_update (g10 x)) c) = cf_min_poll c"
  "cf_max_poll (setting v11 (\<lambda>x. cf_servers_update (g11 x)) c) = cf_max_poll c"
  "cf_max_poll (setting v12 (\<lambda>x. cf_allow_unauthenticated_update (g12 x)) c) = cf_max_poll c"
  "cf_max_poll (setting v13 (\<lambda>x. cf_use_from_dhcp_update (g13 x)) c) = cf_max_poll c"
  "cf_max_poll (setting v14 (\<lambda>x. cf_min_poll_update (g14 x)) c) = cf_max_poll c"
  "cf_max_poll (setting v15 (\<lambda>x. cf_automatic_update (g15 x)) c) = cf_max_poll c"
  by (simp_all add: setting_def split: option.split)

lemma setting_own:
  "cf_servers (setting v (\<lambda>x. cf_servers_update (\<lambda>_. h x)) c) = (case v of None \<Rightarrow> cf_servers c | Some x \<Rightarrow> h x)"
  "cf_min_poll (setting v' (\<lambda>x. cf_min_poll_update (\<lambda>_. h' x)) c) = (case v' of None \<Rightarrow> cf_min_poll c | Some x \<Rightarrow> h' x)"
  "cf_max_poll (setting v' (\<lambda>x. cf_max_poll_update (\<lambda>_. h' x)) c) = (case v' of None \<Rightarrow> cf_max_poll c | Some x \<Rightarrow> h' x)"
  by (simp_all add: setting_def split: option.split)

lemma setting_kept:
  "cf_control_security (setting w (\<lambda>x. cf_automatic_update (k x)) c) = cf_control_security c"
  by (simp add: setting_def split: option.split)

lemma clamped_poll_bounds: "POLL_FLOOR \<le> clamped_poll v \<and> clamped_poll v \<le> POLL_CEILING"
  by (simp add: clamped_poll_def clamp_int_def POLL_FLOOR_def POLL_CEILING_def)

lemma accepted_servers_parsed: "s \<in> set (accepted_servers es) \<Longrightarrow> \<exists>e\<in>set es. parse_server e = Inr s"
  by (auto simp: accepted_servers_def map_filter_def split: sum.splits)

lemma parse_server_host: "parse_server e = Inr s \<Longrightarrow> sp_host s \<noteq> [] \<and> length (sp_host s) \<le> 253"
  by (auto simp: parse_server_def rbind_Inr_iff read_options_Inr split: list.splits if_splits prod.splits)

text \<open>
  C40: whatever the registry holds, the configuration read from it can be used as it stands: the
  poll exponents are within the floor and the ceiling and in order, every server has a host of 1
  to 253 bytes, a time zone or a security descriptor that is present is not empty; and a machine
  whose key is missing requires authentication, ignores DHCP and keeps its clock automatically.
\<close>
theorem config_always_usable:
  "POLL_FLOOR \<le> cf_min_poll (load_config reg) \<and> cf_min_poll (load_config reg) \<le> cf_max_poll (load_config reg)
   \<and> cf_max_poll (load_config reg) \<le> POLL_CEILING
   \<and> set (cf_servers (load_config reg)) \<subseteq> {s. sp_host s \<noteq> [] \<and> length (sp_host s) \<le> 253}
   \<and> cf_time_zone (load_config reg) \<noteq> Some [] \<and> cf_control_security (load_config reg) \<noteq> Some []
   \<and> \<not> cf_allow_unauthenticated (load_config None) \<and> \<not> cf_use_from_dhcp (load_config None)
   \<and> cf_automatic (load_config None) \<and> cf_servers (load_config None) = []"
proof (cases reg)
  case None
  then show ?thesis
    by (simp add: load_config_def config_default_def DEFAULT_MIN_POLL_def DEFAULT_MAX_POLL_def
        POLL_FLOOR_def POLL_CEILING_def)
next
  case (Some key)
  have d: "POLL_FLOOR \<le> DEFAULT_MIN_POLL" "DEFAULT_MIN_POLL \<le> POLL_CEILING"
    "POLL_FLOOR \<le> DEFAULT_MAX_POLL" "DEFAULT_MAX_POLL \<le> POLL_CEILING"
    by (simp_all add: DEFAULT_MIN_POLL_def DEFAULT_MAX_POLL_def POLL_FLOOR_def POLL_CEILING_def)
  note b = clamped_poll_bounds
  have "POLL_FLOOR \<le> cf_min_poll (load_config reg)" "cf_min_poll (load_config reg) \<le> cf_max_poll (load_config reg)"
    "cf_max_poll (load_config reg) \<le> POLL_CEILING"
    using d b by (auto simp: Some load_config_def Let_def frame_simps setting_own config_default_def split: option.split)
  moreover have "cf_servers (load_config reg) =
      (case Option.bind (key SERVERS_VALUE) multi of None \<Rightarrow> [] | Some es \<Rightarrow> accepted_servers es)"
    by (simp add: Some load_config_def Let_def frame_simps setting_own config_default_def split: option.split)
  then have "set (cf_servers (load_config reg)) \<subseteq> {s. sp_host s \<noteq> [] \<and> length (sp_host s) \<le> 253}"
    using accepted_servers_parsed parse_server_host by (fastforce split: option.splits)
  moreover have "cf_time_zone (load_config reg) \<noteq> Some []"
    by (simp add: Some load_config_def Let_def split: option.split list.split)
  moreover have "cf_control_security (load_config reg) \<noteq> Some []"
    by (simp add: Some load_config_def Let_def setting_kept split: option.split)
  ultimately show ?thesis by (simp add: load_config_def config_default_def)
qed

end
