(* ===== verification/Zone.thy ===== *)
theory Zone
  imports RustText "HOL-Library.Char_ord" "HOL-Library.List_Lexorder"
begin

text \<open>
  Time zone names (\<open>libtimed/src/zone.rs\<close>): which names are accepted, the file each names, and
  the tables of the zone database. The file system is a parameter, the contents of each path
  that can be read.
\<close>

section \<open>Definitions\<close>

definition ZONEINFO_DIR :: string where "ZONEINFO_DIR = ''/usr/share/zoneinfo''"
definition MAX_NAME :: nat where "MAX_NAME = 64"

datatype zone_error = NoZoneNamed | NameTooLong string | NotAZoneName string | NoSuchZone string | NotAZone string

definition zone_char :: "char \<Rightarrow> bool" where
  "zone_char c \<longleftrightarrow> is_ascii_alphanumeric c \<or> c = CHR ''_'' \<or> c = CHR ''+'' \<or> c = CHR ''-''"

fun check_parts :: "string \<Rightarrow> string list \<Rightarrow> zone_error + unit" where
  "check_parts name [] = Inr ()"
| "check_parts name (part # parts) =
     (if part = [] \<or> part = ''.'' \<or> part = ''..'' then Inl (NotAZoneName name)
      else if \<not> list_all zone_char part then Inl (NotAZoneName name)
      else check_parts name parts)"

definition check_name :: "string \<Rightarrow> zone_error + unit" where
  "check_name name =
     (if name = [] then Inl NoZoneNamed
      else if MAX_NAME < length name then Inl (NameTooLong name)
      else check_parts name (split_on CHR ''/'' name))"

definition zone_path :: "string \<Rightarrow> string" where
  "zone_path name = path_join ZONEINFO_DIR name"

definition installed :: "(string \<Rightarrow> bytes option) \<Rightarrow> string \<Rightarrow> zone_error + unit" where
  "installed files name =
     rbind (check_name name) (\<lambda>_.
       case files (zone_path name) of
         None \<Rightarrow> Inl (NoSuchZone name)
       | Some content \<Rightarrow>
           if length content < 4 then Inl (NoSuchZone name)
           else if take 4 content \<noteq> bytes_of_string ''TZif'' then Inl (NotAZone name)
           else Inr ())"

record zone_listed =
  zl_name :: string
  zl_countries :: "string list"
  zl_comment :: "string option"

definition parse_tab_line :: "string \<Rightarrow> zone_listed option" where
  "parse_tab_line l =
     (case split_on CHR 0x09 l of
        countries # coordinates # name # rest \<Rightarrow>
          Some \<lparr>zl_name = name, zl_countries = split_on CHR '','' countries,
             zl_comment = (case rest of [] \<Rightarrow> None
                           | c # _ \<Rightarrow> if trim c = [] then None else Some (trim c))\<rparr>
      | _ \<Rightarrow> None)"

definition parse_tab :: "string \<Rightarrow> zone_listed list" where
  "parse_tab txt =
     List.map_filter parse_tab_line
       (filter (\<lambda>l. take 1 l \<noteq> ''#'' \<and> trim l \<noteq> []) (str_lines txt))"

text \<open>\<open>read_to_string(..).unwrap_or_default()\<close>: text that is not UTF-8 counts as missing.\<close>

definition read_text :: "(string \<Rightarrow> bytes option) \<Rightarrow> string \<Rightarrow> string" where
  "read_text files p = (case Option.bind (files p) from_utf8 of None \<Rightarrow> [] | Some t \<Rightarrow> t)"

definition zone_list :: "(string \<Rightarrow> bytes option) \<Rightarrow> zone_listed list" where
  "zone_list files = sort_key zl_name (parse_tab (read_text files (path_join ZONEINFO_DIR ''zone1970.tab'')))"

definition countries :: "(string \<Rightarrow> bytes option) \<Rightarrow> (string \<times> string) list" where
  "countries files =
     List.map_filter (\<lambda>l. map_option (\<lambda>(code, name). (code, trim name)) (split_once CHR 0x09 l))
       (filter (\<lambda>l. take 1 l \<noteq> ''#'') (str_lines (read_text files (path_join ZONEINFO_DIR ''iso3166.tab''))))"

section \<open>Names stay inside the database\<close>

lemma check_parts_ok:
  "check_parts name parts = Inr u \<longleftrightarrow>
     list_all (\<lambda>p. p \<noteq> [] \<and> p \<noteq> ''.'' \<and> p \<noteq> ''..'' \<and> list_all zone_char p) parts"
  by (induction parts) auto

lemma zone_name_relative:
  assumes "check_name name = Inr u"
  shows "take 1 name \<noteq> ''/''"
proof
  assume "take 1 name = ''/''"
  then have "[] \<in> set (split_on CHR ''/'' name)" by (cases name) (auto split: list.splits if_splits)
  with assms show False by (auto simp: check_name_def check_parts_ok list_all_iff split: if_splits)
qed

lemma zone_stays_inside_facts:
  "installed files name = Inr u \<Longrightarrow> check_name name = Inr ()
     \<and> (\<exists>content. files (zone_path name) = Some content \<and> take 4 content = bytes_of_string ''TZif'' \<and> content \<noteq> [])"
  by (auto simp: installed_def rbind_Inr_iff split: option.splits if_splits)

text \<open>
  A zone name cannot lead out of the zone database: whatever name is found installed, the file
  it was checked against is the database directory followed by one or more components, none empty,
  \<open>.\<close> or \<open>..\<close> and none with a separator of its own, and that file begins with the TZif magic.
\<close>
theorem zone_stays_inside:
  assumes "installed files name = Inr ()"
  shows "length name \<le> 64 \<and> (\<exists>parts content. parts \<noteq> []
      \<and> zone_path name = ZONEINFO_DIR @ concat (map (\<lambda>p. CHR ''/'' # p) parts)
      \<and> list_all (\<lambda>p. p \<notin> {[], ''.'', ''..''} \<and> CHR ''/'' \<notin> set p \<and> list_all zone_char p) parts
      \<and> files (zone_path name) = Some content \<and> take 4 content = bytes_of_string ''TZif'')"
proof -
  let ?parts = "split_on CHR ''/'' name"
  from assms have check: "check_name name = Inr ()"
    and opened: "\<exists>content. files (zone_path name) = Some content \<and> take 4 content = bytes_of_string ''TZif''"
    using zone_stays_inside_facts by blast+
  from check have "list_all (\<lambda>p. p \<noteq> [] \<and> p \<noteq> ''.'' \<and> p \<noteq> ''..'' \<and> list_all zone_char p) ?parts"
    and len: "length name \<le> 64"
    by (auto simp: check_name_def check_parts_ok MAX_NAME_def split: if_splits)
  then have "list_all (\<lambda>p. p \<notin> {[], ''.'', ''..''} \<and> CHR ''/'' \<notin> set p \<and> list_all zone_char p) ?parts"
    using split_on_parts by (fastforce simp: list_all_iff)
  moreover have "zone_path name = ZONEINFO_DIR @ concat (map (\<lambda>p. CHR ''/'' # p) ?parts)"
    using zone_name_relative [OF check] by (simp add: zone_path_def path_join_def split_on_join)
  ultimately show ?thesis using opened len split_on_nonempty by blast
qed

theorem zone_stays_inside_witness:
  "installed [''/usr/share/zoneinfo/Europe/Paris'' \<mapsto> [84, 90, 105, 102, 50]] ''Europe/Paris'' = Inr ()
   \<and> length ''Europe/Paris'' \<le> 64
   \<and> installed [''/etc/shadow'' \<mapsto> [84, 90, 105, 102]] ''../../../etc/shadow'' = Inl (NotAZoneName ''../../../etc/shadow'')"
proof -
  have ok: "installed [''/usr/share/zoneinfo/Europe/Paris'' \<mapsto> [84, 90, 105, 102, 50]] ''Europe/Paris'' = Inr ()"
    by code_simp
  have "installed [''/etc/shadow'' \<mapsto> [84, 90, 105, 102]] ''../../../etc/shadow'' = Inl (NotAZoneName ''../../../etc/shadow'')"
    by code_simp
  with zone_stays_inside [OF ok] ok show ?thesis by blast
qed

end
