(* ===== verification/Files.thy ===== *)
theory Files
  imports RustText
begin

text \<open>
  The files the daemon keeps, as a map from paths to contents, and the one way it writes those
  that must survive a power cut (\<open>write_drift\<close> and \<open>write_cookies\<close> of \<open>timed/src/state.rs\<close>, \<open>remember\<close>
  of \<open>timed/src/localtime.rs\<close>): a temporary file beside the real one, then a rename. Which step
  of it fails, if any, is an argument.
\<close>

type_synonym files = "string \<Rightarrow> bytes option"

section \<open>Paths\<close>

text \<open>\<open>file_name\<close>: the last component, none for \<open>..\<close>; \<open>file_stem\<close>: up to its last dot but a leading one.\<close>

definition dir_and_name :: "string \<Rightarrow> string \<times> string" where
  "dir_and_name p = (case rsplit_once CHR ''/'' p of None \<Rightarrow> ([], p) | Some (d, n) \<Rightarrow> (d @ ''/'', n))"

definition file_stem :: "string \<Rightarrow> string" where
  "file_stem n = (case rsplit_once CHR ''.'' n of None \<Rightarrow> n | Some (a, b) \<Rightarrow> if a = [] then n else a)"

text \<open>\<open>path.with_extension("new")\<close>\<close>

definition with_extension_new :: "string \<Rightarrow> string" where
  "with_extension_new p =
     (case dir_and_name p of (d, n) \<Rightarrow> if n = ''..'' \<or> n = [] then p else d @ file_stem n @ ''.new'')"

section \<open>Writing by renaming\<close>

datatype fault = NoFault | CreateFault | WriteFault bytes | SyncFault | RenameFault

definition replace_file :: "fault \<Rightarrow> string \<Rightarrow> bytes \<Rightarrow> files \<Rightarrow> bool \<times> files" where
  "replace_file fl p content files =
     (let temporary = with_extension_new p in
      case fl of
        CreateFault \<Rightarrow> (False, files)
      | WriteFault part \<Rightarrow> (False, files(temporary \<mapsto> part))
      | SyncFault \<Rightarrow> (False, files(temporary \<mapsto> content))
      | RenameFault \<Rightarrow> (False, files(temporary \<mapsto> content))
      | NoFault \<Rightarrow> (True, files(temporary := None, p \<mapsto> content)))"

text \<open>
  The contract of a durable write: whatever fails, the file read back is the old one or the new
  one in full, it is the new one when success is reported, and nothing but the file and its
  temporary has changed.
\<close>

locale durable_write =
  fixes put :: "fault \<Rightarrow> bytes \<Rightarrow> files \<Rightarrow> bool \<times> files" and target :: string
  assumes all_or_nothing: "put fl content files = (ok, files') \<Longrightarrow>
      files' target = files target \<or> files' target = Some content"
    and reported: "put fl content files = (True, files') \<Longrightarrow> files' target = Some content"
    and elsewhere: "put fl content files = (ok, files') \<Longrightarrow>
      q \<noteq> target \<Longrightarrow> q \<noteq> with_extension_new target \<Longrightarrow> files' q = files q"
begin

definition put_all :: "(fault \<times> bytes) list \<Rightarrow> files \<Rightarrow> files" where
  "put_all ws files = fold (\<lambda>(fl, content) fs. snd (put fl content fs)) ws files"

text \<open>Over any history of writes the file holds what it held or one content written to it.\<close>

lemma history: "put_all ws files target = files target
    \<or> (\<exists>(fl, content)\<in>set ws. put_all ws files target = Some content)"
proof (induction ws arbitrary: files)
  case (Cons w ws)
  obtain fl content where w: "w = (fl, content)" by (cases w)
  have "snd (put fl content files) target = files target
      \<or> snd (put fl content files) target = Some content"
    using all_or_nothing [of fl content files] by (cases "put fl content files") auto
  with Cons.IH [of "snd (put fl content files)"] show ?case by (auto simp: put_all_def w)
qed (simp add: put_all_def)

lemma untouched: "q \<noteq> target \<Longrightarrow> q \<noteq> with_extension_new target \<Longrightarrow> put_all ws files q = files q"
proof (induction ws arbitrary: files)
  case (Cons w ws)
  obtain fl content where w: "w = (fl, content)" by (cases w)
  have "snd (put fl content files) q = files q"
    using elsewhere [of fl content files _ _ q] Cons.prems by (cases "put fl content files") auto
  with Cons show ?case by (simp add: put_all_def w)
qed (simp add: put_all_def)

end

lemma replace_file_durable:
  assumes "with_extension_new p \<noteq> p"
  shows "durable_write (\<lambda>fl. replace_file fl p) p"
  using assms by unfold_locales (auto simp: replace_file_def Let_def split: fault.splits)

end
