(* ===== verification/Localtime.thy ===== *)
theory Localtime
  imports Zone Files F64
begin

text \<open>
  The machine's time zone (\<open>timed/src/localtime.rs\<close>): copying the chosen zone's file into place,
  remembering its name, telling at startup which zone is in force, and the keeper that decides
  when to try again. Which write fails is an argument.
\<close>

section \<open>Definitions\<close>

definition LOCALTIME :: string where "LOCALTIME = ''/system/retc/localtime''"
definition ZONE_FILE :: string where "ZONE_FILE = ''/var/state/timed/zone''"
definition DEFAULT_ZONE :: string where "DEFAULT_ZONE = ''UTC''"
definition ZONE_RETRY :: f64 where "ZONE_RETRY = lit 600"

datatype render_error = BadZone zone_error | CannotRead string | CannotWrite string

text \<open>One truncating write of a file that must exist; a fault stops it before or within the write.\<close>

definition install :: "fault \<Rightarrow> bytes \<Rightarrow> string \<Rightarrow> files \<Rightarrow> (render_error + unit) \<times> files" where
  "install fl content localtime files =
     (if files localtime = Some content then (Inr (), files)
      else if files localtime = None then (Inl (CannotWrite localtime), files)
      else case fl of
             CreateFault \<Rightarrow> (Inl (CannotWrite localtime), files)
           | WriteFault part \<Rightarrow> (Inl (CannotWrite localtime), files(localtime \<mapsto> part))
           | _ \<Rightarrow> (Inr (), files(localtime \<mapsto> content)))"

definition remember :: "fault \<Rightarrow> string option \<Rightarrow> string \<Rightarrow> files \<Rightarrow> bool \<times> files" where
  "remember fl wanted rec files =
     (let txt = (case wanted of None \<Rightarrow> [] | Some n \<Rightarrow> n)
      in if Option.bind (files rec) from_utf8 = Some txt then (True, files)
         else replace_file fl rec (bytes_of_string txt) files)"

definition render :: "fault \<Rightarrow> fault \<Rightarrow> string option \<Rightarrow> files \<Rightarrow> (render_error + string option) \<times> files" where
  "render fl_install fl_remember wanted files =
     (let name = (case wanted of None \<Rightarrow> DEFAULT_ZONE | Some n \<Rightarrow> n) in
      case installed files name of
        Inl e \<Rightarrow> (Inl (BadZone e), files)
      | Inr _ \<Rightarrow>
          (case files (zone_path name) of
             None \<Rightarrow> (Inl (CannotRead name), files)
           | Some content \<Rightarrow>
               (case install fl_install content LOCALTIME files of
                  (Inl e, files) \<Rightarrow> (Inl e, files)
                | (Inr _, files) \<Rightarrow> (Inr wanted, snd (remember fl_remember wanted ZONE_FILE files)))))"

definition identify :: "string \<Rightarrow> string \<Rightarrow> string \<Rightarrow> files \<Rightarrow> string option" where
  "identify localtime rec zoneinfo files =
     (case Option.bind (files rec) from_utf8 of None \<Rightarrow> None
      | Some name \<Rightarrow>
          (case check_name name of Inl _ \<Rightarrow> None
           | Inr _ \<Rightarrow>
               (case (files localtime, files (path_join zoneinfo name)) of
                  (Some held, Some file) \<Rightarrow> if held \<noteq> [] \<and> held = file then Some name else None
                | _ \<Rightarrow> None)))"

definition zone_in_force :: "files \<Rightarrow> string option" where
  "zone_in_force files = identify LOCALTIME ZONE_FILE ZONEINFO_DIR files"

datatype 'e keeper_outcome = Unchanged | Applied | Refused 'e | RefusedAgain

record 'e keeper =
  kp_in_force :: "string option"
  kp_applied :: "string option option"
  kp_refused :: "(string option \<times> 'e) option"
  kp_retry_at :: f64

definition keeper_new :: "string option \<Rightarrow> 'e keeper" where
  "keeper_new in_force =
     \<lparr>kp_in_force = in_force, kp_applied = None, kp_refused = None, kp_retry_at = fzero\<rparr>"

definition keeper_due :: "f64 \<Rightarrow> 'e keeper \<Rightarrow> bool" where
  "keeper_due now k \<longleftrightarrow> kp_refused k \<noteq> None \<and> fle (kp_retry_at k) now"

text \<open>\<open>apply\<close>: \<open>draw\<close> is the rendering passed in, with its effect on the files.\<close>

definition keeper_apply ::
  "string option \<Rightarrow> f64 \<Rightarrow> (string option \<Rightarrow> 'w \<Rightarrow> ('e + string option) \<times> 'w) \<Rightarrow> 'e keeper \<Rightarrow> 'w
     \<Rightarrow> 'e keeper_outcome \<times> 'e keeper \<times> 'w" where
  "keeper_apply wanted now draw k w =
     (if kp_applied k = Some wanted then (Unchanged, k, w)
      else case draw wanted w of
        (Inr zone, w') \<Rightarrow>
          (Applied, k\<lparr>kp_in_force := zone, kp_applied := Some wanted, kp_refused := None\<rparr>, w')
      | (Inl why, w') \<Rightarrow>
          (let k = k\<lparr>kp_applied := None, kp_retry_at := fadd now ZONE_RETRY\<rparr>
           in if kp_refused k = Some (wanted, why) then (RefusedAgain, k, w')
              else (Refused why, k\<lparr>kp_refused := Some (wanted, why)\<rparr>, w')))"

section \<open>What is in force after a restart\<close>

lemma zone_paths_apart:
  assumes "installed files name = Inr ()"
  shows "zone_path name \<notin> {LOCALTIME, ZONE_FILE, with_extension_new ZONE_FILE}"
proof -
  have "check_name name = Inr ()" using assms by (auto simp: installed_def rbind_Inr_iff)
  then have "zone_path name = ZONEINFO_DIR @ CHR ''/'' # name"
    using zone_name_relative by (simp add: zone_path_def path_join_def)
  moreover have "with_extension_new ZONE_FILE = ''/var/state/timed/zone.new''" by code_simp
  ultimately show ?thesis by (auto simp: ZONEINFO_DIR_def LOCALTIME_def ZONE_FILE_def)
qed

lemma installed_name_ascii: "check_name name = Inr u \<Longrightarrow> from_utf8 (bytes_of_string name) = Some name"
proof -
  assume "check_name name = Inr u"
  then have parts: "list_all (\<lambda>p. list_all zone_char p) (split_on CHR ''/'' name)"
    by (auto simp: check_name_def check_parts_ok list_all_iff split: if_splits)
  have zc: "char_code c < 128" if "zone_char c" for c
    using that by (auto simp: zone_char_def is_ascii_alphanumeric_def is_ascii_digit_def char_code_def)
  have "char_code c < 128" if "c \<in> set name" for c
  proof -
    have "c \<in> set (CHR ''/'' # name)" using that by simp
    then have "c \<in> set (concat (map (\<lambda>p. CHR ''/'' # p) (split_on CHR ''/'' name)))"
      by (simp only: split_on_join)
    then have "c = CHR ''/'' \<or> (\<exists>p\<in>set (split_on CHR ''/'' name). c \<in> set p)" by auto
    moreover have "char_code CHR ''/'' < 128" by (simp add: char_code_def)
    ultimately show ?thesis using parts zc by (auto simp only: list_all_iff)
  qed
  then show ?thesis by (intro from_utf8_ascii) (simp add: list_all_iff)
qed

text \<open>
  The zone reported after a restart is the truth: once a zone has been put in place with its
  name recorded, that name is what a restart finds, and whatever has happened to the files since,
  a name is reported only if the file in place is, byte for byte, that zone's file and not empty.
\<close>
theorem zone_survives_restart:
  assumes "render fl_install NoFault (Some name) files = (Inr zone, files')"
  shows "zone = Some name \<and> zone_in_force files' = Some name
    \<and> (zone_in_force any = Some n \<longrightarrow>
         (\<exists>content. content \<noteq> [] \<and> any LOCALTIME = Some content \<and> any (zone_path n) = Some content))"
proof -
  have ok: "installed files name = Inr ()"
    using assms by (cases "installed files name") (simp_all add: render_def)
  obtain content where content: "files (zone_path name) = Some content"
    using assms ok by (cases "files (zone_path name)") (simp_all add: render_def)
  obtain r files1 where r: "install fl_install content LOCALTIME files = (r, files1)" by fastforce
  have inst: "install fl_install content LOCALTIME files = (Inr (), files1)"
    and rem: "files' = snd (remember NoFault (Some name) ZONE_FILE files1)" and zone: "zone = Some name"
  proof -
    have "(case r of Inl e \<Rightarrow> (Inl e, files1)
       | Inr _ \<Rightarrow> (Inr (Some name), snd (remember NoFault (Some name) ZONE_FILE files1))) = (Inr zone, files')"
      using assms ok content r by (simp add: render_def)
    then show "install fl_install content LOCALTIME files = (Inr (), files1)"
      "files' = snd (remember NoFault (Some name) ZONE_FILE files1)" "zone = Some name"
      using r by (cases r; simp)+
  qed
  from zone_stays_inside_facts [OF ok] obtain c where check: "check_name name = Inr ()"
    and c: "files (zone_path name) = Some c" "c \<noteq> []" by blast
  then have "content \<noteq> []" using content by simp
  have "files1 LOCALTIME = Some content" "files1 (zone_path name) = Some content"
    using inst content zone_paths_apart [OF ok]
    by (auto simp: install_def split: if_splits fault.splits)
  moreover have "with_extension_new ZONE_FILE = ''/var/state/timed/zone.new''" by code_simp
  ultimately have "files' LOCALTIME = Some content \<and> files' (zone_path name) = Some content
      \<and> Option.bind (files' ZONE_FILE) from_utf8 = Some name"
    using zone_paths_apart [OF ok] installed_name_ascii [OF check]
    by (auto simp: rem remember_def replace_file_def Let_def LOCALTIME_def ZONE_FILE_def split: if_splits)
  then have "zone_in_force files' = Some name"
    using check \<open>content \<noteq> []\<close> by (simp add: zone_in_force_def identify_def zone_path_def)
  moreover have "\<exists>content. content \<noteq> [] \<and> any LOCALTIME = Some content \<and> any (zone_path n) = Some content"
    if "zone_in_force any = Some n"
    using that by (auto simp: zone_in_force_def identify_def zone_path_def split: option.splits sum.splits if_splits)
  ultimately show ?thesis using zone by blast
qed

definition demo_zones :: files where
  "demo_zones = [''/usr/share/zoneinfo/Europe/Paris'' \<mapsto> [84, 90, 105, 102, 50], ''/system/retc/localtime'' \<mapsto> []]"

theorem zone_survives_restart_witness:
  "\<exists>files'. render NoFault NoFault (Some ''Europe/Paris'') demo_zones = (Inr (Some ''Europe/Paris''), files')
     \<and> zone_in_force demo_zones = None \<and> zone_in_force files' = Some ''Europe/Paris''"
proof -
  have "fst (render NoFault NoFault (Some ''Europe/Paris'') demo_zones) = Inr (Some ''Europe/Paris'')"
    by code_simp
  then have r: "render NoFault NoFault (Some ''Europe/Paris'') demo_zones
      = (Inr (Some ''Europe/Paris''), snd (render NoFault NoFault (Some ''Europe/Paris'') demo_zones))"
    by (metis prod.collapse)
  have "zone_in_force demo_zones = None" by code_simp
  with zone_survives_restart [OF r] r show ?thesis by blast
qed

section \<open>Refusals\<close>

definition keeper_inv :: "'e keeper \<Rightarrow> bool" where
  "keeper_inv k \<longleftrightarrow> (kp_refused k \<noteq> None \<longrightarrow> kp_applied k = None)"

lemma keeper_inv_new [simp]: "keeper_inv (keeper_new z)"
  by (simp add: keeper_inv_def keeper_new_def)

lemma keeper_apply_inv: "keeper_inv k \<Longrightarrow> keeper_inv (fst (snd (keeper_apply wanted now draw k w)))"
  by (auto simp: keeper_inv_def keeper_apply_def Let_def split: prod.splits sum.splits)

text \<open>
  A time zone that cannot be put in place leaves the one in force alone and is not given up
  on: the keeper falls due again ten minutes later and not before, and then renders the same value
  anew; once that succeeds it is in force and nothing is due any more.
\<close>
theorem refused_zone_retried:
  assumes "keeper_apply wanted now draw k w = (outcome, k', w')" "outcome \<notin> {Unchanged, Applied}"
    and "draw' wanted v = (Inr zone, v')"
  shows "kp_in_force k' = kp_in_force k
    \<and> (keeper_due t k' \<longleftrightarrow> fle (fadd now ZONE_RETRY) t)
    \<and> (\<exists>k''. keeper_apply wanted t draw' k' v = (Applied, k'', v')
          \<and> kp_in_force k'' = zone \<and> \<not> keeper_due t' k'')"
  using assms by (auto simp: keeper_apply_def keeper_due_def Let_def split: prod.splits sum.splits if_splits)

theorem refused_zone_retried_witness:
  "keeper_due (lit 600) (fst (snd (keeper_apply (Some ''Mars/Base'') fzero (\<lambda>_ w. (Inl (), w)) (keeper_new None) ())))
   \<and> \<not> keeper_due (lit 599) (fst (snd (keeper_apply (Some ''Mars/Base'') fzero (\<lambda>_ w. (Inl (), w)) (keeper_new None) ())))"
proof -
  let ?a = "keeper_apply (Some ''Mars/Base'') fzero (\<lambda>_ w. (Inl (), w)) (keeper_new None) ()"
  have a: "?a = (Refused (), fst (snd ?a), ())" by (simp add: keeper_apply_def keeper_new_def)
  have r: "keeper_due t (fst (snd ?a)) \<longleftrightarrow> fle (fadd fzero ZONE_RETRY) t" for t
    using refused_zone_retried [OF a, of "\<lambda>_ w. (Inr None, w)" "()" None "()" t fzero] by simp
  show ?thesis unfolding r by (simp add: ZONE_RETRY_def fround_def rnd_eval fle_def)
qed

end
