(* ===== verification/FloatText.thy ===== *)
theory FloatText
  imports F64 RustText
begin

text \<open>
  What the program uses of Rust's floating-point text: \<open>{:.3}\<close> formatting and \<open>str::parse\<close> to
  \<open>f64\<close>, both on exact values (formatting rounds the exact value to three decimals, ties to even;
  parsing rounds the exact decimal to the nearest double). The drift file is written with the
  one and read with the other.
\<close>

section \<open>Definitions\<close>

definition digit_char :: "nat \<Rightarrow> char" where
  "digit_char d = char_of (48 + d)"

fun show_nat :: "nat \<Rightarrow> string" where
  "show_nat n = (if n < 10 then [digit_char n] else show_nat (n div 10) @ [digit_char (n mod 10)])"

declare show_nat.simps [simp del]

text \<open>A count of thousandths, as a decimal with three places.\<close>

definition show_thousandths :: "nat \<Rightarrow> string" where
  "show_thousandths n =
     show_nat (n div 1000) @ ''.'' @
       [digit_char (n div 100 mod 10), digit_char (n div 10 mod 10), digit_char (n mod 10)]"

fun show_f64_3 :: "f64 \<Rightarrow> string" where
  "show_f64_3 NaN = ''NaN''"
| "show_f64_3 (Inf s) = (if s then ''-inf'' else ''inf'')"
| "show_f64_3 (Fin s m) = (if s then ''-'' else []) @ show_thousandths (nat (rhe (m * 1000)))"

definition ascii_lower :: "char \<Rightarrow> char" where
  "ascii_lower c = (if 65 \<le> char_code c \<and> char_code c \<le> 90 then char_of (char_code c + 32) else c)"

text \<open>The digits at the head of a text, and what follows them.\<close>

definition lead_digits :: "string \<Rightarrow> string \<times> string" where
  "lead_digits s = (takeWhile is_ascii_digit s, dropWhile is_ascii_digit s)"

definition digits_nat :: "string \<Rightarrow> nat" where
  "digits_nat s = foldl (\<lambda>a c. a * 10 + (char_code c - 48)) 0 s"

text \<open>An exponent: an optional sign and digits to the end of the text.\<close>

definition parse_exponent :: "string \<Rightarrow> int option" where
  "parse_exponent s =
     (let neg = (take 1 s = ''-'');
          t = (if take 1 s = ''-'' \<or> take 1 s = ''+'' then drop 1 s else s)
      in if t = [] \<or> \<not> list_all is_ascii_digit t then None
         else Some (if neg then - int (digits_nat t) else int (digits_nat t)))"

definition parse_decimal :: "bool \<Rightarrow> string \<Rightarrow> f64 option" where
  "parse_decimal neg s =
     (let (whole, r) = lead_digits s;
          (frac, r) = (if take 1 r = ''.'' then lead_digits (drop 1 r) else ([], r));
          mant = of_nat (digits_nat (whole @ frac))
      in if whole = [] \<and> frac = [] then None
         else if r = [] then Some (rnd neg (mant / 10 ^ length frac))
         else if map ascii_lower (take 1 r) = ''e'' then
           map_option (\<lambda>e. rnd neg (mant * 10 powi (e - int (length frac)))) (parse_exponent (drop 1 r))
         else None)"

definition parse_f64 :: "string \<Rightarrow> f64 option" where
  "parse_f64 s =
     (let neg = (take 1 s = ''-'');
          t = (if take 1 s = ''-'' \<or> take 1 s = ''+'' then drop 1 s else s);
          l = map ascii_lower t
      in if l = ''inf'' \<or> l = ''infinity'' then Some (Inf neg)
         else if l = ''nan'' then Some NaN
         else parse_decimal neg t)"

section \<open>Reading back what was written\<close>

lemma digit_char_code [simp]: "d < 10 \<Longrightarrow> char_code (digit_char d) = 48 + d"
  by (simp add: digit_char_def char_code_def)

lemma digit_char_digit [simp]: "d < 10 \<Longrightarrow> is_ascii_digit (digit_char d)"
  by (simp add: is_ascii_digit_def)

lemma digits_nat_snoc: "d < 10 \<Longrightarrow> digits_nat (s @ [digit_char d]) = digits_nat s * 10 + d"
  by (simp add: digits_nat_def)

lemma show_nat_digits: "list_all is_ascii_digit (show_nat n) \<and> show_nat n \<noteq> [] \<and> digits_nat (show_nat n) = n"
proof (induction n rule: show_nat.induct)
  case (1 n)
  show ?case
  proof (cases "n < 10")
    case True
    then show ?thesis by (subst (1 2 3) show_nat.simps) (simp add: digits_nat_def)
  next
    case False
    then show ?thesis using 1 by (subst (1 2 3) show_nat.simps) (simp add: digits_nat_snoc)
  qed
qed

lemma lead_digits_append:
  "list_all is_ascii_digit a \<Longrightarrow> (b = [] \<or> \<not> is_ascii_digit (hd b)) \<Longrightarrow> lead_digits (a @ b) = (a, b)"
  by (cases b) (auto simp: lead_digits_def list_all_iff takeWhile_append2 dropWhile_append2 takeWhile_eq_all_conv
      dropWhile_eq_Nil_conv)

lemma show_thousandths_parts:
  "\<exists>frac. show_thousandths n = show_nat (n div 1000) @ ''.'' @ frac \<and> length frac = 3
     \<and> list_all is_ascii_digit frac \<and> digits_nat (show_nat (n div 1000) @ frac) = n"
proof -
  let ?frac = "[digit_char (n div 100 mod 10), digit_char (n div 10 mod 10), digit_char (n mod 10)]"
  have "digits_nat (((show_nat (n div 1000) @ [digit_char (n div 100 mod 10)]) @ [digit_char (n div 10 mod 10)])
      @ [digit_char (n mod 10)]) = ((n div 1000 * 10 + n div 100 mod 10) * 10 + n div 10 mod 10) * 10 + n mod 10"
    by (simp only: digits_nat_snoc show_nat_digits mod_less_divisor zero_less_numeral)
  also have "n div 1000 * 10 + n div 100 mod 10 = n div 100"
    using div_mult_mod_eq [of "n div 100" 10] by (simp flip: div_mult2_eq)
  also have "n div 100 * 10 + n div 10 mod 10 = n div 10"
    using div_mult_mod_eq [of "n div 10" 10] by (simp flip: div_mult2_eq)
  also have "n div 10 * 10 + n mod 10 = n" by (rule div_mult_mod_eq)
  finally show ?thesis by (intro exI [of _ ?frac]) (simp add: show_thousandths_def)
qed

lemma parse_show_thousandths: "parse_decimal neg (show_thousandths n) = Some (rnd neg (of_nat n / 1000))"
proof -
  from show_thousandths_parts obtain frac where
    f: "show_thousandths n = show_nat (n div 1000) @ ''.'' @ frac" "length frac = 3"
      "list_all is_ascii_digit frac" "digits_nat (show_nat (n div 1000) @ frac) = n" by blast
  have "lead_digits (show_nat (n div 1000) @ ''.'' @ frac) = (show_nat (n div 1000), ''.'' @ frac)"
    by (intro lead_digits_append) (simp_all add: show_nat_digits is_ascii_digit_def char_code_def)
  moreover have "lead_digits frac = (frac, [])" using lead_digits_append [of frac "[]"] f(3) by simp
  ultimately show ?thesis using f show_nat_digits [of "n div 1000"] by (simp add: parse_decimal_def)
qed

lemma show_nat_head: "\<exists>d r. show_nat n = digit_char d # r \<and> d < 10"
proof (induction n rule: show_nat.induct)
  case (1 n)
  then show ?case by (cases "n < 10") (auto simp: show_nat.simps [of n])
qed

lemma digit_char_neq: "d < 10 \<Longrightarrow> char_code c < 48 \<or> 57 < char_code c \<Longrightarrow> digit_char d \<noteq> c"
  by (auto dest: arg_cong [of _ _ char_code])

lemma ascii_lower_digit: "d < 10 \<Longrightarrow> ascii_lower (digit_char d) = digit_char d"
  by (simp add: ascii_lower_def)

lemma parse_f64_show: "is_finite x \<Longrightarrow> \<exists>s m. x = Fin s m \<and> parse_f64 (show_f64_3 x) = Some (rnd s (of_nat (nat (rhe (m * 1000))) / 1000))"
proof -
  assume "is_finite x"
  then obtain s m where x: "x = Fin s m" by (cases x) auto
  let ?t = "show_thousandths (nat (rhe (m * 1000)))"
  obtain d r where d: "?t = digit_char d # r" "d < 10"
    using show_nat_head [of "nat (rhe (m * 1000)) div 1000"] by (auto simp: show_thousandths_def)
  have "take 1 ?t \<noteq> ''-''" "take 1 ?t \<noteq> ''+''" and l: "map ascii_lower ?t \<noteq> ''inf''"
    "map ascii_lower ?t \<noteq> ''infinity''" "map ascii_lower ?t \<noteq> ''nan''"
    using digit_char_neq [OF d(2)] by (simp_all add: d(1) ascii_lower_digit [OF d(2)] char_code_def)
  then show ?thesis
    by (intro exI [of _ s] exI [of _ m] conjI [OF x])
      (cases s; simp add: x parse_f64_def Let_def parse_show_thousandths)
qed

end
