(* ===== verification/StateFiles.thy ===== *)
theory StateFiles
  imports Files FloatText Nts Discipline
begin

text \<open>
  The files in the state directory (\<open>timed/src/state.rs\<close>): the drift file and the cookie files. Both
  are written through \<open>replace_file\<close>, and their readers take them as what they may have become. The
  daemon reads the drift file when it starts; the cookie files it writes only, for \<open>read_cookies\<close> has
  no caller.
\<close>

section \<open>Definitions\<close>

definition STATE_DIR :: string where "STATE_DIR = ''/var/state/timed''"
definition DRIFT_FILE :: string where "DRIFT_FILE = ''/var/state/timed/drift''"
definition COOKIE_DIR :: string where "COOKIE_DIR = ''/var/state/timed/cookies''"

definition read_drift :: "files \<Rightarrow> f64 option" where
  "read_drift files =
     (case Option.bind (files DRIFT_FILE) from_utf8 of None \<Rightarrow> None
      | Some txt \<Rightarrow>
          (case parse_f64 (trim txt) of None \<Rightarrow> None
           | Some ppm \<Rightarrow>
               if \<not> is_finite ppm \<or> flt (fmul MAX_FREQUENCY (lit 1000000)) (fabs ppm) then None
               else Some (fdiv ppm (lit 1000000))))"

definition drift_text :: "f64 \<Rightarrow> bytes" where
  "drift_text frequency = bytes_of_string (show_f64_3 (fmul frequency (lit 1000000)) @ [CHR 0x0A])"

definition write_drift :: "fault \<Rightarrow> f64 \<Rightarrow> files \<Rightarrow> bool \<times> files" where
  "write_drift fl frequency files =
     (if \<not> is_finite frequency then (True, files)
      else replace_file fl DRIFT_FILE (drift_text frequency) files)"

definition safe_char :: "char \<Rightarrow> char" where
  "safe_char c = (if is_ascii_alphanumeric c \<or> c = CHR ''.'' \<or> c = CHR ''-'' then c else CHR ''_'')"

text \<open>
  \<open>chars()\<close> yields one character per code point: a continuation byte belongs to the character
  its lead byte began, and is dropped with it.
\<close>

definition safe_name :: "string \<Rightarrow> string" where
  "safe_name name = map safe_char (filter (\<lambda>c. \<not> cont_byte (char_code c)) name)"

definition cookie_path :: "string \<Rightarrow> string" where
  "cookie_path name = path_join COOKIE_DIR (safe_name name)"

text \<open>The reader's loop: \<open>out\<close> is what it has read, \<open>rest\<close> what is left of the file.\<close>

function read_jar :: "bytes list \<Rightarrow> bytes \<Rightarrow> bytes list" where
  "read_jar out rest =
     (if length rest < 2 then out
      else let len = unat (u16_from_be (take 2 rest)) in
        if len = 0 \<or> MAX_COOKIE < len \<or> length rest < 2 + len then out
        else let out = out @ [bslice 2 (2 + len) rest] in
          if COOKIE_TARGET \<le> length out then out else read_jar out (drop (2 + len) rest))"
  by pat_completeness auto
termination
  by (relation "measure (\<lambda>(out, rest). length rest)") auto

declare read_jar.simps [simp del]

definition read_cookies :: "files \<Rightarrow> string \<Rightarrow> bytes list" where
  "read_cookies files name =
     (case files (cookie_path name) of None \<Rightarrow> [] | Some content \<Rightarrow> read_jar [] content)"

definition cookie_ok :: "bytes \<Rightarrow> bool" where
  "cookie_ok c \<longleftrightarrow> c \<noteq> [] \<and> length c \<le> MAX_COOKIE"

definition cookie_bytes :: "bytes \<Rightarrow> bytes" where
  "cookie_bytes c = u16_to_be (of_nat (length c)) @ c"

definition jar_bytes :: "bytes list \<Rightarrow> bytes" where
  "jar_bytes cookies = concat (map cookie_bytes (filter cookie_ok (take COOKIE_TARGET cookies)))"

definition write_cookies :: "fault \<Rightarrow> string \<Rightarrow> bytes list \<Rightarrow> files \<Rightarrow> bool \<times> files" where
  "write_cookies fl name cookies files = replace_file fl (cookie_path name) (jar_bytes cookies) files"

definition forget_cookies :: "string \<Rightarrow> files \<Rightarrow> files" where
  "forget_cookies name files = files(cookie_path name := None)"

section \<open>The drift file\<close>

lemma drift_temporary: "with_extension_new DRIFT_FILE = ''/var/state/timed/drift.new''"
  by code_simp

interpretation drift: durable_write "\<lambda>fl. replace_file fl DRIFT_FILE" DRIFT_FILE
  by (rule replace_file_durable) (simp add: drift_temporary, simp add: DRIFT_FILE_def)

lemma million_lit: "lit 1000000 = Fin False 1000000"
  by (simp add: rnd_eval)

lemma max_ppm: "fmul MAX_FREQUENCY (lit 1000000) = Fin False 500"
  by (simp add: MAX_FREQUENCY_def rnd_eval)

lemma max_ppm_neg: "fmul (fneg MAX_FREQUENCY) (lit 1000000) = Fin True 500"
  by (simp add: MAX_FREQUENCY_def rnd_eval)

lemma max_from_ppm: "fdiv (Fin False 500) (lit 1000000) = MAX_FREQUENCY"
  "fdiv (Fin True 500) (lit 1000000) = fneg MAX_FREQUENCY"
  by (simp_all add: MAX_FREQUENCY_def rnd_eval)

text \<open>Whatever the file holds, what is read from it is a frequency the discipline would keep.\<close>

lemma ppm_to_rate_bounded:
  assumes "is_finite ppm" "f64_ok ppm" "\<not> flt (Fin False 500) (fabs ppm)"
  shows "bounded_rate (fdiv ppm (lit 1000000)) \<and> f64_ok (fdiv ppm (lit 1000000))"
proof -
  have "\<bar>val ppm\<bar> \<le> 500" using assms val_fabs [OF assms(2)] by (simp add: flt_val)
  then have "fle (Fin True 500) ppm" "fle ppm (Fin False 500)" using assms(1) by (simp_all add: fle_val abs_le_iff)
  moreover have "f64_ok (Fin True 500)" "f64_ok (Fin False 500)"
    using rep_of_int [of 500] by (simp_all add: f64_top_def)
  ultimately have "fle (fdiv (Fin True 500) (lit 1000000)) (fdiv ppm (lit 1000000))"
    "fle (fdiv ppm (lit 1000000)) (fdiv (Fin False 500) (lit 1000000))"
    using assms fdiv_mono [of "Fin True 500" ppm 1000000] fdiv_mono [of ppm "Fin False 500" 1000000]
    by (simp_all add: million_lit del: fdiv.simps f64_ok.simps)
  then show ?thesis by (simp add: bounded_rate_def max_from_ppm)
qed

lemma parse_f64_ok: "parse_f64 s = Some x \<Longrightarrow> f64_ok x"
  by (auto simp: parse_f64_def parse_decimal_def Let_def split: prod.splits if_splits)

lemma read_drift_bounded: "read_drift files = Some g \<Longrightarrow> bounded_rate g \<and> f64_ok g"
  using ppm_to_rate_bounded parse_f64_ok
  by (auto simp: read_drift_def max_ppm split: option.splits if_splits)

text \<open>Writing three decimals of a ppm and reading them back loses at most a thousandth of a ppm.\<close>

lemma quantum_512: "x \<le> 512 \<Longrightarrow> 0 < x \<Longrightarrow> quantum x \<le> 1 / 1000000000000"
proof -
  assume x: "x \<le> 512" "0 < x"
  have "ilog2 512 = 9" by (rule ilog2_eqI) simp_all
  then have "quantum 512 \<le> 1 / 1000000000000" by (simp add: quantum_def power_int_minus)
  with quantum_mono [OF x(2,1)] show ?thesis by linarith
qed

lemma show_f64_3_plain: "is_finite x \<Longrightarrow> list_all plain_char (show_f64_3 x) \<and> show_f64_3 x \<noteq> []"
proof -
  have "plain_char c" if "is_ascii_digit c" for c using that by (simp add: plain_char_def is_ascii_digit_def)
  then have "list_all plain_char (show_thousandths n)" for n
    using show_thousandths_parts [of n] show_nat_digits [of "n div 1000"]
    by (fastforce simp: list_all_iff plain_char_def char_code_def)
  moreover have "show_thousandths n \<noteq> []" for n by (simp add: show_thousandths_def)
  moreover have "plain_char CHR ''-''" by (simp add: plain_char_def char_code_def)
  ultimately show "is_finite x \<Longrightarrow> ?thesis" by (cases x) auto
qed

lemma drift_text_read:
  assumes "is_finite (fmul f (lit 1000000))"
  shows "\<exists>t. from_utf8 (drift_text f) = Some t \<and> trim t = show_f64_3 (fmul f (lit 1000000))"
proof -
  let ?s = "show_f64_3 (fmul f (lit 1000000))"
  have p: "list_all plain_char ?s" "?s \<noteq> []" using show_f64_3_plain [OF assms] by simp_all
  then have "list_all (\<lambda>c. char_code c < 128) (?s @ [CHR 0x0A])"
    by (auto simp: list_all_iff plain_char_def char_code_def)
  then have "from_utf8 (drift_text f) = Some (?s @ [CHR 0x0A])" by (simp add: drift_text_def from_utf8_ascii)
  moreover have "trim (?s @ [CHR 0x0A]) = ?s"
    using p by (intro trim_plain) (simp_all add: ws_len_def char_code_def)
  ultimately show ?thesis by blast
qed

lemma ppm_close:
  assumes "bounded_rate f" "f64_ok f"
  shows "is_finite (fmul f (lit 1000000)) \<and> \<bar>val (fmul f (lit 1000000))\<bar> \<le> 500
    \<and> \<bar>val (fmul f (lit 1000000)) - val f * 1000000\<bar> \<le> 1 / 1000000000000"
proof -
  have M: "f64_ok MAX_FREQUENCY" "is_finite MAX_FREQUENCY" "val MAX_FREQUENCY \<le> 1 / 1999"
    by (simp_all add: MAX_FREQUENCY_def) (simp_all add: rnd_eval)
  have fin: "is_finite f"
    using assms M(2) is_finite_between [of "fneg MAX_FREQUENCY" f MAX_FREQUENCY] by (simp add: bounded_rate_def)
  then have v: "\<bar>val f\<bar> \<le> val MAX_FREQUENCY" using assms M(2) by (simp add: bounded_rate_def fle_val abs_le_iff)
  obtain s m where f: "f = Fin s m" using fin by (cases f) auto
  have z: "fmul f (lit 1000000) = fround s (val f * 1000000)"
    using assms(2) by (cases s) (auto simp: f million_lit fround_def rep_def mult_less_0_iff)
  have "\<bar>val f * 1000000\<bar> \<le> 512" using v M(3) by (simp add: abs_mult)
  note err = fround_error [OF this, of s]
  have "is_finite (fmul f (lit 1000000))" unfolding z by (rule err(1)) simp_all
  moreover have "\<bar>val (fmul f (lit 1000000)) - val f * 1000000\<bar> \<le> 1 / 1000000000000"
    unfolding z by (rule order.trans [OF err(2) quantum_512]) simp_all
  moreover have "fle (Fin True 500) (fmul f (lit 1000000))" "fle (fmul f (lit 1000000)) (Fin False 500)"
    using fmul_const_mono [of f MAX_FREQUENCY 1000000] fmul_const_mono [of "fneg MAX_FREQUENCY" f 1000000]
      assms fin M(1,2) max_ppm
    by (simp_all add: bounded_rate_def million_lit max_ppm_neg [unfolded million_lit])
  ultimately show ?thesis by (simp add: fle_val abs_le_iff)
qed

text \<open>
  The learned frequency survives a reboot: what a completed write of the drift file leaves is
  read back, after a restart, to within a thousandth of a part per million of what was written,
  and whatever else the file may hold, nothing is read from it but a frequency within 500 ppm.
\<close>
theorem drift_round_trip:
  assumes "bounded_rate f" "f64_ok f" and "write_drift fl f files = (True, files')"
  shows "(\<exists>g. read_drift files' = Some g \<and> \<bar>val g - val f\<bar> \<le> 1 / 10 ^ 9)
    \<and> (read_drift files0 = Some h \<longrightarrow> bounded_rate h \<and> f64_ok h)"
proof
  let ?p = "fmul f (lit 1000000)"
  from ppm_close [OF assms(1,2)] have p: "is_finite ?p" "\<bar>val ?p\<bar> \<le> 500"
    "\<bar>val ?p - val f * 1000000\<bar> \<le> 1 / 1000000000000" by simp_all
  have "is_finite f" using p(1) by (cases f) (auto simp: million_lit)
  then have "replace_file fl DRIFT_FILE (drift_text f) files = (True, files')"
    using assms(3) by (simp add: write_drift_def)
  then have files': "files' DRIFT_FILE = Some (drift_text f)" by (rule drift.reported)
  obtain s m where sm: "?p = Fin s m" and parse: "parse_f64 (show_f64_3 ?p) = Some (rnd s (of_nat (nat (rhe (m * 1000))) / 1000))"
    using parse_f64_show [OF p(1)] by blast
  let ?q = "of_nat (nat (rhe (m * 1000))) / 1000 :: rat"
  have "f64_ok (Fin s m)" using fmul_ok [of f "lit 1000000"] by (simp only: sm)
  then have m: "0 \<le> m" "m \<le> 500" using p(2) sm by (auto dest: rep_nonneg split: if_splits)
  have r0: "0 \<le> rhe (m * 1000)" using m by (intro rhe_ge) simp
  have r5: "rhe (m * 1000) \<le> 500000" using m by (intro rhe_le) simp
  have r5': "rat_of_int (rhe (m * 1000)) \<le> 500000" using r5 by (simp only: of_int_le_numeral_iff)
  have q: "0 \<le> ?q" "?q \<le> 500" "\<bar>?q - m\<bar> \<le> 1 / 2000"
    using rhe_half [of "m * 1000"] r0 r5'
    by (simp_all add: of_nat_nat abs_le_iff field_simps)
  let ?x = "rnd s ?q"
  have x: "?x = fround s (if s then - ?q else ?q)" using q(1) by (auto simp: fround_def)
  have "\<bar>if s then - ?q else ?q\<bar> \<le> 512" using q by auto
  note err = fround_error [OF this, of s, folded x, simplified]
  have xf: "is_finite ?x" and xe: "\<bar>val ?x - (if s then - ?q else ?q)\<bar> \<le> 1 / 1000000000000"
    using err quantum_512 [of 512] by simp_all
  have ax: "\<bar>val ?x\<bar> \<le> 500" using rnd_abs_le [of 500 ?q s] rep_of_int [of 500] q by simp
  then have nf: "\<not> flt (Fin False 500) (fabs ?x)" using xf val_fabs [of ?x] by (simp add: flt_val)
  have "read_drift files' = Some (fdiv ?x (lit 1000000))"
    using drift_text_read [OF p(1)] files' parse xf nf by (auto simp: read_drift_def max_ppm)
  moreover have "\<bar>val (fdiv ?x (lit 1000000)) - val f\<bar> \<le> 1 / 10 ^ 9"
  proof -
    obtain z where z: "fdiv ?x (lit 1000000) = fround z (val ?x / 1000000)"
      unfolding million_lit using fdiv_fin [of ?x 1000000] xf by auto
    have "\<bar>val ?x / 1000000\<bar> \<le> 512" using ax by simp
    from fround_error(2) [OF this, of z] quantum_512 [of 512]
    have "\<bar>val (fdiv ?x (lit 1000000)) - val ?x / 1000000\<bar> \<le> 1 / 1000000000000" by (simp add: z)
    moreover have "val ?p = (if s then - m else m)" by (simp add: sm)
    moreover have "(1::rat) / 10 ^ 9 = 1 / 1000000000" by simp
    ultimately show ?thesis using xe q(3) p(3) unfolding abs_le_iff
      by (cases s) (simp_all only: if_True if_False, linarith+)
  qed
  ultimately show "\<exists>g. read_drift files' = Some g \<and> \<bar>val g - val f\<bar> \<le> 1 / 10 ^ 9" by blast
qed (use read_drift_bounded in blast)

theorem drift_round_trip_witness:
  "\<exists>f files' g. write_drift NoFault f Map.empty = (True, files') \<and> read_drift files' = Some g
     \<and> \<bar>val g - val f\<bar> \<le> 1 / 10 ^ 9 \<and> is_finite f \<and> f = lit (12 / 1000000)"
proof -
  let ?f = "lit (12 / 1000000)"
  have b: "bounded_rate ?f" by (simp add: bounded_rate_def MAX_FREQUENCY_def rnd_eval fle_def)
  have fin: "is_finite ?f" by (simp add: rnd_eval)
  have w: "write_drift NoFault ?f Map.empty = (True, snd (write_drift NoFault ?f Map.empty))"
    using fin by (simp add: write_drift_def replace_file_def)
  from drift_round_trip [OF b lit_ok w] w fin show ?thesis by blast
qed

section \<open>The cookie store\<close>

definition cookie_dec :: "bytes \<Rightarrow> (bytes \<times> bytes) option" where
  "cookie_dec bs =
     (if length bs < 2 then None
      else let len = unat (u16_from_be (take 2 bs)) in
        if len = 0 \<or> MAX_COOKIE < len \<or> length bs < 2 + len then None
        else Some (bslice 2 (2 + len) bs, drop (2 + len) bs))"

lemma cookie_len: "length c \<le> MAX_COOKIE \<Longrightarrow> unat (of_nat (length c) :: u16) = length c"
  by (simp add: MAX_COOKIE_def unat_of_nat)

interpretation jar: framed_item cookie_ok cookie_bytes cookie_dec
proof unfold_locales
  show "cookie_dec (cookie_bytes c @ rest) = Some (c, rest)" if "cookie_ok c" for c rest
    using that by (simp add: cookie_dec_def cookie_bytes_def cookie_ok_def be16.length_enc be16.dec_enc
        cookie_len bslice_def Let_def)
  show "bs = cookie_bytes c @ rest \<and> cookie_ok c" if "cookie_dec bs = Some (c, rest)" for bs c rest
  proof -
    let ?n = "unat (u16_from_be (take 2 bs))"
    from that have l: "2 + ?n \<le> length bs" and n: "0 < ?n" "?n \<le> MAX_COOKIE"
      and c: "c = bslice 2 (2 + ?n) bs" and rest: "rest = drop (2 + ?n) bs"
      by (auto simp: cookie_dec_def Let_def split: if_splits)
    then have len: "length c = ?n" by (simp add: bslice_def)
    have "u16_to_be (of_nat (length c)) = take 2 bs" using l by (simp add: len be16.enc_dec)
    moreover have "rest = drop ?n (drop 2 bs)" by (simp add: rest add.commute)
    then have "take 2 bs @ c @ rest = bs" by (simp add: c bslice_def append_take_drop_id del: drop_drop)
    ultimately show ?thesis using n len by (auto simp: cookie_bytes_def cookie_ok_def)
  qed
  show "cookie_bytes c \<noteq> []" for c
    using be16.length_enc [of "of_nat (length c)"] by (auto simp: cookie_bytes_def)
qed

text \<open>The reader is a loop over the items, up to the cookie target.\<close>

lemma read_jar_step:
  "read_jar out rest = (case cookie_dec rest of None \<Rightarrow> out
     | Some (c, r) \<Rightarrow> if COOKIE_TARGET \<le> Suc (length out) then out @ [c] else read_jar (out @ [c]) r)"
  by (subst read_jar.simps) (simp add: cookie_dec_def Let_def)

lemma read_jar_written:
  "list_all cookie_ok cs \<Longrightarrow> length out + length cs \<le> COOKIE_TARGET \<Longrightarrow> length out < COOKIE_TARGET
    \<Longrightarrow> read_jar out (concat (map cookie_bytes cs)) = out @ cs"
proof (induction cs arbitrary: out)
  case Nil
  then show ?case by (simp add: read_jar_step cookie_dec_def)
next
  case (Cons c cs)
  then show ?case
    by (cases cs) (simp_all add: read_jar_step [of out] jar.item_dec_enc jar.item_dec_enc [where rest = "[]", simplified])
qed

text \<open>What it returns always is a sequence of whole items at the head of the file.\<close>

lemma read_jar_sound:
  "length out < COOKIE_TARGET \<Longrightarrow> \<exists>cs more. read_jar out rest = out @ cs \<and> list_all cookie_ok cs
     \<and> length out + length cs \<le> COOKIE_TARGET \<and> rest = concat (map cookie_bytes cs) @ more"
proof (induction "length rest" arbitrary: out rest rule: less_induct)
  case less
  show ?case
  proof (cases "cookie_dec rest")
    case None
    then show ?thesis using less.prems
      by (intro exI [of _ "[]"] exI [of _ rest]) (simp add: read_jar_step [of out])
  next
    case (Some cr)
    obtain c r where cr: "cr = (c, r)" by (cases cr)
    from Some cr have rest: "rest = cookie_bytes c @ r" and ok: "cookie_ok c" and lt: "length r < length rest"
      using jar.item_dec_sound jar.item_progress by blast+
    show ?thesis
    proof (cases "COOKIE_TARGET \<le> Suc (length out)")
      case True
      then show ?thesis using less.prems Some cr rest ok
        by (intro exI [of _ "[c]"]) (simp add: read_jar_step [of out])
    next
      case False
      from less.hyps [OF lt, of "out @ [c]"] False obtain cs more where
        "read_jar (out @ [c]) r = (out @ [c]) @ cs" "list_all cookie_ok cs"
        "length (out @ [c]) + length cs \<le> COOKIE_TARGET" "r = concat (map cookie_bytes cs) @ more" by auto
      then show ?thesis using False Some cr rest ok
        by (intro exI [of _ "c # cs"] exI [of _ more]) (simp add: read_jar_step [of out])
    qed
  qed
qed

text \<open>
  C39: a file of cookies is read as it was written. After \<open>write_cookies\<close> has completed for a source,
  \<open>read_cookies\<close> gives the first eight of the cookies saved, less any that is empty or over 1,024
  bytes; and from any file whatever, at most eight cookies are read, each of 1 to 1,024 bytes, and
  they are the contents of whole length-prefixed items at its head, in order. This is about the two
  functions and the file between them: the daemon writes these files and never reads them, so
  nothing is said of cookies being used again after a restart.
\<close>
theorem cookie_file_reads_back:
  assumes "write_cookies fl name cookies files = (True, files')"
  shows "read_cookies files' name = filter cookie_ok (take COOKIE_TARGET cookies)
    \<and> length (read_cookies any name) \<le> 8 \<and> list_all cookie_ok (read_cookies any name)
    \<and> take (length (jar_bytes (read_cookies any name))) (case any (cookie_path name) of None \<Rightarrow> [] | Some b \<Rightarrow> b)
        = jar_bytes (read_cookies any name)"
proof -
  from assms have "files' (cookie_path name) = Some (jar_bytes cookies)"
    by (auto simp: write_cookies_def replace_file_def Let_def split: fault.splits)
  then have "read_cookies files' name = filter cookie_ok (take COOKIE_TARGET cookies)"
    using read_jar_written [of "filter cookie_ok (take COOKIE_TARGET cookies)" "[]"]
      length_filter_le [of cookie_ok "take COOKIE_TARGET cookies"]
    by (simp add: read_cookies_def jar_bytes_def list_all_iff COOKIE_TARGET_def)
  moreover have "length (read_cookies any name) \<le> 8 \<and> list_all cookie_ok (read_cookies any name)
    \<and> take (length (jar_bytes (read_cookies any name))) (case any (cookie_path name) of None \<Rightarrow> [] | Some b \<Rightarrow> b)
        = jar_bytes (read_cookies any name)"
  proof (cases "any (cookie_path name)")
    case None
    then show ?thesis by (simp add: read_cookies_def jar_bytes_def)
  next
    case (Some b)
    have "length ([] :: bytes list) < COOKIE_TARGET" by (simp add: COOKIE_TARGET_def)
    from read_jar_sound [OF this, of b] obtain cs more where cs: "read_jar [] b = [] @ cs" "list_all cookie_ok cs"
      "length ([] :: bytes list) + length cs \<le> COOKIE_TARGET" and b: "b = concat (map cookie_bytes cs) @ more"
      by blast
    then have "filter cookie_ok (take COOKIE_TARGET cs) = cs"
      by (simp add: list_all_iff filter_id_conv)
    with Some cs b show ?thesis by (simp add: read_cookies_def jar_bytes_def COOKIE_TARGET_def)
  qed
  ultimately show ?thesis by blast
qed

theorem cookie_file_reads_back_witness:
  "write_cookies NoFault ''a.b'' [[1, 2], [], [3]] Map.empty
     = (True, [''/var/state/timed/cookies/a.b'' \<mapsto> [0, 2, 1, 2, 0, 1, 3]])
   \<and> read_cookies [''/var/state/timed/cookies/a.b'' \<mapsto> [0, 2, 1, 2, 0, 1, 3]] ''a.b'' = [[1, 2], [3]]"
proof -
  have w: "write_cookies NoFault ''a.b'' [[1, 2], [], [3]] Map.empty
     = (True, [''/var/state/timed/cookies/a.b'' \<mapsto> [0, 2, 1, 2, 0, 1, 3]])"
  proof -
    have "cookie_path ''a.b'' = ''/var/state/timed/cookies/a.b''"
      "with_extension_new ''/var/state/timed/cookies/a.b'' = ''/var/state/timed/cookies/a.new''"
      "jar_bytes [[1, 2], [], [3]] = [0, 2, 1, 2, 0, 1, 3]" by code_simp+
    then show ?thesis by (simp add: write_cookies_def replace_file_def)
  qed
  have "filter cookie_ok (take COOKIE_TARGET [[1, 2], [], [3 :: u8]]) = [[1, 2], [3]]"
    by (simp add: cookie_ok_def COOKIE_TARGET_def MAX_COOKIE_def)
  with cookie_file_reads_back [OF w] w show ?thesis by simp
qed

section \<open>Where a cookie file is\<close>

lemma utf8_low: "b < 194 \<Longrightarrow> utf8_valid (b # bs) \<longleftrightarrow> b < 128 \<and> utf8_valid bs"
  by simp

lemma utf8_leads: "utf8_valid bs \<Longrightarrow> \<forall>b\<in>set bs. b < 194 \<Longrightarrow> \<forall>b\<in>set bs. b < 128"
  by (induction bs) (simp_all add: utf8_low del: utf8_valid.simps)

lemma utf8_head: "utf8_valid (b # bs) \<Longrightarrow> \<not> cont_byte b"
  by (auto simp: cont_byte_def split: if_splits)

lemma safe_char_dot: "safe_char c = CHR ''.'' \<longleftrightarrow> c = CHR ''.''"
  by (auto simp: safe_char_def)

lemma safe_name_dots:
  assumes "utf8_valid (map char_code name)" "set (safe_name name) \<subseteq> {CHR ''.''}"
  shows "safe_name name = name"
proof -
  have "char_code c = char_code CHR ''.''" if "c \<in> set name" "\<not> cont_byte (char_code c)" for c
    using assms(2) that by (auto simp: safe_name_def safe_char_dot subset_iff image_iff)
  then have "\<forall>b\<in>set (map char_code name). b < 194"
    by (force simp: cont_byte_def char_code_def)
  from utf8_leads [OF assms(1) this] have "\<forall>c\<in>set name. \<not> cont_byte (char_code c)"
    by (auto simp: cont_byte_def)
  then have n: "safe_name name = map safe_char name" by (simp add: safe_name_def)
  show ?thesis unfolding n
  proof (rule map_idI)
    fix c assume "c \<in> set name"
    then have "safe_char c = CHR ''.''" using assms(2) n by auto
    then show "safe_char c = c" by (simp add: safe_char_dot)
  qed
qed

text \<open>
  A source's name cannot place its cookie file elsewhere: whatever the name, the file is one
  component below the cookie directory, made of letters, digits, dots, dashes and underscores
  only, and names the directory itself or its parent only if the name is \<open>.\<close> or \<open>..\<close>.
\<close>
theorem cookie_path_confined:
  assumes "name \<noteq> []" "utf8_valid (map char_code name)"
  shows "\<exists>n. cookie_path name = COOKIE_DIR @ CHR ''/'' # n \<and> n \<noteq> [] \<and> CHR ''/'' \<notin> set n
    \<and> list_all (\<lambda>c. is_ascii_alphanumeric c \<or> c \<in> {CHR ''.'', CHR ''-'', CHR ''_''}) n
    \<and> (n \<in> {''.'', ''..''} \<longleftrightarrow> name \<in> {''.'', ''..''})"
proof -
  let ?n = "safe_name name"
  have chars: "list_all (\<lambda>c. is_ascii_alphanumeric c \<or> c \<in> {CHR ''.'', CHR ''-'', CHR ''_''}) ?n"
    by (auto simp: safe_name_def list_all_iff safe_char_def)
  moreover have "\<not> is_ascii_alphanumeric CHR ''/''"
    by (simp add: is_ascii_alphanumeric_def is_ascii_digit_def char_code_def)
  ultimately have slash: "CHR ''/'' \<notin> set ?n" by (auto simp: list_all_iff)
  have ne: "?n \<noteq> []" using assms utf8_head by (cases name) (auto simp: safe_name_def simp del: utf8_valid.simps)
  have "?n \<in> {''.'', ''..''} \<longleftrightarrow> name \<in> {''.'', ''..''}"
  proof
    assume n: "?n \<in> {''.'', ''..''}"
    then have "set ?n \<subseteq> {CHR ''.''}" by auto
    from safe_name_dots [OF assms(2) this] n show "name \<in> {''.'', ''..''}" by simp
  next
    assume "name \<in> {''.'', ''..''}"
    then show "?n \<in> {''.'', ''..''}"
      by (auto simp: safe_name_def safe_char_dot cont_byte_def char_code_def)
  qed
  moreover have "take 1 ?n \<noteq> ''/''" using slash by (cases ?n) auto
  then have "cookie_path name = COOKIE_DIR @ CHR ''/'' # ?n" by (simp add: cookie_path_def path_join_def)
  ultimately show ?thesis using ne slash chars by blast
qed

theorem cookie_path_confined_witness:
  "\<exists>n. cookie_path ''../../etc/passwd'' = COOKIE_DIR @ CHR ''/'' # n \<and> CHR ''/'' \<notin> set n
    \<and> cookie_path ''../../etc/passwd'' = ''/var/state/timed/cookies/.._.._etc_passwd''"
proof -
  have u: "utf8_valid (map char_code ''../../etc/passwd'')" by code_simp
  have "cookie_path ''../../etc/passwd'' = ''/var/state/timed/cookies/.._.._etc_passwd''" by code_simp
  with cookie_path_confined [OF _ u] show ?thesis by blast
qed

end
