(* ===== verification/Protocol.thy ===== *)
theory Protocol
  imports F64 RustText "HOL-Library.Countable"
begin

text \<open>
  The control protocol (\<open>libtimed/src/lib.rs\<close>): the labels, the records that travel, requests and
  replies with their encoders and decoders, the framing, and the reassembly of a chunked answer.
  MessagePack itself is a library and a parameter: how one token is written, how one is read,
  and how a value is skipped. A reader is the bytes it has left.
\<close>

section \<open>Labels\<close>

datatype sync = SyncUnsynchronised | SyncSettling | SyncSynchronised | SyncSpike

fun sync_as_str :: "sync \<Rightarrow> string" where
  "sync_as_str SyncUnsynchronised = ''unsynchronised''"
| "sync_as_str SyncSettling = ''settling''"
| "sync_as_str SyncSynchronised = ''synchronised''"
| "sync_as_str SyncSpike = ''spike''"

definition sync_parse :: "string \<Rightarrow> sync option" where
  "sync_parse s =
     (if s = ''unsynchronised'' then Some SyncUnsynchronised
      else if s = ''settling'' then Some SyncSettling
      else if s = ''synchronised'' then Some SyncSynchronised
      else if s = ''spike'' then Some SyncSpike else None)"

datatype auth = AuthNts | AuthNone

fun auth_as_str :: "auth \<Rightarrow> string" where
  "auth_as_str AuthNts = ''nts''"
| "auth_as_str AuthNone = ''none''"

definition auth_parse :: "string \<Rightarrow> auth option" where
  "auth_parse s = (if s = ''nts'' then Some AuthNts else if s = ''none'' then Some AuthNone else None)"

datatype origin = OriginRegistry | OriginDomain | OriginDhcp | OriginFallback

fun origin_as_str :: "origin \<Rightarrow> string" where
  "origin_as_str OriginRegistry = ''registry''"
| "origin_as_str OriginDomain = ''domain''"
| "origin_as_str OriginDhcp = ''dhcp''"
| "origin_as_str OriginFallback = ''fallback''"

definition origin_parse :: "string \<Rightarrow> origin option" where
  "origin_parse s =
     (if s = ''registry'' then Some OriginRegistry else if s = ''domain'' then Some OriginDomain
      else if s = ''dhcp'' then Some OriginDhcp else if s = ''fallback'' then Some OriginFallback else None)"

datatype source_state = SystemPeer | CandidateState | Outlier | Falseticker | Unreachable | Unusable

fun source_state_as_str :: "source_state \<Rightarrow> string" where
  "source_state_as_str SystemPeer = ''system-peer''"
| "source_state_as_str CandidateState = ''candidate''"
| "source_state_as_str Outlier = ''outlier''"
| "source_state_as_str Falseticker = ''falseticker''"
| "source_state_as_str Unreachable = ''unreachable''"
| "source_state_as_str Unusable = ''unusable''"

definition source_state_parse :: "string \<Rightarrow> source_state option" where
  "source_state_parse s =
     (if s = ''system-peer'' then Some SystemPeer else if s = ''candidate'' then Some CandidateState
      else if s = ''outlier'' then Some Outlier else if s = ''falseticker'' then Some Falseticker
      else if s = ''unreachable'' then Some Unreachable else if s = ''unusable'' then Some Unusable else None)"

text \<open>The contract of a label: each value has one text, and only that text names it.\<close>

locale label_codec =
  fixes as_str :: "'a \<Rightarrow> string" and parse_label :: "string \<Rightarrow> 'a option"
  assumes parse_as_str: "parse_label (as_str x) = Some x"
    and parse_only: "parse_label s = Some x \<Longrightarrow> s = as_str x"
begin

lemma parse_iff: "parse_label s = Some x \<longleftrightarrow> s = as_str x"
  using parse_as_str parse_only by blast

lemma as_str_inj: "as_str x = as_str y \<longleftrightarrow> x = y"
  by (metis option.inject parse_as_str)

end

interpretation sync: label_codec sync_as_str sync_parse
proof unfold_locales
  show "sync_parse (sync_as_str x) = Some x" for x by (cases x) (simp_all add: sync_parse_def)
qed (auto simp: sync_parse_def split: if_splits)

interpretation auth: label_codec auth_as_str auth_parse
proof unfold_locales
  show "auth_parse (auth_as_str x) = Some x" for x by (cases x) (simp_all add: auth_parse_def)
qed (auto simp: auth_parse_def split: if_splits)

interpretation origin: label_codec origin_as_str origin_parse
proof unfold_locales
  show "origin_parse (origin_as_str x) = Some x" for x by (cases x) (simp_all add: origin_parse_def)
qed (auto simp: origin_parse_def split: if_splits)

interpretation state: label_codec source_state_as_str source_state_parse
proof unfold_locales
  show "source_state_parse (source_state_as_str x) = Some x" for x by (cases x) (simp_all add: source_state_parse_def)
qed (auto simp: source_state_parse_def split: if_splits)

section \<open>What travels\<close>

record source_info =
  si_name :: string
  si_address :: string
  si_origin :: origin
  si_auth :: auth
  si_state :: source_state
  si_stratum :: u32
  si_reference :: string
  si_reach :: u32
  si_poll :: int
  si_last :: f64
  si_offset :: f64
  si_delay :: f64
  si_jitter :: f64
  si_root_distance :: f64
  si_cookies :: u32
  si_note :: "string option"

record status_info =
  ss_generation :: u64
  ss_sync :: sync
  ss_system_peer :: "string option"
  ss_stratum :: u32
  ss_offset :: f64
  ss_frequency_ppm :: f64
  ss_jitter :: f64
  ss_root_distance :: f64
  ss_root_delay :: f64
  ss_root_dispersion :: f64
  ss_leap :: int
  ss_stepped :: f64
  ss_updates :: u64
  ss_last_update :: f64
  ss_sources :: u32
  ss_selected :: u32
  ss_floor :: int
  ss_manual :: bool
  ss_zone :: "string option"

record snapshot_info =
  sn_generation :: u64
  sn_leap :: u32
  sn_stratum :: u32
  sn_reference_id :: bytes
  sn_reference_time :: f64
  sn_root_delay :: f64
  sn_root_dispersion :: f64
  sn_precision :: int
  sn_at :: f64
  sn_synchronised :: bool

definition source_info_default :: source_info where
  "source_info_default = \<lparr>si_name = [], si_address = [], si_origin = OriginRegistry, si_auth = AuthNts,
     si_state = Unreachable, si_stratum = 0, si_reference = [], si_reach = 0, si_poll = 0, si_last = fzero,
     si_offset = fzero, si_delay = fzero, si_jitter = fzero, si_root_distance = fzero, si_cookies = 0,
     si_note = None\<rparr>"

definition status_default :: status_info where
  "status_default = \<lparr>ss_generation = 0, ss_sync = SyncUnsynchronised, ss_system_peer = None, ss_stratum = 0,
     ss_offset = fzero, ss_frequency_ppm = fzero, ss_jitter = fzero, ss_root_distance = fzero,
     ss_root_delay = fzero, ss_root_dispersion = fzero, ss_leap = 0, ss_stepped = fzero, ss_updates = 0,
     ss_last_update = fzero, ss_sources = 0, ss_selected = 0, ss_floor = 0, ss_manual = False, ss_zone = None\<rparr>"

definition snapshot_default :: snapshot_info where
  "snapshot_default = \<lparr>sn_generation = 0, sn_leap = 0, sn_stratum = 0, sn_reference_id = [],
     sn_reference_time = fzero, sn_root_delay = fzero, sn_root_dispersion = fzero, sn_precision = 0,
     sn_at = fzero, sn_synchronised = False\<rparr>"

definition TIME_QUERY :: u32 where "TIME_QUERY = 1"
definition TIME_CONTROL :: u32 where "TIME_CONTROL = 2"
definition MAX_MESSAGE_BYTES :: nat where "MAX_MESSAGE_BYTES = 2 ^ 20"
definition SOURCES_PER_CHUNK :: nat where "SOURCES_PER_CHUNK = 32"

datatype request = ReqStatus | ReqSources | ReqSubscribe | ReqReload | ReqSet int u32

fun required_right :: "request \<Rightarrow> u32" where
  "required_right ReqReload = TIME_CONTROL"
| "required_right (ReqSet seconds nanos) = TIME_CONTROL"
| "required_right ReqStatus = TIME_QUERY"
| "required_right ReqSources = TIME_QUERY"
| "required_right ReqSubscribe = TIME_QUERY"

datatype reply =
    ReplyOk
  | ReplyError string
  | ReplyStatus status_info
  | ReplySources "source_info list" bool
  | ReplySnapshot snapshot_info

datatype protocol_error =
    Encoding
  | Missing string
  | Invalid string
  | DuplicateField string
  | UnknownQuery string
  | TooLarge nat
  | ShortRead

section \<open>MessagePack\<close>

text \<open>
  A token is what one call of the writer appends and one call of the reader takes: both integer
  calls use the one integer family, and the readers of a kind refuse any other token.
\<close>

datatype token =
    TMap nat
  | TArray nat
  | TStr string
  | TInt int
  | TFloat f64
  | TBool bool
  | TBin bytes
  | TNil

record msgpack =
  mp_put :: "token \<Rightarrow> bytes"
  mp_next :: "bytes \<Rightarrow> (token \<times> bytes) option"
  mp_skip :: "bytes \<Rightarrow> bytes option"

type_synonym 'a reader = "bytes \<Rightarrow> protocol_error + 'a \<times> bytes"

definition read_token :: "msgpack \<Rightarrow> (token \<Rightarrow> 'a option) \<Rightarrow> 'a reader" where
  "read_token M kind r = (case mp_next M r of None \<Rightarrow> Inl Encoding
     | Some (t, r') \<Rightarrow> (case kind t of None \<Rightarrow> Inl Encoding | Some x \<Rightarrow> Inr (x, r')))"

fun as_str :: "token \<Rightarrow> string option" where "as_str (TStr s) = Some s" | "as_str _ = None"
fun as_float :: "token \<Rightarrow> f64 option" where "as_float (TFloat x) = Some x" | "as_float _ = None"
fun as_bool :: "token \<Rightarrow> bool option" where "as_bool (TBool b) = Some b" | "as_bool _ = None"
fun as_bin :: "token \<Rightarrow> bytes option" where "as_bin (TBin b) = Some b" | "as_bin _ = None"
fun as_map :: "token \<Rightarrow> nat option" where "as_map (TMap n) = Some n" | "as_map _ = None"
fun as_array :: "token \<Rightarrow> nat option" where "as_array (TArray n) = Some n" | "as_array _ = None"

fun as_uint :: "token \<Rightarrow> u64 option" where
  "as_uint (TInt i) = (if 0 \<le> i \<and> i < 2 ^ 64 then Some (word_of_int i) else None)"
| "as_uint _ = None"

fun as_int :: "token \<Rightarrow> int option" where
  "as_int (TInt i) = (if in_i64 i then Some i else None)"
| "as_int _ = None"

text \<open>\<open>read_opt_str\<close>: a nil is no text, told apart by looking at the next token.\<close>

definition read_opt_str :: "msgpack \<Rightarrow> string option reader" where
  "read_opt_str M r = (case mp_next M r of
     Some (TNil, r') \<Rightarrow> Inr (None, r')
   | _ \<Rightarrow> rbind (read_token M as_str r) (\<lambda>(s, r). Inr (Some s, r)))"

definition skip_value :: "msgpack \<Rightarrow> bytes \<Rightarrow> protocol_error + bytes" where
  "skip_value M r = (case mp_skip M r of None \<Rightarrow> Inl Encoding | Some r' \<Rightarrow> Inr r')"

text \<open>\<open>for_each_field\<close>: \<open>f\<close> takes a key and the state so far; a key seen before ends it.\<close>

fun fields_loop ::
  "msgpack \<Rightarrow> (string \<Rightarrow> 's \<Rightarrow> 's reader) \<Rightarrow> nat \<Rightarrow> string list \<Rightarrow> 's \<Rightarrow> 's reader" where
  "fields_loop M f 0 seen s r = Inr (s, r)"
| "fields_loop M f (Suc n) seen s r =
     rbind (read_token M as_str r) (\<lambda>(key, r).
       if key \<in> set seen then Inl (DuplicateField key)
       else rbind (f key s r) (\<lambda>(s, r). fields_loop M f n (seen @ [key]) s r))"

definition for_each_field :: "msgpack \<Rightarrow> (string \<Rightarrow> 's \<Rightarrow> 's reader) \<Rightarrow> 's \<Rightarrow> 's reader" where
  "for_each_field M f s r =
     rbind (read_token M as_map r) (\<lambda>(n, r). fields_loop M f n [] s r)"

text \<open>A field read into the state.\<close>

definition into :: "'a reader \<Rightarrow> ('a \<Rightarrow> 's) \<Rightarrow> 's reader" where
  "into rd g r = rbind (rd r) (\<lambda>(x, r). Inr (g x, r))"

text \<open>\<open>as u32\<close> of a \<open>u64\<close> and \<open>as i32\<close> of an \<open>i64\<close> keep the low 32 bits.\<close>

definition u64_as_u32 :: "u64 \<Rightarrow> u32" where "u64_as_u32 v = ucast v"
definition i64_as_i32 :: "int \<Rightarrow> int" where "i64_as_i32 v = sint (word_of_int v :: u32)"

section \<open>Requests\<close>

abbreviation put_str :: "msgpack \<Rightarrow> string \<Rightarrow> bytes" where "put_str M s \<equiv> mp_put M (TStr s)"
abbreviation put_u64 :: "msgpack \<Rightarrow> u64 \<Rightarrow> bytes" where "put_u64 M v \<equiv> mp_put M (TInt (uint v))"
abbreviation put_u32 :: "msgpack \<Rightarrow> u32 \<Rightarrow> bytes" where "put_u32 M v \<equiv> mp_put M (TInt (uint v))"
abbreviation put_int :: "msgpack \<Rightarrow> int \<Rightarrow> bytes" where "put_int M v \<equiv> mp_put M (TInt v)"
abbreviation put_float :: "msgpack \<Rightarrow> f64 \<Rightarrow> bytes" where "put_float M x \<equiv> mp_put M (TFloat x)"
abbreviation put_bool :: "msgpack \<Rightarrow> bool \<Rightarrow> bytes" where "put_bool M b \<equiv> mp_put M (TBool b)"

fun query_word :: "request \<Rightarrow> string" where
  "query_word ReqStatus = ''status''"
| "query_word ReqSources = ''sources''"
| "query_word ReqSubscribe = ''subscribe''"
| "query_word ReqReload = ''reload''"
| "query_word (ReqSet seconds nanos) = ''set''"

fun request_encode :: "msgpack \<Rightarrow> request \<Rightarrow> bytes" where
  "request_encode M (ReqSet seconds nanos) =
     mp_put M (TMap 3) @ put_str M ''query'' @ put_str M ''set''
     @ put_str M ''seconds'' @ put_int M seconds @ put_str M ''nanos'' @ put_u32 M nanos"
| "request_encode M q = mp_put M (TMap 1) @ put_str M ''query'' @ put_str M (query_word q)"

record request_fields =
  rq_query :: "string option"
  rq_seconds :: "int option"
  rq_nanos :: u64

definition request_field :: "msgpack \<Rightarrow> string \<Rightarrow> request_fields \<Rightarrow> request_fields reader" where
  "request_field M key s =
     (if key = ''query'' then into (read_token M as_str) (\<lambda>x. s\<lparr>rq_query := Some x\<rparr>)
      else if key = ''seconds'' then into (read_token M as_int) (\<lambda>x. s\<lparr>rq_seconds := Some x\<rparr>)
      else if key = ''nanos'' then into (read_token M as_uint) (\<lambda>x. s\<lparr>rq_nanos := x\<rparr>)
      else (\<lambda>r. rbind (skip_value M r) (\<lambda>r. Inr (s, r))))"

definition request_of_fields :: "request_fields \<Rightarrow> protocol_error + request" where
  "request_of_fields s = (case rq_query s of
     None \<Rightarrow> Inl (Missing ''query'')
   | Some q \<Rightarrow>
      (if q = ''status'' then Inr ReqStatus
       else if q = ''sources'' then Inr ReqSources
       else if q = ''subscribe'' then Inr ReqSubscribe
       else if q = ''reload'' then Inr ReqReload
       else if q = ''set'' then
         (case rq_seconds s of None \<Rightarrow> Inl (Missing ''seconds'')
          | Some seconds \<Rightarrow>
              if 1000000000 \<le> rq_nanos s then Inl (Invalid ''nanos is a second or more'')
              else Inr (ReqSet seconds (u64_as_u32 (rq_nanos s))))
       else Inl (UnknownQuery q)))"

definition request_decode :: "msgpack \<Rightarrow> bytes \<Rightarrow> protocol_error + request" where
  "request_decode M bs =
     rbind (for_each_field M (request_field M) \<lparr>rq_query = None, rq_seconds = None, rq_nanos = 0\<rparr> bs)
       (\<lambda>(s, r). request_of_fields s)"

section \<open>Replies\<close>

definition write_opt_str :: "msgpack \<Rightarrow> string \<Rightarrow> string option \<Rightarrow> bytes" where
  "write_opt_str M key v =
     put_str M key @ (case v of Some s \<Rightarrow> put_str M s | None \<Rightarrow> mp_put M TNil)"

definition write_source :: "msgpack \<Rightarrow> source_info \<Rightarrow> bytes" where
  "write_source M s = mp_put M (TMap 16)
     @ put_str M ''name'' @ put_str M (si_name s)
     @ put_str M ''address'' @ put_str M (si_address s)
     @ put_str M ''origin'' @ put_str M (origin_as_str (si_origin s))
     @ put_str M ''auth'' @ put_str M (auth_as_str (si_auth s))
     @ put_str M ''state'' @ put_str M (source_state_as_str (si_state s))
     @ put_str M ''stratum'' @ put_u32 M (si_stratum s)
     @ put_str M ''reference'' @ put_str M (si_reference s)
     @ put_str M ''reach'' @ put_u32 M (si_reach s)
     @ put_str M ''poll'' @ put_int M (si_poll s)
     @ put_str M ''last'' @ put_float M (si_last s)
     @ put_str M ''offset'' @ put_float M (si_offset s)
     @ put_str M ''delay'' @ put_float M (si_delay s)
     @ put_str M ''jitter'' @ put_float M (si_jitter s)
     @ put_str M ''root_distance'' @ put_float M (si_root_distance s)
     @ put_str M ''cookies'' @ put_u32 M (si_cookies s)
     @ write_opt_str M ''note'' (si_note s)"

definition write_status :: "msgpack \<Rightarrow> status_info \<Rightarrow> bytes" where
  "write_status M s = mp_put M (TMap 20) @ put_str M ''reply'' @ put_str M ''status''
     @ put_str M ''generation'' @ put_u64 M (ss_generation s)
     @ put_str M ''sync'' @ put_str M (sync_as_str (ss_sync s))
     @ write_opt_str M ''system_peer'' (ss_system_peer s)
     @ put_str M ''stratum'' @ put_u32 M (ss_stratum s)
     @ put_str M ''offset'' @ put_float M (ss_offset s)
     @ put_str M ''frequency_ppm'' @ put_float M (ss_frequency_ppm s)
     @ put_str M ''jitter'' @ put_float M (ss_jitter s)
     @ put_str M ''root_distance'' @ put_float M (ss_root_distance s)
     @ put_str M ''root_delay'' @ put_float M (ss_root_delay s)
     @ put_str M ''root_dispersion'' @ put_float M (ss_root_dispersion s)
     @ put_str M ''leap'' @ put_int M (ss_leap s)
     @ put_str M ''stepped'' @ put_float M (ss_stepped s)
     @ put_str M ''updates'' @ put_u64 M (ss_updates s)
     @ put_str M ''last_update'' @ put_float M (ss_last_update s)
     @ put_str M ''sources'' @ put_u32 M (ss_sources s)
     @ put_str M ''selected'' @ put_u32 M (ss_selected s)
     @ put_str M ''floor'' @ put_int M (ss_floor s)
     @ put_str M ''manual'' @ put_bool M (ss_manual s)
     @ write_opt_str M ''zone'' (ss_zone s)"

definition write_snapshot :: "msgpack \<Rightarrow> snapshot_info \<Rightarrow> bytes" where
  "write_snapshot M s = mp_put M (TMap 11) @ put_str M ''reply'' @ put_str M ''snapshot''
     @ put_str M ''generation'' @ put_u64 M (sn_generation s)
     @ put_str M ''leap'' @ put_u32 M (sn_leap s)
     @ put_str M ''stratum'' @ put_u32 M (sn_stratum s)
     @ put_str M ''reference_id'' @ mp_put M (TBin (sn_reference_id s))
     @ put_str M ''reference_time'' @ put_float M (sn_reference_time s)
     @ put_str M ''root_delay'' @ put_float M (sn_root_delay s)
     @ put_str M ''root_dispersion'' @ put_float M (sn_root_dispersion s)
     @ put_str M ''precision'' @ put_int M (sn_precision s)
     @ put_str M ''at'' @ put_float M (sn_at s)
     @ put_str M ''synchronised'' @ put_bool M (sn_synchronised s)"

fun reply_encode :: "msgpack \<Rightarrow> reply \<Rightarrow> bytes" where
  "reply_encode M ReplyOk = mp_put M (TMap 1) @ put_str M ''reply'' @ put_str M ''ok''"
| "reply_encode M (ReplyError message) = mp_put M (TMap 2) @ put_str M ''reply'' @ put_str M ''error''
     @ put_str M ''message'' @ put_str M message"
| "reply_encode M (ReplyStatus s) = write_status M s"
| "reply_encode M (ReplySources sources again) = mp_put M (TMap 3) @ put_str M ''reply'' @ put_str M ''sources''
     @ put_str M ''more'' @ put_bool M again
     @ put_str M ''sources'' @ mp_put M (TArray (length sources mod 2 ^ 32)) @ concat (map (write_source M) sources)"
| "reply_encode M (ReplySnapshot s) = write_snapshot M s"

definition or_default :: "'a \<Rightarrow> 'a option \<Rightarrow> 'a" where
  "or_default d v = (case v of None \<Rightarrow> d | Some x \<Rightarrow> x)"

definition source_field :: "msgpack \<Rightarrow> string \<Rightarrow> source_info \<Rightarrow> source_info reader" where
  "source_field M key s =
     (if key = ''name'' then into (read_token M as_str) (\<lambda>x. s\<lparr>si_name := x\<rparr>)
      else if key = ''address'' then into (read_token M as_str) (\<lambda>x. s\<lparr>si_address := x\<rparr>)
      else if key = ''origin'' then into (read_token M as_str) (\<lambda>x. s\<lparr>si_origin := or_default OriginRegistry (origin_parse x)\<rparr>)
      else if key = ''auth'' then into (read_token M as_str) (\<lambda>x. s\<lparr>si_auth := or_default AuthNts (auth_parse x)\<rparr>)
      else if key = ''state'' then into (read_token M as_str) (\<lambda>x. s\<lparr>si_state := or_default Unreachable (source_state_parse x)\<rparr>)
      else if key = ''stratum'' then into (read_token M as_uint) (\<lambda>x. s\<lparr>si_stratum := u64_as_u32 x\<rparr>)
      else if key = ''reference'' then into (read_token M as_str) (\<lambda>x. s\<lparr>si_reference := x\<rparr>)
      else if key = ''reach'' then into (read_token M as_uint) (\<lambda>x. s\<lparr>si_reach := u64_as_u32 x\<rparr>)
      else if key = ''poll'' then into (read_token M as_int) (\<lambda>x. s\<lparr>si_poll := i64_as_i32 x\<rparr>)
      else if key = ''last'' then into (read_token M as_float) (\<lambda>x. s\<lparr>si_last := x\<rparr>)
      else if key = ''offset'' then into (read_token M as_float) (\<lambda>x. s\<lparr>si_offset := x\<rparr>)
      else if key = ''delay'' then into (read_token M as_float) (\<lambda>x. s\<lparr>si_delay := x\<rparr>)
      else if key = ''jitter'' then into (read_token M as_float) (\<lambda>x. s\<lparr>si_jitter := x\<rparr>)
      else if key = ''root_distance'' then into (read_token M as_float) (\<lambda>x. s\<lparr>si_root_distance := x\<rparr>)
      else if key = ''cookies'' then into (read_token M as_uint) (\<lambda>x. s\<lparr>si_cookies := u64_as_u32 x\<rparr>)
      else if key = ''note'' then into (read_opt_str M) (\<lambda>x. s\<lparr>si_note := x\<rparr>)
      else (\<lambda>r. rbind (skip_value M r) (\<lambda>r. Inr (s, r))))"

definition read_source :: "msgpack \<Rightarrow> source_info reader" where
  "read_source M r = for_each_field M (source_field M) source_info_default r"

fun read_n_sources :: "msgpack \<Rightarrow> nat \<Rightarrow> source_info list \<Rightarrow> source_info list reader" where
  "read_n_sources M 0 out r = Inr (out, r)"
| "read_n_sources M (Suc n) out r = rbind (read_source M r) (\<lambda>(s, r). read_n_sources M n (out @ [s]) r)"

definition read_sources :: "msgpack \<Rightarrow> source_info list reader" where
  "read_sources M r = rbind (read_token M as_array r) (\<lambda>(n, r).
     if length r < n then Inl (TooLarge n) else read_n_sources M n [] r)"

record reply_fields =
  rp_reply :: "string option"
  rp_message :: "string option"
  rp_status :: status_info
  rp_snapshot :: snapshot_info
  rp_sources :: "source_info list"
  rp_more :: bool

definition reply_fields_default :: reply_fields where
  "reply_fields_default = \<lparr>rp_reply = None, rp_message = None, rp_status = status_default,
     rp_snapshot = snapshot_default, rp_sources = [], rp_more = False\<rparr>"

text \<open>The label of the clock state must be known; the labels of a source need not be.\<close>

definition read_sync :: "msgpack \<Rightarrow> sync reader" where
  "read_sync M r = rbind (read_token M as_str r) (\<lambda>(t, r).
     case sync_parse t of None \<Rightarrow> Inl (Missing ''sync'') | Some x \<Rightarrow> Inr (x, r))"

definition on_status :: "(status_info \<Rightarrow> status_info) \<Rightarrow> reply_fields \<Rightarrow> reply_fields" where
  "on_status g s = s\<lparr>rp_status := g (rp_status s)\<rparr>"

definition on_snapshot :: "(snapshot_info \<Rightarrow> snapshot_info) \<Rightarrow> reply_fields \<Rightarrow> reply_fields" where
  "on_snapshot g s = s\<lparr>rp_snapshot := g (rp_snapshot s)\<rparr>"

text \<open>A field named \<open>sources\<close> is an array of sources or a count, by what is there.\<close>

definition sources_field :: "msgpack \<Rightarrow> reply_fields \<Rightarrow> reply_fields reader" where
  "sources_field M s r = (case mp_next M r of
     Some (TArray _, _) \<Rightarrow> into (read_sources M) (\<lambda>x. s\<lparr>rp_sources := x\<rparr>) r
   | _ \<Rightarrow> into (read_token M as_uint) (\<lambda>x. on_status (ss_sources_update (\<lambda>_. u64_as_u32 x)) s) r)"

definition reply_field :: "msgpack \<Rightarrow> string \<Rightarrow> reply_fields \<Rightarrow> reply_fields reader" where
  "reply_field M key s =
     (if key = ''reply'' then into (read_token M as_str) (\<lambda>x. s\<lparr>rp_reply := Some x\<rparr>)
      else if key = ''message'' then into (read_token M as_str) (\<lambda>x. s\<lparr>rp_message := Some x\<rparr>)
      else if key = ''more'' then into (read_token M as_bool) (\<lambda>x. s\<lparr>rp_more := x\<rparr>)
      else if key = ''sources'' then sources_field M s
      else if key = ''generation'' then into (read_token M as_uint)
          (\<lambda>x. on_snapshot (sn_generation_update (\<lambda>_. x)) (on_status (ss_generation_update (\<lambda>_. x)) s))
      else if key = ''sync'' then into (read_sync M) (\<lambda>x. on_status (ss_sync_update (\<lambda>_. x)) s)
      else if key = ''system_peer'' then into (read_opt_str M) (\<lambda>x. on_status (ss_system_peer_update (\<lambda>_. x)) s)
      else if key = ''stratum'' then into (read_token M as_uint)
          (\<lambda>x. on_snapshot (sn_stratum_update (\<lambda>_. u64_as_u32 x)) (on_status (ss_stratum_update (\<lambda>_. u64_as_u32 x)) s))
      else if key = ''offset'' then into (read_token M as_float) (\<lambda>x. on_status (ss_offset_update (\<lambda>_. x)) s)
      else if key = ''frequency_ppm'' then into (read_token M as_float) (\<lambda>x. on_status (ss_frequency_ppm_update (\<lambda>_. x)) s)
      else if key = ''jitter'' then into (read_token M as_float) (\<lambda>x. on_status (ss_jitter_update (\<lambda>_. x)) s)
      else if key = ''root_distance'' then into (read_token M as_float) (\<lambda>x. on_status (ss_root_distance_update (\<lambda>_. x)) s)
      else if key = ''root_delay'' then into (read_token M as_float)
          (\<lambda>x. on_snapshot (sn_root_delay_update (\<lambda>_. x)) (on_status (ss_root_delay_update (\<lambda>_. x)) s))
      else if key = ''root_dispersion'' then into (read_token M as_float)
          (\<lambda>x. on_snapshot (sn_root_dispersion_update (\<lambda>_. x)) (on_status (ss_root_dispersion_update (\<lambda>_. x)) s))
      else if key = ''leap'' then into (read_token M as_int)
          (\<lambda>x. on_snapshot (sn_leap_update (\<lambda>_. word_of_int (max x 0))) (on_status (ss_leap_update (\<lambda>_. i64_as_i32 x)) s))
      else if key = ''stepped'' then into (read_token M as_float) (\<lambda>x. on_status (ss_stepped_update (\<lambda>_. x)) s)
      else if key = ''updates'' then into (read_token M as_uint) (\<lambda>x. on_status (ss_updates_update (\<lambda>_. x)) s)
      else if key = ''last_update'' then into (read_token M as_float) (\<lambda>x. on_status (ss_last_update_update (\<lambda>_. x)) s)
      else if key = ''selected'' then into (read_token M as_uint) (\<lambda>x. on_status (ss_selected_update (\<lambda>_. u64_as_u32 x)) s)
      else if key = ''floor'' then into (read_token M as_int) (\<lambda>x. on_status (ss_floor_update (\<lambda>_. x)) s)
      else if key = ''manual'' then into (read_token M as_bool) (\<lambda>x. on_status (ss_manual_update (\<lambda>_. x)) s)
      else if key = ''zone'' then into (read_opt_str M) (\<lambda>x. on_status (ss_zone_update (\<lambda>_. x)) s)
      else if key = ''reference_id'' then into (read_token M as_bin) (\<lambda>x. on_snapshot (sn_reference_id_update (\<lambda>_. x)) s)
      else if key = ''reference_time'' then into (read_token M as_float) (\<lambda>x. on_snapshot (sn_reference_time_update (\<lambda>_. x)) s)
      else if key = ''precision'' then into (read_token M as_int) (\<lambda>x. on_snapshot (sn_precision_update (\<lambda>_. i64_as_i32 x)) s)
      else if key = ''at'' then into (read_token M as_float) (\<lambda>x. on_snapshot (sn_at_update (\<lambda>_. x)) s)
      else if key = ''synchronised'' then into (read_token M as_bool) (\<lambda>x. on_snapshot (sn_synchronised_update (\<lambda>_. x)) s)
      else (\<lambda>r. rbind (skip_value M r) (\<lambda>r. Inr (s, r))))"

definition reply_of_fields :: "reply_fields \<Rightarrow> protocol_error + reply" where
  "reply_of_fields s = (case rp_reply s of
     None \<Rightarrow> Inl (Missing ''reply'')
   | Some q \<Rightarrow>
      (if q = ''ok'' then Inr ReplyOk
       else if q = ''error'' then Inr (ReplyError (or_default [] (rp_message s)))
       else if q = ''status'' then Inr (ReplyStatus (rp_status s))
       else if q = ''sources'' then Inr (ReplySources (rp_sources s) (rp_more s))
       else if q = ''snapshot'' then Inr (ReplySnapshot (rp_snapshot s))
       else Inl (UnknownQuery q)))"

definition reply_decode :: "msgpack \<Rightarrow> bytes \<Rightarrow> protocol_error + reply" where
  "reply_decode M bs =
     rbind (for_each_field M (reply_field M) reply_fields_default bs) (\<lambda>(s, r). reply_of_fields s)"

text \<open>Reassembly of a chunked answer, and the cutting of one.\<close>

datatype sources_error = ServerError string | UnexpectedReply reply

fun sources_from :: "source_info list \<Rightarrow> reply list \<Rightarrow> sources_error + source_info list" where
  "sources_from out [] = Inr out"
| "sources_from out (ReplySources sources again # rs) = sources_from (out @ sources) rs"
| "sources_from out (ReplyError message # rs) = Inl (ServerError message)"
| "sources_from out (other # rs) = Inl (UnexpectedReply other)"

definition sources_of :: "reply list \<Rightarrow> sources_error + source_info list" where
  "sources_of replies = sources_from [] replies"

section \<open>Framing\<close>

definition send_frame :: "bytes \<Rightarrow> protocol_error + bytes" where
  "send_frame payload =
     (if MAX_MESSAGE_BYTES < length payload then Inl (TooLarge (length payload))
      else Inr (u32_to_le (of_nat (length payload)) @ payload))"

text \<open>\<open>recv\<close> on a stream that delivers these bytes and then ends: what it returns, what it leaves.\<close>

definition recv_frame :: "bytes \<Rightarrow> protocol_error + bytes \<times> bytes" where
  "recv_frame stream =
     (if length stream < 4 then Inl ShortRead
      else let len = unat (u32_from_le (take 4 stream)) in
        if MAX_MESSAGE_BYTES < len then Inl (TooLarge len)
        else if length stream < 4 + len then Inl ShortRead
        else Inr (bslice 4 (4 + len) stream, drop (4 + len) stream))"

end
