(* ===== verification/ProtocolLaws.thy ===== *)
theory ProtocolLaws
  imports Protocol
begin

text \<open>
  What the control protocol promises (\<open>libtimed/src/lib.rs\<close>): a peer that decodes what the other
  side encoded has the value that was sent, and a frame is read back whole. The codec of single
  tokens is the MessagePack library's; what is used of it is \<open>lossless\<close>.
\<close>

section \<open>The token codec\<close>

abbreviation text_ok :: "string \<Rightarrow> bool" where "text_ok s \<equiv> length s < 2 ^ 32"
abbreviation in_i32 :: "int \<Rightarrow> bool" where "in_i32 i \<equiv> - (2 ^ 31) \<le> i \<and> i < 2 ^ 31"

text \<open>The values MessagePack has a form for, and the law that each reads back as it was written.\<close>

fun token_ok :: "token \<Rightarrow> bool" where
  "token_ok (TMap n) = (n < 2 ^ 32)"
| "token_ok (TArray n) = (n < 2 ^ 32)"
| "token_ok (TStr s) = text_ok s"
| "token_ok (TInt i) = (- (2 ^ 63) \<le> i \<and> i < 2 ^ 64)"
| "token_ok (TFloat x) = True"
| "token_ok (TBool b) = True"
| "token_ok (TBin b) = (length b < 2 ^ 32)"
| "token_ok TNil = True"

definition lossless :: "msgpack \<Rightarrow> bool" where
  "lossless M \<longleftrightarrow> (\<forall>t rest. token_ok t \<longrightarrow> mp_put M t \<noteq> [] \<and> mp_next M (mp_put M t @ rest) = Some (t, rest))"

lemma next_put: "lossless M \<Longrightarrow> token_ok t \<Longrightarrow> mp_next M (mp_put M t @ rest) = Some (t, rest)"
  by (simp add: lossless_def)

lemma put_nonempty: "lossless M \<Longrightarrow> token_ok t \<Longrightarrow> mp_put M t \<noteq> []"
  by (simp add: lossless_def)

lemma read_put:
  "lossless M \<Longrightarrow> token_ok t \<Longrightarrow> kind t = Some x \<Longrightarrow> read_token M kind (mp_put M t @ rest) = Inr (x, rest)"
  by (simp add: read_token_def next_put)

lemma uint_u32_range: "uint (v :: u32) < 4294967296"
  using uint_lt2p [of v] by simp

lemma uint_u64_range: "uint (v :: u64) < 18446744073709551616"
  using uint_lt2p [of v] by simp

lemma uint_u32_range': "uint (v :: u32) < 18446744073709551616" "uint (v :: u32) < 9223372036854775808"
  using uint_u32_range [of v] by linarith+

lemma u64_as_u32_ucast [simp]: "u64_as_u32 (ucast (v :: u32)) = v"
  by (auto simp: u64_as_u32_def bit_simps intro!: bit_word_eqI)

lemma i64_as_i32_id: "in_i32 i \<Longrightarrow> i64_as_i32 i = i"
  by (simp add: i64_as_i32_def signed_of_int signed_take_bit_int_eq_self)

lemma read_put_string: "lossless M \<Longrightarrow> text_ok s \<Longrightarrow> read_token M as_str (mp_put M (TStr s) @ rest) = Inr (s, rest)"
  by (rule read_put) simp_all

lemma read_put_u64:
  "lossless M \<Longrightarrow> read_token M as_uint (put_u64 M v @ rest) = Inr (v, rest)"
  by (rule read_put) (simp_all add: uint_u64_range order.trans [of _ 0])

lemma read_put_u32:
  "lossless M \<Longrightarrow> read_token M as_uint (put_u32 M v @ rest) = Inr (ucast v, rest)"
  by (rule read_put) (simp_all add: uint_u32_range' order.trans [of _ 0])

lemma read_put_u32_as_int:
  "lossless M \<Longrightarrow> read_token M as_int (put_u32 M v @ rest) = Inr (uint v, rest)"
  using uint_u32_range' [of v] by (intro read_put) (simp_all add: in_i64_def i64_min_def i64_max_def order.trans [of _ 0])

lemma read_put_int:
  "lossless M \<Longrightarrow> in_i64 v \<Longrightarrow> read_token M as_int (put_int M v @ rest) = Inr (v, rest)"
  by (rule read_put) (simp_all add: in_i64_def i64_min_def i64_max_def)

lemma read_put_float: "lossless M \<Longrightarrow> read_token M as_float (put_float M x @ rest) = Inr (x, rest)"
  by (rule read_put) simp_all

lemma read_put_bool: "lossless M \<Longrightarrow> read_token M as_bool (put_bool M b @ rest) = Inr (b, rest)"
  by (rule read_put) simp_all

lemma read_put_bin:
  "lossless M \<Longrightarrow> length b < 2 ^ 32 \<Longrightarrow> read_token M as_bin (mp_put M (TBin b) @ rest) = Inr (b, rest)"
  by (rule read_put) simp_all

lemma read_put_nil: "lossless M \<Longrightarrow> read_opt_str M (mp_put M TNil @ rest) = Inr (None, rest)"
  by (simp add: read_opt_str_def next_put)

lemma read_put_some:
  "lossless M \<Longrightarrow> text_ok s \<Longrightarrow> read_opt_str M (mp_put M (TStr s) @ rest) = Inr (Some s, rest)"
  by (simp add: read_opt_str_def next_put read_put_string)

lemmas read_puts = read_put_string read_put_u64 read_put_u32 read_put_u32_as_int read_put_int
  read_put_float read_put_bool read_put_bin read_put_nil read_put_some

lemmas read_puts_last = read_puts [where rest = "[]", unfolded append_Nil2]

lemma into_put: "rd r = Inr (x, r') \<Longrightarrow> into rd g r = Inr (g x, r')"
  by (simp add: into_def)

text \<open>One field of a map: its key, then what the caller does with the value.\<close>

lemma fields_loop_put:
  assumes "lossless M" "text_ok key"
  shows "fields_loop M f (Suc n) seen s (put_str M key @ r) =
     (if key \<in> set seen then Inl (DuplicateField key)
      else rbind (f key s r) (\<lambda>(s, r). fields_loop M f n (seen @ [key]) s r))"
  using assms by (simp add: read_put_string)

lemma fields_loop_put_numeral:
  assumes "lossless M" "text_ok key"
  shows "fields_loop M f (numeral k) seen s (put_str M key @ r) =
     (if key \<in> set seen then Inl (DuplicateField key)
      else rbind (f key s r) (\<lambda>(s, r). fields_loop M f (pred_numeral k) (seen @ [key]) s r))"
  using assms by (simp only: numeral_eq_Suc fields_loop_put)

lemma for_each_field_put:
  assumes "lossless M" "n < 2 ^ 32"
  shows "for_each_field M f s (mp_put M (TMap n) @ r) = fields_loop M f n [] s r"
proof -
  have "read_token M as_map (mp_put M (TMap n) @ r) = Inr (n, r)"
    using assms by (intro read_put) simp_all
  then show ?thesis by (simp add: for_each_field_def)
qed

section \<open>Requests\<close>

lemma request_field_keys:
  "request_field M ''query'' s = into (read_token M as_str) (\<lambda>x. s\<lparr>rq_query := Some x\<rparr>)"
  "request_field M ''seconds'' s = into (read_token M as_int) (\<lambda>x. s\<lparr>rq_seconds := Some x\<rparr>)"
  "request_field M ''nanos'' s = into (read_token M as_uint) (\<lambda>x. s\<lparr>rq_nanos := x\<rparr>)"
  by (simp_all add: request_field_def)

fun request_ok :: "request \<Rightarrow> bool" where
  "request_ok (ReqSet seconds nanos) = (in_i64 seconds \<and> unat nanos < 1000000000)"
| "request_ok _ = True"

lemmas reading = for_each_field_put fields_loop_put fields_loop_put_numeral into_def read_puts read_puts_last

lemma request_decode_words:
  assumes "lossless M" "text_ok q"
  shows "request_decode M (mp_put M (TMap 1) @ put_str M ''query'' @ put_str M q) =
    request_of_fields \<lparr>rq_query = Some q, rq_seconds = None, rq_nanos = 0\<rparr>"
  using assms by (simp add: request_decode_def request_field_keys reading del: fields_loop.simps(2))

lemma request_decode_set:
  assumes "lossless M" "in_i64 seconds"
  shows "request_decode M (request_encode M (ReqSet seconds nanos)) =
    request_of_fields \<lparr>rq_query = Some ''set'', rq_seconds = Some seconds, rq_nanos = ucast nanos\<rparr>"
  using assms by (simp add: request_decode_def request_field_keys reading del: fields_loop.simps(2))

section \<open>Replies\<close>

lemma source_field_keys:
  "source_field M ''name'' s = into (read_token M as_str) (\<lambda>x. s\<lparr>si_name := x\<rparr>)"
  "source_field M ''address'' s = into (read_token M as_str) (\<lambda>x. s\<lparr>si_address := x\<rparr>)"
  "source_field M ''origin'' s = into (read_token M as_str) (\<lambda>x. s\<lparr>si_origin := or_default OriginRegistry (origin_parse x)\<rparr>)"
  "source_field M ''auth'' s = into (read_token M as_str) (\<lambda>x. s\<lparr>si_auth := or_default AuthNts (auth_parse x)\<rparr>)"
  "source_field M ''state'' s = into (read_token M as_str) (\<lambda>x. s\<lparr>si_state := or_default Unreachable (source_state_parse x)\<rparr>)"
  "source_field M ''stratum'' s = into (read_token M as_uint) (\<lambda>x. s\<lparr>si_stratum := u64_as_u32 x\<rparr>)"
  "source_field M ''reference'' s = into (read_token M as_str) (\<lambda>x. s\<lparr>si_reference := x\<rparr>)"
  "source_field M ''reach'' s = into (read_token M as_uint) (\<lambda>x. s\<lparr>si_reach := u64_as_u32 x\<rparr>)"
  "source_field M ''poll'' s = into (read_token M as_int) (\<lambda>x. s\<lparr>si_poll := i64_as_i32 x\<rparr>)"
  "source_field M ''last'' s = into (read_token M as_float) (\<lambda>x. s\<lparr>si_last := x\<rparr>)"
  "source_field M ''offset'' s = into (read_token M as_float) (\<lambda>x. s\<lparr>si_offset := x\<rparr>)"
  "source_field M ''delay'' s = into (read_token M as_float) (\<lambda>x. s\<lparr>si_delay := x\<rparr>)"
  "source_field M ''jitter'' s = into (read_token M as_float) (\<lambda>x. s\<lparr>si_jitter := x\<rparr>)"
  "source_field M ''root_distance'' s = into (read_token M as_float) (\<lambda>x. s\<lparr>si_root_distance := x\<rparr>)"
  "source_field M ''cookies'' s = into (read_token M as_uint) (\<lambda>x. s\<lparr>si_cookies := u64_as_u32 x\<rparr>)"
  "source_field M ''note'' s = into (read_opt_str M) (\<lambda>x. s\<lparr>si_note := x\<rparr>)"
  by (simp_all add: source_field_def)

lemma reply_field_keys:
  "reply_field M ''reply'' s = into (read_token M as_str) (\<lambda>x. s\<lparr>rp_reply := Some x\<rparr>)"
  "reply_field M ''message'' s = into (read_token M as_str) (\<lambda>x. s\<lparr>rp_message := Some x\<rparr>)"
  "reply_field M ''more'' s = into (read_token M as_bool) (\<lambda>x. s\<lparr>rp_more := x\<rparr>)"
  "reply_field M ''sources'' s = sources_field M s"
  "reply_field M ''generation'' s = into (read_token M as_uint) (\<lambda>x. on_snapshot (sn_generation_update (\<lambda>_. x)) (on_status (ss_generation_update (\<lambda>_. x)) s))"
  "reply_field M ''sync'' s = into (read_sync M) (\<lambda>x. on_status (ss_sync_update (\<lambda>_. x)) s)"
  "reply_field M ''system_peer'' s = into (read_opt_str M) (\<lambda>x. on_status (ss_system_peer_update (\<lambda>_. x)) s)"
  "reply_field M ''stratum'' s = into (read_token M as_uint) (\<lambda>x. on_snapshot (sn_stratum_update (\<lambda>_. u64_as_u32 x)) (on_status (ss_stratum_update (\<lambda>_. u64_as_u32 x)) s))"
  "reply_field M ''offset'' s = into (read_token M as_float) (\<lambda>x. on_status (ss_offset_update (\<lambda>_. x)) s)"
  "reply_field M ''frequency_ppm'' s = into (read_token M as_float) (\<lambda>x. on_status (ss_frequency_ppm_update (\<lambda>_. x)) s)"
  "reply_field M ''jitter'' s = into (read_token M as_float) (\<lambda>x. on_status (ss_jitter_update (\<lambda>_. x)) s)"
  "reply_field M ''root_distance'' s = into (read_token M as_float) (\<lambda>x. on_status (ss_root_distance_update (\<lambda>_. x)) s)"
  "reply_field M ''root_delay'' s = into (read_token M as_float) (\<lambda>x. on_snapshot (sn_root_delay_update (\<lambda>_. x)) (on_status (ss_root_delay_update (\<lambda>_. x)) s))"
  "reply_field M ''root_dispersion'' s = into (read_token M as_float) (\<lambda>x. on_snapshot (sn_root_dispersion_update (\<lambda>_. x)) (on_status (ss_root_dispersion_update (\<lambda>_. x)) s))"
  "reply_field M ''leap'' s = into (read_token M as_int) (\<lambda>x. on_snapshot (sn_leap_update (\<lambda>_. word_of_int (max x 0))) (on_status (ss_leap_update (\<lambda>_. i64_as_i32 x)) s))"
  "reply_field M ''stepped'' s = into (read_token M as_float) (\<lambda>x. on_status (ss_stepped_update (\<lambda>_. x)) s)"
  "reply_field M ''updates'' s = into (read_token M as_uint) (\<lambda>x. on_status (ss_updates_update (\<lambda>_. x)) s)"
  "reply_field M ''last_update'' s = into (read_token M as_float) (\<lambda>x. on_status (ss_last_update_update (\<lambda>_. x)) s)"
  "reply_field M ''selected'' s = into (read_token M as_uint) (\<lambda>x. on_status (ss_selected_update (\<lambda>_. u64_as_u32 x)) s)"
  "reply_field M ''floor'' s = into (read_token M as_int) (\<lambda>x. on_status (ss_floor_update (\<lambda>_. x)) s)"
  "reply_field M ''manual'' s = into (read_token M as_bool) (\<lambda>x. on_status (ss_manual_update (\<lambda>_. x)) s)"
  "reply_field M ''zone'' s = into (read_opt_str M) (\<lambda>x. on_status (ss_zone_update (\<lambda>_. x)) s)"
  "reply_field M ''reference_id'' s = into (read_token M as_bin) (\<lambda>x. on_snapshot (sn_reference_id_update (\<lambda>_. x)) s)"
  "reply_field M ''reference_time'' s = into (read_token M as_float) (\<lambda>x. on_snapshot (sn_reference_time_update (\<lambda>_. x)) s)"
  "reply_field M ''precision'' s = into (read_token M as_int) (\<lambda>x. on_snapshot (sn_precision_update (\<lambda>_. i64_as_i32 x)) s)"
  "reply_field M ''at'' s = into (read_token M as_float) (\<lambda>x. on_snapshot (sn_at_update (\<lambda>_. x)) s)"
  "reply_field M ''synchronised'' s = into (read_token M as_bool) (\<lambda>x. on_snapshot (sn_synchronised_update (\<lambda>_. x)) s)"
  by (simp_all add: reply_field_def)

lemma write_opt_put:
  "write_opt_str M key v @ r = put_str M key @ (case v of Some s \<Rightarrow> put_str M s | None \<Rightarrow> mp_put M TNil) @ r"
  by (simp add: write_opt_str_def)

fun opt_text_ok :: "string option \<Rightarrow> bool" where
  "opt_text_ok None = True"
| "opt_text_ok (Some s) = text_ok s"

definition source_ok :: "source_info \<Rightarrow> bool" where
  "source_ok s \<longleftrightarrow> text_ok (si_name s) \<and> text_ok (si_address s) \<and> text_ok (si_reference s) \<and>
     opt_text_ok (si_note s) \<and> in_i32 (si_poll s)"

definition status_ok :: "status_info \<Rightarrow> bool" where
  "status_ok s \<longleftrightarrow> opt_text_ok (ss_system_peer s) \<and> opt_text_ok (ss_zone s) \<and> in_i32 (ss_leap s) \<and> in_i64 (ss_floor s)"

definition snapshot_ok :: "snapshot_info \<Rightarrow> bool" where
  "snapshot_ok s \<longleftrightarrow> length (sn_reference_id s) < 2 ^ 32 \<and> in_i32 (sn_precision s)"

lemma in_i32_i64: "in_i32 i \<Longrightarrow> in_i64 i"
  by (simp add: in_i64_def i64_min_def i64_max_def)

lemma label_text_ok [simp]:
  "length (origin_as_str og) < 4294967296" "length (auth_as_str a) < 4294967296"
  "length (source_state_as_str st) < 4294967296" "length (sync_as_str sy) < 4294967296"
     apply (cases og; simp)
    apply (cases a; simp)
   apply (cases st; simp)
  apply (cases sy; simp)
  done

text \<open>What a field read into the reply leaves of the rest of it.\<close>

lemma on_selectors [simp]:
  "rp_status (on_status g s) = g (rp_status s)" "rp_snapshot (on_status g s) = rp_snapshot s"
  "rp_reply (on_status g s) = rp_reply s" "rp_status (on_snapshot h s) = rp_status s"
  "rp_snapshot (on_snapshot h s) = h (rp_snapshot s)" "rp_reply (on_snapshot h s) = rp_reply s"
  by (simp_all add: on_status_def on_snapshot_def)

lemma read_sync_put: "lossless M \<Longrightarrow> read_sync M (put_str M (sync_as_str x) @ r) = Inr (x, r)"
  by (simp add: read_sync_def read_puts label_text_ok sync.parse_as_str)

lemma or_default_Some [simp]: "or_default d (Some x) = x"
  by (simp add: or_default_def)

lemma snapshot_decode:
  assumes "lossless M" "snapshot_ok s"
  shows "reply_decode M (write_snapshot M s) = Inr (ReplySnapshot s)"
  using assms
  by (simp add: reply_decode_def write_snapshot_def snapshot_ok_def in_i32_i64 i64_as_i32_id reply_field_keys reading
      reply_of_fields_def reply_fields_default_def del: fields_loop.simps(2))

lemma read_opt_put:
  assumes "lossless M" "opt_text_ok v"
  shows "read_opt_str M ((case v of Some s \<Rightarrow> put_str M s | None \<Rightarrow> mp_put M TNil) @ r) = Inr (v, r)"
  using assms by (cases v) (simp_all add: read_puts)

lemmas read_opt_put_last = read_opt_put [where r = "[]", unfolded append_Nil2]

lemma read_write_source:
  assumes "lossless M" "source_ok s"
  shows "read_source M (write_source M s @ r) = Inr (s, r)"
  using assms
  by (simp add: read_source_def write_source_def source_ok_def in_i32_i64 i64_as_i32_id source_field_keys reading
      source_info_default_def write_opt_str_def read_opt_put label_text_ok
      origin.parse_as_str auth.parse_as_str state.parse_as_str del: fields_loop.simps(2))

text \<open>An answer with sources in it: the array, and the array read back.\<close>

lemma write_source_nonempty: "lossless M \<Longrightarrow> write_source M s \<noteq> []"
  using put_nonempty [of M "TMap 16"] by (simp add: write_source_def)

lemma sources_take_room: "lossless M \<Longrightarrow> length ss \<le> length (concat (map (write_source M) ss))"
proof (induction ss)
  case (Cons a ss)
  then have "write_source M a \<noteq> []" by (simp add: write_source_nonempty)
  then have "1 \<le> length (write_source M a)" by (cases "write_source M a") simp_all
  with Cons show ?case by simp
qed simp

lemma read_n_write_sources:
  assumes "lossless M"
  shows "list_all source_ok ss \<Longrightarrow>
    read_n_sources M (length ss) out (concat (map (write_source M) ss) @ r) = Inr (out @ ss, r)"
  by (induction ss arbitrary: out) (simp_all add: read_write_source assms)

lemma read_write_sources:
  assumes "lossless M" "list_all source_ok ss" "length ss < 2 ^ 32"
  shows "read_sources M (mp_put M (TArray (length ss)) @ concat (map (write_source M) ss) @ r) = Inr (ss, r)"
proof -
  have "read_token M as_array (mp_put M (TArray (length ss)) @ q) = Inr (length ss, q)" for q
    by (rule read_put) (use assms in simp_all)
  moreover have "length ss \<le> length (concat (map (write_source M) ss) @ r)"
    using sources_take_room [OF assms(1), of ss] by simp
  ultimately show ?thesis
    using read_n_write_sources [OF assms(1,2), of "[]" r] by (simp add: read_sources_def)
qed

lemma sources_field_array:
  assumes "lossless M" "list_all source_ok ss" "length ss < 2 ^ 32"
  shows "sources_field M s (mp_put M (TArray (length ss)) @ concat (map (write_source M) ss)) =
    Inr (s\<lparr>rp_sources := ss\<rparr>, [])"
  using assms read_write_sources [OF assms, of "[]"] by (simp add: sources_field_def next_put into_def)

lemma sources_field_count:
  assumes "lossless M"
  shows "sources_field M s (put_u32 M v @ r) = Inr (on_status (ss_sources_update (\<lambda>_. v)) s, r)"
  using assms uint_u32_range' [of v]
  by (simp add: sources_field_def next_put into_def read_puts order.trans [of _ 0])

lemma status_decode:
  assumes "lossless M" "status_ok s"
  shows "reply_decode M (write_status M s) = Inr (ReplyStatus s)"
  using assms
  by (simp add: reply_decode_def write_status_def status_ok_def in_i32_i64 i64_as_i32_id reply_field_keys reading
      reply_of_fields_def reply_fields_default_def write_opt_str_def read_opt_put read_opt_put_last read_sync_put sources_field_count
      del: fields_loop.simps(2))

lemma sources_decode:
  assumes "lossless M" "list_all source_ok ss" "length ss < 2 ^ 32"
  shows "reply_decode M (reply_encode M (ReplySources ss again)) = Inr (ReplySources ss again)"
  using assms
  by (simp add: reply_decode_def reply_field_keys reading sources_field_array
      reply_of_fields_def reply_fields_default_def del: fields_loop.simps(2))

section \<open>A codec to instantiate the parameter with\<close>

text \<open>
  A token codec that has the law: a tag, then lengths and integers big-endian, a float by its number
  in unary. It stands for the library only in the witnesses below.
\<close>

instance f64 :: countable by countable_datatype

definition unary :: "nat \<Rightarrow> bytes" where "unary n = replicate n 1 @ [0]"

fun tagged_put :: "token \<Rightarrow> bytes" where
  "tagged_put (TMap n) = 0 # u32_to_be (of_nat n)"
| "tagged_put (TArray n) = 1 # u32_to_be (of_nat n)"
| "tagged_put (TStr s) = 2 # u32_to_be (of_nat (length s)) @ bytes_of_string s"
| "tagged_put (TInt i) = (if 0 \<le> i then 3 else 4) # u64_to_be (of_int \<bar>i\<bar>)"
| "tagged_put (TBool b) = [if b then 5 else 6]"
| "tagged_put TNil = [7]"
| "tagged_put (TBin b) = 8 # u32_to_be (of_nat (length b)) @ b"
| "tagged_put (TFloat x) = (if x = fzero then [9] else 10 # unary (to_nat x))"

definition tagged_next :: "bytes \<Rightarrow> (token \<times> bytes) option" where
  "tagged_next bs = (case bs of [] \<Rightarrow> None | t # r \<Rightarrow>
     let n = unat (u32_from_be (take 4 r)); m = uint (u64_from_be (take 8 r));
         k = length (takeWhile (\<lambda>b. b = 1) r) in
     if t = 0 then Some (TMap n, drop 4 r)
     else if t = 1 then Some (TArray n, drop 4 r)
     else if t = 2 then Some (TStr (string_of_bytes (take n (drop 4 r))), drop (4 + n) r)
     else if t = 3 then Some (TInt m, drop 8 r)
     else if t = 4 then Some (TInt (- m), drop 8 r)
     else if t = 5 then Some (TBool True, r)
     else if t = 6 then Some (TBool False, r)
     else if t = 7 then Some (TNil, r)
     else if t = 8 then Some (TBin (take n (drop 4 r)), drop (4 + n) r)
     else if t = 9 then Some (TFloat fzero, r)
     else if t = 10 then Some (TFloat (from_nat k), drop (Suc k) r) else None)"

definition tagged :: msgpack where
  "tagged = \<lparr>mp_put = tagged_put, mp_next = tagged_next, mp_skip = map_option snd \<circ> tagged_next\<rparr>"

lemma takeWhile_unary: "length (takeWhile (\<lambda>b. b = 1) (unary n @ r)) = n" "length (unary n) = Suc n"
  by (induction n) (simp_all add: unary_def)

lemma string_of_bytes_of_string: "string_of_bytes (bytes_of_string s) = s"
proof -
  have "unat (of_nat (of_char c) :: u8) = of_char c" for c :: char
    by (simp add: unat_byte_of_nat)
  then show ?thesis by (simp add: bytes_of_string_def string_of_bytes_def o_def)
qed

lemma length_bytes_of_string [simp]: "length (bytes_of_string s) = length s"
  by (simp add: bytes_of_string_def)

lemma tagged_next_int:
  assumes "token_ok (TInt i)"
  shows "tagged_next (tagged_put (TInt i) @ rest) = Some (TInt i, rest)"
proof -
  have "\<bar>i\<bar> < 2 ^ 64" using assms by (simp add: abs_less_iff)
  then have "uint (of_int \<bar>i\<bar> :: u64) = \<bar>i\<bar>"
    by (simp add: uint_word_of_int mod_pos_pos_trivial)
  then show ?thesis by (cases "0 \<le> i") (simp_all add: tagged_next_def Let_def wire_simps)
qed

lemma tagged_next_put: "token_ok t \<Longrightarrow> tagged_next (tagged_put t @ rest) = Some (t, rest)"
proof (cases t)
  case (TInt i)
  then show "token_ok t \<Longrightarrow> ?thesis" using tagged_next_int [of i rest] by simp
qed (simp_all add: tagged_next_def Let_def wire_simps unat_of_nat string_of_bytes_of_string takeWhile_unary)

lemma mp_put_tagged [simp]: "mp_put tagged = tagged_put"
  by (simp add: tagged_def)

lemma tagged_put_nonempty: "tagged_put t \<noteq> []"
  by (cases t) simp_all

lemma lossless_tagged: "lossless tagged"
  by (simp add: lossless_def tagged_def tagged_next_put tagged_put_nonempty)

section \<open>What each side decodes\<close>

fun reply_ok :: "reply \<Rightarrow> bool" where
  "reply_ok ReplyOk = True"
| "reply_ok (ReplyError message) = text_ok message"
| "reply_ok (ReplyStatus s) = status_ok s"
| "reply_ok (ReplySources ss again) = (list_all source_ok ss \<and> length ss < 2 ^ 32)"
| "reply_ok (ReplySnapshot s) = snapshot_ok s"

lemma request_decode_encode:
  assumes "lossless M" "request_ok q"
  shows "request_decode M (request_encode M q) = Inr q"
proof (cases q)
  case (ReqSet seconds nanos)
  have "unat (ucast nanos :: u64) = unat nanos"
    by (simp add: unsigned_ucast_eq take_bit_nat_eq_self order.strict_trans [OF unsigned_less])
  then show ?thesis
    using assms ReqSet
    by (simp add: request_decode_set request_of_fields_def word_le_nat_alt del: request_encode.simps)
qed (use assms in \<open>simp_all add: request_decode_words request_of_fields_def del: One_nat_def\<close>)

lemma short_reply_decode:
  assumes "lossless M"
  shows "reply_decode M (reply_encode M ReplyOk) = Inr ReplyOk"
    and "text_ok message \<Longrightarrow> reply_decode M (reply_encode M (ReplyError message)) = Inr (ReplyError message)"
  using assms
  by (simp_all add: reply_decode_def reply_field_keys reading reply_of_fields_def reply_fields_default_def
      del: fields_loop.simps(2))

lemma reply_decode_encode: "lossless M \<Longrightarrow> reply_ok r \<Longrightarrow> reply_decode M (reply_encode M r) = Inr r"
  by (cases r)
    (use short_reply_decode sources_decode in \<open>auto simp: status_decode snapshot_decode simp del: reply_encode.simps(1,2,4)\<close>)

text \<open>The seconds of an order to set the clock are an \<open>i64\<close>.\<close>

fun request_typed :: "request \<Rightarrow> bool" where
  "request_typed (ReqSet seconds nanos) = in_i64 seconds"
| "request_typed _ = True"

lemma request_decode_typed:
  assumes "lossless M" "request_typed q"
  shows "request_decode M (request_encode M q) = (case q of
     ReqSet seconds nanos \<Rightarrow> if unat nanos < 1000000000 then Inr q else Inl (Invalid ''nanos is a second or more'')
   | _ \<Rightarrow> Inr q)"
proof (cases "request_ok q")
  case True
  then show ?thesis using request_decode_encode [OF assms(1)] by (auto split: request.split)
next
  case False
  then obtain seconds nanos where q: "q = ReqSet seconds nanos" "\<not> unat nanos < 1000000000"
    using assms(2) by (cases q) auto
  have "unat (ucast nanos :: u64) = unat nanos"
    by (simp add: unsigned_ucast_eq take_bit_nat_eq_self order.strict_trans [OF unsigned_less])
  then show ?thesis
    using assms q by (simp add: request_decode_set request_of_fields_def word_le_nat_alt del: request_encode.simps)
qed

text \<open>
  C20: a request or a reply that one side encodes is decoded by the other as the value that was sent,
  every field of a status, a snapshot and a list of sources included; only an order to set the clock
  that names a whole second of nanoseconds or more is refused, with the error that says so. The
  seconds of a request and the floor of a status are 64-bit and the small signed fields 32-bit
  values, as their types in the program are; the texts and byte strings of a reply are assumed to be shorter than 4 GiB, the
  sources in it fewer than 2^32, and the MessagePack library to read back what it wrote.
\<close>
theorem control_messages_survive:
  assumes "lossless M" "request_typed q" "reply_ok r"
  shows "request_decode M (request_encode M q) = (case q of
       ReqSet seconds nanos \<Rightarrow> if unat nanos < 1000000000 then Inr q else Inl (Invalid ''nanos is a second or more'')
     | _ \<Rightarrow> Inr q)
    \<and> reply_decode M (reply_encode M r) = Inr r"
  using assms by (simp add: request_decode_typed reply_decode_encode)

theorem control_messages_survive_witness:
  "request_decode tagged (request_encode tagged (ReqSet (-1) 999999999)) = Inr (ReqSet (-1) 999999999) \<and>
   reply_decode tagged (reply_encode tagged (ReplyStatus (status_default\<lparr>ss_leap := -1, ss_zone := Some ''UTC''\<rparr>))) =
     Inr (ReplyStatus (status_default\<lparr>ss_leap := -1, ss_zone := Some ''UTC''\<rparr>))"
  using control_messages_survive [OF lossless_tagged, of "ReqSet (-1) 999999999"
      "ReplyStatus (status_default\<lparr>ss_leap := -1, ss_zone := Some ''UTC''\<rparr>)"]
  by (simp add: in_i64_def i64_min_def i64_max_def status_ok_def status_default_def del: request_encode.simps reply_encode.simps)

text \<open>
  Whatever bytes a peer sends and however the library reads them, a decoded order to set the clock
  names less than a whole second of nanoseconds.
\<close>
theorem decoded_nanos_below_a_second:
  assumes "request_decode M bs = Inr (ReqSet seconds nanos)"
  shows "unat nanos < 1000000000"
proof -
  obtain s r where "request_of_fields s = Inr (ReqSet seconds nanos)"
    using assms by (auto simp: request_decode_def rbind_Inr_iff)
  then have n: "rq_nanos s < 1000000000" "nanos = ucast (rq_nanos s)"
    by (auto simp: request_of_fields_def u64_as_u32_def not_le split: option.splits if_splits)
  then have "unat (rq_nanos s) < 1000000000" by (simp add: word_less_nat_alt)
  then show ?thesis using n by (simp add: unsigned_ucast_eq take_bit_nat_eq_self)
qed

theorem decoded_nanos_below_a_second_witness:
  "request_decode tagged (request_encode tagged (ReqSet 7 5)) = Inr (ReqSet 7 5) \<and> unat (5 :: u32) < 1000000000"
proof -
  have d: "request_decode tagged (request_encode tagged (ReqSet 7 5)) = Inr (ReqSet 7 5)"
    by (rule request_decode_encode [OF lossless_tagged]) (simp add: in_i64_def i64_min_def i64_max_def)
  from decoded_nanos_below_a_second [OF d] d show ?thesis by simp
qed

end
