(* ===== verification/SourcesAnswer.thy ===== *)
theory SourcesAnswer
  imports ProtocolLaws
begin

text \<open>
  The answer to \<open>sources\<close>, end to end: \<open>timed/src/main.rs\<close> cuts the list into chunks and sends one
  framed reply for each, and \<open>clock/src/main.rs\<close> reads frames until a reply has no \<open>more\<close> to follow and
  puts the list together again.
\<close>

section \<open>The server's side\<close>

text \<open>\<open>slice::chunks\<close>.\<close>

function chunks :: "nat \<Rightarrow> 'a list \<Rightarrow> 'a list list" where
  "chunks n xs = (if n = 0 \<or> xs = [] then [] else take n xs # chunks n (drop n xs))"
  by auto
termination by (relation "measure (\<lambda>(n, xs). length xs)") auto

declare chunks.simps [simp del]

fun chunk_replies :: "source_info list list \<Rightarrow> reply list" where
  "chunk_replies [] = []"
| "chunk_replies (c # cs) = ReplySources c (cs \<noteq> []) # chunk_replies cs"

definition sources_replies :: "source_info list \<Rightarrow> reply list" where
  "sources_replies all =
     (if chunks SOURCES_PER_CHUNK all = [] then [ReplySources [] False]
      else chunk_replies (chunks SOURCES_PER_CHUNK all))"

text \<open>What reaches the stream: a reply that cannot be framed ends the answer.\<close>

fun send_replies :: "msgpack \<Rightarrow> reply list \<Rightarrow> bytes" where
  "send_replies M [] = []"
| "send_replies M (r # rs) = (case send_frame (reply_encode M r) of
     Inl e \<Rightarrow> [] | Inr f \<Rightarrow> f @ send_replies M rs)"

section \<open>The client's side\<close>

fun more_follow :: "reply \<Rightarrow> bool" where
  "more_follow (ReplySources ss again) = again"
| "more_follow _ = False"

lemma recv_frame_rest: "recv_frame stream = Inr (p, rest) \<Longrightarrow> length rest < length stream"
  by (auto simp: recv_frame_def Let_def split: if_splits)

text \<open>The loop of \<open>sources\<close>: every frame is at least its header, so it ends with the stream.\<close>

function client_replies :: "msgpack \<Rightarrow> reply list \<Rightarrow> bytes \<Rightarrow> protocol_error + reply list" where
  "client_replies M out stream = (case recv_frame stream of
     Inl e \<Rightarrow> Inl e
   | Inr (p, rest) \<Rightarrow> (case reply_decode M p of
        Inl e \<Rightarrow> Inl e
      | Inr r \<Rightarrow> if more_follow r then client_replies M (out @ [r]) rest else Inr (out @ [r])))"
  by auto
termination by (relation "measure (\<lambda>(M, out, stream). length stream)") (auto dest: recv_frame_rest)

declare client_replies.simps [simp del]

datatype client_error = WireFailed protocol_error | AnswerFailed sources_error

definition client_sources :: "msgpack \<Rightarrow> bytes \<Rightarrow> client_error + source_info list" where
  "client_sources M stream = (case client_replies M [] stream of
     Inl e \<Rightarrow> Inl (WireFailed e)
   | Inr rs \<Rightarrow> (case sources_of rs of Inl e \<Rightarrow> Inl (AnswerFailed e) | Inr ss \<Rightarrow> Inr ss))"

section \<open>Frames\<close>

lemma recv_send_frame:
  assumes "send_frame payload = Inr f"
  shows "recv_frame (f @ rest) = Inr (payload, rest)"
proof -
  have n: "length payload \<le> MAX_MESSAGE_BYTES" and f: "f = u32_to_le (of_nat (length payload)) @ payload"
    using assms by (auto simp: send_frame_def split: if_splits)
  have u: "unat (of_nat (length payload) :: u32) = length payload"
    using n by (simp add: unat_of_nat MAX_MESSAGE_BYTES_def)
  have l: "length (u32_to_le (of_nat (length payload))) = 4" by (rule le32.length_enc)
  show ?thesis
    using n unfolding f recv_frame_def by (simp add: l le32.dec_enc u bslice_def Let_def)
qed

text \<open>What the receiver takes was framed by this length, and is never above the ceiling.\<close>

lemma recv_frame_bound: "recv_frame stream = Inr (p, rest) \<Longrightarrow> length p \<le> MAX_MESSAGE_BYTES"
  by (auto simp: recv_frame_def Let_def bslice_def split: if_splits)

section \<open>Chunks\<close>

lemma concat_chunks: "0 < n \<Longrightarrow> concat (chunks n xs) = xs"
proof (induction n xs rule: chunks.induct)
  case (1 n xs)
  then show ?case by (subst chunks.simps) auto
qed

lemma chunk_length: "0 < n \<Longrightarrow> c \<in> set (chunks n xs) \<Longrightarrow> 0 < length c \<and> length c \<le> n"
proof (induction n xs rule: chunks.induct)
  case (1 n xs)
  then show ?case by (subst (asm) (2) chunks.simps) (auto split: if_splits)
qed

lemma sources_of_chunks: "sources_from out (chunk_replies cs) = Inr (out @ concat cs)"
  by (induction cs arbitrary: out) simp_all

section \<open>End to end\<close>

definition frames :: "msgpack \<Rightarrow> reply \<Rightarrow> bool" where
  "frames M r \<longleftrightarrow> length (reply_encode M r) \<le> MAX_MESSAGE_BYTES"

lemma frames_send: "frames M r \<Longrightarrow> \<exists>f. send_frame (reply_encode M r) = Inr f"
  by (simp add: frames_def send_frame_def)

lemma client_replies_step:
  assumes "lossless M" "reply_ok r" "frames M r"
  shows "client_replies M out (send_replies M (r # rs)) =
    (if more_follow r then client_replies M (out @ [r]) (send_replies M rs) else Inr (out @ [r]))"
proof -
  obtain f where f: "send_frame (reply_encode M r) = Inr f" using frames_send [OF assms(3)] by blast
  show ?thesis
    by (subst client_replies.simps) (simp add: f recv_send_frame [OF f] reply_decode_encode [OF assms(1,2)])
qed

lemma client_replies_chunks:
  assumes "lossless M" "\<And>c again. c \<in> set cs \<Longrightarrow> reply_ok (ReplySources c again) \<and> frames M (ReplySources c again)"
    and "cs \<noteq> []"
  shows "client_replies M out (send_replies M (chunk_replies cs)) = Inr (out @ chunk_replies cs)"
  using assms(2,3)
proof (induction cs arbitrary: out)
  case (Cons c cs)
  have step: "client_replies M out (send_replies M (chunk_replies (c # cs))) =
    (if cs \<noteq> [] then client_replies M (out @ [ReplySources c True]) (send_replies M (chunk_replies cs))
     else Inr (out @ [ReplySources c False]))"
    using client_replies_step [OF assms(1), of "ReplySources c (cs \<noteq> [])" out "chunk_replies cs"]
      Cons.prems(1) [of c] by (cases "cs = []") (simp_all del: send_replies.simps)
  show ?case
  proof (cases "cs = []")
    case False
    then have "client_replies M (out @ [ReplySources c True]) (send_replies M (chunk_replies cs)) =
        Inr ((out @ [ReplySources c True]) @ chunk_replies cs)"
      by (intro Cons.IH Cons.prems(1)) simp_all
    with step False show ?thesis by simp
  next
    case True
    with step show ?thesis by (simp del: send_replies.simps)
  qed
qed simp

text \<open>Any answer of 32 sources or fewer can be framed: the condition the whole answer rests on.\<close>

definition chunks_fit :: "msgpack \<Rightarrow> source_info list \<Rightarrow> bool" where
  "chunks_fit M all = list_all (\<lambda>c. frames M (ReplySources c True) \<and> frames M (ReplySources c False))
     ([] # chunks SOURCES_PER_CHUNK all)"

lemma chunk_ok:
  assumes "list_all source_ok all" "c \<in> set (chunks SOURCES_PER_CHUNK all)"
  shows "reply_ok (ReplySources c again)"
proof -
  have "set c \<subseteq> set all"
    using assms(2) arg_cong [OF concat_chunks [of SOURCES_PER_CHUNK all], of set]
    by (auto simp: SOURCES_PER_CHUNK_def)
  moreover have "length c \<le> 32"
    using chunk_length [OF _ assms(2)] by (simp add: SOURCES_PER_CHUNK_def)
  ultimately show ?thesis using assms(1) by (auto simp: list_all_iff)
qed

lemma sources_answer_read:
  assumes "lossless M" "list_all source_ok all" "chunks_fit M all"
  shows "client_sources M (send_replies M (sources_replies all)) = Inr all"
proof (cases "chunks SOURCES_PER_CHUNK all = []")
  case True
  then have "all = []" using concat_chunks [of SOURCES_PER_CHUNK all] by (simp add: SOURCES_PER_CHUNK_def)
  moreover have "client_replies M [] (send_replies M [ReplySources [] False]) = Inr [ReplySources [] False]"
    using client_replies_step [OF assms(1), of "ReplySources [] False" "[]" "[]"] assms(3)
    by (simp add: chunks_fit_def)
  ultimately show ?thesis using True by (simp add: client_sources_def sources_replies_def sources_of_def)
next
  case False
  have "frames M (ReplySources c again)" if "c \<in> set (chunks SOURCES_PER_CHUNK all)" for c again
    using that assms(3) by (cases again) (auto simp: chunks_fit_def list_all_iff)
  then have "client_replies M [] (send_replies M (chunk_replies (chunks SOURCES_PER_CHUNK all))) =
      Inr (chunk_replies (chunks SOURCES_PER_CHUNK all))"
    using client_replies_chunks [OF assms(1) _ False, of "[]"] chunk_ok [OF assms(2)] by simp
  then show ?thesis
    using False concat_chunks [of SOURCES_PER_CHUNK all]
    by (simp add: client_sources_def sources_replies_def sources_of_def sources_of_chunks SOURCES_PER_CHUNK_def)
qed

text \<open>
  C18: the answer to a request for the sources reaches the client whole and in order, however many
  sources there are, none included, so long as what is said of them fits the frames: what the server cuts
  into chunks of 32, encodes and frames, the client reads to the last frame and no further, decodes,
  and joins to the list the server had. Each chunk, encoded, is assumed to be within the 1 MiB of a
  frame, the texts of a source to be shorter than 4 GiB (the sources' poll exponents are 32-bit, as
  their type is), and the MessagePack library to read back what it wrote.
\<close>
theorem sources_answer_arrives:
  assumes "lossless M" "list_all source_ok all" "chunks_fit M all"
  shows "client_sources M (send_replies M (sources_replies all)) = Inr all"
  using assms by (rule sources_answer_read)

lemma length_concat_replicate: "length (concat (replicate n xs)) = n * length xs"
  by (induction n) simp_all

lemma length_write_default: "length (write_source tagged source_info_default) = 275"
  by (simp add: write_source_def source_info_default_def write_opt_str_def wire_simps)

theorem sources_answer_arrives_witness:
  "client_sources tagged (send_replies tagged (sources_replies (replicate 40 source_info_default))) =
     Inr (replicate 40 source_info_default)"
proof (rule sources_answer_arrives [OF lossless_tagged])
  show "list_all source_ok (replicate 40 source_info_default)"
    by (simp add: source_ok_def source_info_default_def list_all_iff)
  show "chunks_fit tagged (replicate 40 source_info_default)"
    by (simp add: chunks_fit_def frames_def SOURCES_PER_CHUNK_def chunks.simps length_concat_replicate
        length_write_default wire_simps MAX_MESSAGE_BYTES_def)
qed

end
