(* ===== verification/Daemon.thy ===== *)
theory Daemon
  imports SysClock Config Localtime StateFiles Protocol Selection
begin

text \<open>
  The daemon's state and its configuration (\<open>timed/src/main.rs\<close>): the table of sources, how it is
  rebuilt from the settings, the clock set by hand, and what the network manager tells it. The
  machine is part of the state: its clock (a state of the kernel the functions are given), its
  files and the records written to the event log. Sockets, subscribers' connections and log lines
  are not; what the outside answers is an argument.
\<close>

section \<open>State\<close>

definition DRIFT_INTERVAL :: f64 where "DRIFT_INTERVAL = lit 3600"
definition RETRY_INTERVAL :: f64 where "RETRY_INTERVAL = lit 15"
definition REKEY_INTERVAL :: f64 where "REKEY_INTERVAL = lit 86400"

record entry =
  en_source :: source
  en_spec :: server_spec
  en_origin :: origin
  en_addresses :: "socket_addr list"
  en_canonical :: string
  en_rekey_after :: f64
  en_retry_after :: f64
  en_in_flight :: bool
  en_state :: source_state
  en_fresh :: bool

record families =
  fam_v4 :: bool
  fam_v6 :: bool

text \<open>The record of a step: what moved the clock, its readings before and after, and who asked.\<close>

datatype step_cause = StepAutomatic | StepManual | StepBootFloor

record stepped_event =
  ev_step :: step_cause
  ev_previous :: "nat option"
  ev_now :: "nat option"
  ev_caller :: "bytes option"

text \<open>The worker: jobs sent and not yet taken, and how many are out. The TLS configuration is opaque.\<close>

datatype job =
    JobResolve nat string u16
  | JobHandshake nat string string "socket_addr list"
  | JobRoots

record worker =
  wk_alive :: bool
  wk_jobs :: "job list"
  wk_outstanding :: nat

definition submit :: "job \<Rightarrow> worker \<Rightarrow> worker" where
  "submit j w = (if wk_alive w then w\<lparr>wk_jobs := wk_jobs w @ [j], wk_outstanding := wk_outstanding w + 1\<rparr> else w)"

definition busy :: "worker \<Rightarrow> bool" where
  "busy w \<longleftrightarrow> 0 < wk_outstanding w"

record 'k timed =
  tm_kernel :: 'k
  tm_files :: files
  tm_events :: "stepped_event list"
  tm_config :: config
  tm_discipline :: discipline
  tm_entries :: "entry list"
  tm_v4 :: bool
  tm_v6 :: bool
  tm_tls :: bool
  tm_subscribers :: "reply list list"
  tm_worker :: worker
  tm_last_level :: "sync option"
  tm_levels :: "sync list"
  tm_dhcp_servers :: "string list"
  tm_families :: "families option"
  tm_generation :: u64
  tm_precision :: int
  tm_stratum :: u8
  tm_reference_id :: reference_id
  tm_reference_time :: f64
  tm_root_delay :: f64
  tm_root_dispersion :: f64
  tm_leap :: leap
  tm_system_peer :: "nat option"
  tm_offset :: f64
  tm_jitter :: f64
  tm_updates :: u64
  tm_last_update :: "f64 option"
  tm_last_drift_write :: f64
  tm_roots_after :: f64
  tm_zone :: "render_error keeper"

text \<open>\<open>Timed::new\<close>, on the machine as it is: its clock, event log, files, registry and sockets.\<close>

definition timed_new :: "'k \<Rightarrow> stepped_event list \<Rightarrow> files \<Rightarrow> registry \<Rightarrow> int \<Rightarrow> bool \<Rightarrow> bool \<Rightarrow> 'k timed" where
  "timed_new k events files reg precision v4 v6 =
     \<lparr>tm_kernel = k, tm_files = files, tm_events = events, tm_config = load_config reg,
      tm_discipline = discipline_new (case read_drift files of None \<Rightarrow> fzero | Some f \<Rightarrow> f),
      tm_entries = [], tm_v4 = v4, tm_v6 = v6, tm_tls = False, tm_subscribers = [],
      tm_worker = \<lparr>wk_alive = True, wk_jobs = [], wk_outstanding = 0\<rparr>,
      tm_last_level = None, tm_levels = [], tm_dhcp_servers = [], tm_families = None,
      tm_generation = 0, tm_precision = precision, tm_stratum = 16, tm_reference_id = INIT_ID,
      tm_reference_time = fzero, tm_root_delay = fzero, tm_root_dispersion = fzero,
      tm_leap = LeapNone, tm_system_peer = None, tm_offset = fzero, tm_jitter = fzero,
      tm_updates = 0, tm_last_update = None, tm_last_drift_write = fzero, tm_roots_after = fzero,
      tm_zone = keeper_new (zone_in_force files)\<rparr>"

abbreviation wall :: "'k kernel \<Rightarrow> 'k timed \<Rightarrow> f64" where
  "wall K tm \<equiv> now_f64 (clock_now (k_wall K (tm_kernel tm)))"

abbreviation wall_nanos :: "'k kernel \<Rightarrow> 'k timed \<Rightarrow> nat option" where
  "wall_nanos K tm \<equiv> now_nanos (k_wall K (tm_kernel tm))"

text \<open>One entry changed in place.\<close>

definition on_entry :: "nat \<Rightarrow> (entry \<Rightarrow> entry) \<Rightarrow> 'k timed \<Rightarrow> 'k timed" where
  "on_entry i g tm = tm\<lparr>tm_entries := (tm_entries tm)[i := g (tm_entries tm ! i)]\<rparr>"

definition on_source :: "(source \<Rightarrow> source) \<Rightarrow> entry \<Rightarrow> entry" where
  "on_source g e = e\<lparr>en_source := g (en_source e)\<rparr>"

section \<open>The list of sources\<close>

definition dhcp_chosen :: "'k timed \<Rightarrow> bool" where
  "dhcp_chosen tm \<longleftrightarrow> cf_use_from_dhcp (tm_config tm) \<and> tm_dhcp_servers tm \<noteq> []"

definition chosen_specs :: "'k timed \<Rightarrow> server_spec list" where
  "chosen_specs tm =
     (if has_explicit_servers (tm_config tm) then cf_servers (tm_config tm)
      else if dhcp_chosen tm
      then map (\<lambda>host. \<lparr>sp_host = host, sp_port = None, sp_prefer = False, sp_unauthenticated = True\<rparr>)
             (tm_dhcp_servers tm)
      else fallback)"

definition chosen_origin :: "'k timed \<Rightarrow> origin" where
  "chosen_origin tm =
     (if has_explicit_servers (tm_config tm) then OriginRegistry
      else if dhcp_chosen tm then OriginDhcp else OriginFallback)"

definition new_entry :: "config \<Rightarrow> origin \<Rightarrow> server_spec \<Rightarrow> entry" where
  "new_entry c og spec =
     \<lparr>en_source = source_new (sp_host spec) (SocketAddr (V4 [0, 0, 0, 0]) 123)
        (if sp_unauthenticated spec then Unauthenticated else NtsPending) (cf_min_poll c) (cf_max_poll c),
      en_spec = spec, en_origin = og, en_addresses = [], en_canonical = sp_host spec,
      en_rekey_after = fzero, en_retry_after = fzero, en_in_flight = False,
      en_state = Unreachable, en_fresh = False\<rparr>"

text \<open>
  The loop over the chosen servers, with the entries kept from before by host (a later entry
  replaces an earlier one of the same host) and those built so far.
\<close>

definition kept_by_host :: "entry list \<Rightarrow> string \<rightharpoonup> entry" where
  "kept_by_host es = foldl (\<lambda>kept e. kept(sp_host (en_spec e) \<mapsto> e)) Map.empty es"

fun place_specs ::
  "config \<Rightarrow> origin \<Rightarrow> server_spec list \<Rightarrow> (string \<rightharpoonup> entry) \<Rightarrow> entry list \<Rightarrow> entry list" where
  "place_specs c og [] kept out = out"
| "place_specs c og (spec # specs) kept out =
     (if sp_unauthenticated spec \<and> \<not> cf_allow_unauthenticated c then place_specs c og specs kept out
      else case kept (sp_host spec) of
        Some e \<Rightarrow> place_specs c og specs (kept(sp_host spec := None))
                   (out @ [e\<lparr>en_spec := spec, en_origin := og\<rparr>])
      | None \<Rightarrow> place_specs c og specs kept (out @ [new_entry c og spec]))"

definition rebuild_sources :: "'k timed \<Rightarrow> 'k timed" where
  "rebuild_sources tm =
     (if \<not> cf_automatic (tm_config tm)
      then tm\<lparr>tm_entries := [], tm_system_peer := None, tm_offset := fzero, tm_jitter := fzero\<rparr>
      else tm\<lparr>tm_entries := place_specs (tm_config tm) (chosen_origin tm) (chosen_specs tm)
                             (kept_by_host (tm_entries tm)) []\<rparr>)"

section \<open>The zone and the settings\<close>

definition apply_zone :: "f64 \<Rightarrow> fault \<Rightarrow> fault \<Rightarrow> 'k timed \<Rightarrow> 'k timed" where
  "apply_zone now fl_install fl_remember tm =
     (case keeper_apply (cf_time_zone (tm_config tm)) now (render fl_install fl_remember) (tm_zone tm) (tm_files tm) of
        (outcome, zone, files) \<Rightarrow> tm\<lparr>tm_zone := zone, tm_files := files\<rparr>)"

definition reload :: "registry \<Rightarrow> f64 \<Rightarrow> fault \<Rightarrow> fault \<Rightarrow> 'k timed \<Rightarrow> 'k timed" where
  "reload reg now fl_install fl_remember tm =
     (let was_automatic = cf_automatic (tm_config tm);
          tm = tm\<lparr>tm_config := load_config reg\<rparr>;
          tm = (if cf_automatic (tm_config tm) \<and> \<not> was_automatic
                then tm\<lparr>tm_discipline := discipline_new (d_frequency (tm_discipline tm))\<rparr> else tm)
      in rebuild_sources (apply_zone now fl_install fl_remember tm))"

text \<open>The registry watch, when it became readable: whether it has events, or an error (it is re-armed).\<close>

definition check_registry ::
  "(unit + bool) option \<Rightarrow> registry \<Rightarrow> f64 \<Rightarrow> fault \<Rightarrow> fault \<Rightarrow> 'k timed \<Rightarrow> 'k timed" where
  "check_registry readable reg now fl_install fl_remember tm =
     (case readable of Some (Inr True) \<Rightarrow> reload reg now fl_install fl_remember tm | _ \<Rightarrow> tm)"

text \<open>\<open>Request::Reload\<close>: reload, then every source is resolved again and polled at once.\<close>

definition reload_request :: "registry \<Rightarrow> f64 \<Rightarrow> fault \<Rightarrow> fault \<Rightarrow> 'k timed \<Rightarrow> 'k timed" where
  "reload_request reg now fl_install fl_remember tm =
     (let tm = reload reg now fl_install fl_remember tm
      in tm\<lparr>tm_entries := map (\<lambda>e. e\<lparr>en_addresses := [], en_retry_after := fzero,
            en_source := (en_source e)\<lparr>src_burst := BURST, src_next_poll := now\<rparr>\<rparr>) (tm_entries tm)\<rparr>)"

section \<open>The clock set by hand\<close>

datatype set_error = KeptFromSources | CouldNotSet clock_error

definition manual_steering :: "discipline \<Rightarrow> steering" where
  "manual_steering d = \<lparr>st_frequency = d_frequency d, st_max_error = lit 1, st_est_error = lit 1,
     st_synchronised = True, st_leap = LeapNone\<rparr>"

definition set_by_hand ::
  "'k kernel \<Rightarrow> int \<Rightarrow> int \<Rightarrow> u32 \<Rightarrow> bytes \<Rightarrow> 'k timed \<Rightarrow> (set_error + unit) \<times> 'k timed" where
  "set_by_hand K build_epoch seconds nanos caller tm =
     (if cf_automatic (tm_config tm) then (Inl KeptFromSources, tm)
      else
        let target = fadd (f_of_int seconds) (fdiv (f_of_int (uint nanos)) (lit 1000000000));
            previous = wall_nanos K tm;
            by_seconds = fsub target (wall K tm)
        in case clock_step K build_epoch by_seconds (tm_kernel tm) of
             (Inl e, k) \<Rightarrow> (Inl (CouldNotSet e), tm\<lparr>tm_kernel := k\<rparr>)
           | (Inr _, k) \<Rightarrow>
               let tm = tm\<lparr>tm_kernel := k\<rparr>;
                   tm = tm\<lparr>tm_events := tm_events tm @ [\<lparr>ev_step = StepManual, ev_previous = previous,
                                ev_now = wall_nanos K tm, ev_caller = Some caller\<rparr>]\<rparr>;
                   tm = tm\<lparr>tm_reference_time := wall K tm\<rparr>
               in (Inr (), tm\<lparr>tm_kernel := snd (clock_steer K (manual_steering (tm_discipline tm)) (tm_kernel tm))\<rparr>))"

section \<open>What the network manager says\<close>

text \<open>Of its snapshot, what is used: each scope's addresses and the time servers its lease offered.\<close>

record netd_scope =
  ns_addresses :: "string list"
  ns_ntp :: "string list"

fun is_link_local_v6 :: "nat list \<Rightarrow> bool" where
  "is_link_local_v6 groups = (and (groups ! 0) 0xffc0 = 0xfe80)"

text \<open>The address an interface carries, as the family it makes usable; loopback and link-local do not.\<close>

datatype usable = UsableV4 | UsableV6 | NotUsable

definition usable_family :: "string \<Rightarrow> usable" where
  "usable_family address =
     (case parse_ip (hd (split_on CHR ''/'' address)) of
        Some (V4 o4) \<Rightarrow> if o4 ! 0 = 127 \<or> (o4 ! 0 = 169 \<and> o4 ! 1 = 254) then NotUsable else UsableV4
      | Some (V6 g) \<Rightarrow> if g = [0, 0, 0, 0, 0, 0, 0, 1] \<or> is_link_local_v6 g then NotUsable else UsableV6
      | None \<Rightarrow> NotUsable)"

definition usable_families :: "netd_scope list \<Rightarrow> families" where
  "usable_families scopes =
     (let found = map usable_family (concat (map ns_addresses scopes))
      in \<lparr>fam_v4 = UsableV4 \<in> set found, fam_v6 = UsableV6 \<in> set found\<rparr>)"

text \<open>Every server the leases offered, the first time it is named.\<close>

definition offered_servers :: "netd_scope list \<Rightarrow> string list" where
  "offered_servers scopes = foldl (\<lambda>out s. if s \<in> set out then out else out @ [s]) [] (concat (map ns_ntp scopes))"

definition note_families :: "families \<Rightarrow> f64 \<Rightarrow> 'k timed \<Rightarrow> 'k timed" where
  "note_families fam now tm =
     (let changed = (tm_families tm \<noteq> Some fam);
          tm = tm\<lparr>tm_families := Some fam\<rparr>
      in if changed
         then tm\<lparr>tm_entries := map (\<lambda>e. e\<lparr>en_addresses := [], en_retry_after := now\<rparr>) (tm_entries tm)\<rparr>
         else tm)"

definition absorb_netd :: "netd_scope list list \<Rightarrow> f64 \<Rightarrow> 'k timed \<Rightarrow> 'k timed" where
  "absorb_netd snapshots now tm =
     (if snapshots = [] then tm
      else
        let latest = last snapshots;
            tm = note_families (usable_families latest) now tm;
            servers = offered_servers latest
        in if servers = tm_dhcp_servers tm then tm
           else
             let tm = tm\<lparr>tm_dhcp_servers := servers\<rparr>
             in if cf_use_from_dhcp (tm_config tm) \<and> \<not> has_explicit_servers (tm_config tm)
                then rebuild_sources tm else tm)"

definition reachable :: "'k timed \<Rightarrow> socket_addr list \<Rightarrow> socket_addr list" where
  "reachable tm addresses =
     (case tm_families tm of None \<Rightarrow> addresses
      | Some fam \<Rightarrow>
          if \<not> fam_v4 fam \<and> \<not> fam_v6 fam then addresses
          else filter (\<lambda>a. case sa_ip a of V4 _ \<Rightarrow> fam_v4 fam | V6 _ \<Rightarrow> fam_v6 fam) addresses)"

end
