(* ===== verification/Network.thy ===== *)
theory Network
  imports Daemon
begin

text \<open>
  Getting the sources ready, polling them and taking their replies (\<open>timed/src/main.rs\<close>,
  \<open>timed/src/worker.rs\<close>). What the worker finished, the random draws of each source, whether a
  datagram could be sent and the datagrams that arrived are arguments.
\<close>

section \<open>Roots, names and handshakes\<close>

definition ensure_roots :: "f64 \<Rightarrow> 'k timed \<Rightarrow> 'k timed" where
  "ensure_roots now tm =
     (if tm_tls tm \<or> flt now (tm_roots_after tm) then tm
      else if list_all (\<lambda>e. \<not> is_nts (src_security (en_source e))) (tm_entries tm) then tm
      else tm\<lparr>tm_roots_after := fadd now RETRY_INTERVAL, tm_worker := submit JobRoots (tm_worker tm)\<rparr>)"

definition or_port :: "u16 \<Rightarrow> server_spec \<Rightarrow> u16" where
  "or_port p spec = (case sp_port spec of None \<Rightarrow> p | Some q \<Rightarrow> q)"

definition needs_keys :: "f64 \<Rightarrow> entry \<Rightarrow> bool" where
  "needs_keys now e \<longleftrightarrow> src_security (en_source e) = NtsPending
     \<or> (is_nts (src_security (en_source e)) \<and> flt (en_rekey_after e) now)"

text \<open>One turn of \<open>maintain_sources\<close>: the entry changed, and the job it gives the worker.\<close>

definition maintain_entry :: "f64 \<Rightarrow> bool \<Rightarrow> nat \<Rightarrow> entry \<Rightarrow> entry \<times> job option" where
  "maintain_entry now tls i e =
     (if en_in_flight e \<or> flt now (en_retry_after e) then (e, None)
      else if en_addresses e = []
      then (e\<lparr>en_in_flight := True\<rparr>,
            Some (JobResolve i (sp_host (en_spec e)) (or_port DEFAULT_NTP_PORT (en_spec e))))
      else if \<not> needs_keys now e then (e, None)
      else if \<not> tls then (e\<lparr>en_retry_after := fadd now RETRY_INTERVAL\<rparr>, None)
      else (e\<lparr>en_in_flight := True\<rparr>,
            Some (JobHandshake i (sp_host (en_spec e)) (en_canonical e)
              (map (\<lambda>a. SocketAddr (sa_ip a) (or_port DEFAULT_KE_PORT (en_spec e))) (en_addresses e)))))"

definition maintain_at :: "f64 \<Rightarrow> nat \<Rightarrow> 'k timed \<Rightarrow> 'k timed" where
  "maintain_at now i tm =
     (case maintain_entry now (tm_tls tm) i (tm_entries tm ! i) of
        (e, j) \<Rightarrow> tm\<lparr>tm_entries := (tm_entries tm)[i := e],
                     tm_worker := (case j of None \<Rightarrow> tm_worker tm | Some j \<Rightarrow> submit j (tm_worker tm))\<rparr>)"

definition maintain_sources :: "f64 \<Rightarrow> 'k timed \<Rightarrow> 'k timed" where
  "maintain_sources now tm = fold (maintain_at now) [0..<length (tm_entries tm)] tm"

section \<open>What the worker finished\<close>

datatype work_done =
    DoneRoots bool
  | DoneResolved nat "string + string \<times> ip_addr list"
  | DoneHandshook nat "string + nts_keys \<times> negotiated \<times> socket_addr list"

text \<open>\<open>Worker::collect\<close>: what has arrived, and whether the worker is gone.\<close>

definition collect :: "work_done list \<Rightarrow> bool \<Rightarrow> worker \<Rightarrow> worker" where
  "collect arrived gone w =
     w\<lparr>wk_outstanding := (if gone then 0 else wk_outstanding w - length arrived)\<rparr>"

definition take_resolved ::
  "(socket_addr list \<Rightarrow> socket_addr list) \<Rightarrow> f64 \<Rightarrow> string + string \<times> ip_addr list \<Rightarrow> entry \<Rightarrow> entry" where
  "take_resolved usable now result e =
     (let e = e\<lparr>en_in_flight := False\<rparr> in
      case result of
        Inl why \<Rightarrow> (on_source (\<lambda>s. s\<lparr>src_note := Some (NoteText (''cannot resolve: '' @ why))\<rparr>) e)
                     \<lparr>en_retry_after := fadd now RETRY_INTERVAL\<rparr>
      | Inr (canonical, ips) \<Rightarrow>
          (let addresses = usable (map (\<lambda>ip. SocketAddr ip (or_port DEFAULT_NTP_PORT (en_spec e))) ips)
           in if addresses = []
              then (on_source (\<lambda>s. s\<lparr>src_note := Some (NoteText ''no address in a family this machine can reach'')\<rparr>) e)
                     \<lparr>en_retry_after := fadd now RETRY_INTERVAL\<rparr>
              else (on_source (\<lambda>s. s\<lparr>src_address := hd addresses\<rparr>) e)
                     \<lparr>en_addresses := addresses, en_canonical := canonical, en_retry_after := fzero\<rparr>))"

text \<open>A handshake that came back: the entry, and the cookies to be saved.\<close>

definition take_handshake ::
  "(socket_addr list \<Rightarrow> socket_addr list) \<Rightarrow> f64 \<Rightarrow> string + nts_keys \<times> negotiated \<times> socket_addr list
     \<Rightarrow> entry \<Rightarrow> entry \<times> bytes list option" where
  "take_handshake usable now result e =
     (let e = e\<lparr>en_in_flight := False\<rparr> in
      case result of
        Inl why \<Rightarrow>
          (let e = (if src_security (en_source e) = NtsPending
                    then on_source (\<lambda>s. s\<lparr>src_note := Some (NoteText (''NTS-KE failed: '' @ why))\<rparr>) e else e)
           in (e\<lparr>en_retry_after := fadd now RETRY_INTERVAL, en_rekey_after := fadd now RETRY_INTERVAL\<rparr>, None))
      | Inr (keys, negotiated, addresses) \<Rightarrow>
          (let addresses = usable addresses
           in if addresses = [] then (e\<lparr>en_retry_after := fadd now RETRY_INTERVAL\<rparr>, None)
              else ((on_source (\<lambda>s. s\<lparr>src_security := NtsKeyed keys (ng_cookies negotiated),
                                     src_address := hd addresses, src_note := None, src_next_poll := now\<rparr>) e)
                      \<lparr>en_addresses := addresses, en_rekey_after := fadd now REKEY_INTERVAL,
                       en_retry_after := fzero\<rparr>,
                    Some (ng_cookies negotiated))))"

definition take_done :: "fault \<Rightarrow> f64 \<Rightarrow> work_done \<Rightarrow> 'k timed \<Rightarrow> 'k timed" where
  "take_done fl now d tm =
     (case d of
        DoneRoots ok \<Rightarrow> if ok then tm\<lparr>tm_tls := True\<rparr> else tm
      | DoneResolved i result \<Rightarrow>
          if length (tm_entries tm) \<le> i then tm
          else on_entry i (take_resolved (reachable tm) now result) tm
      | DoneHandshook i result \<Rightarrow>
          if length (tm_entries tm) \<le> i then tm
          else (case take_handshake (reachable tm) now result (tm_entries tm ! i) of
                  (e, saved) \<Rightarrow>
                    tm\<lparr>tm_entries := (tm_entries tm)[i := e],
                       tm_files := (case saved of None \<Rightarrow> tm_files tm
                         | Some cookies \<Rightarrow> snd (write_cookies fl (sp_host (en_spec e)) cookies (tm_files tm)))\<rparr>))"

definition collect_work :: "fault \<Rightarrow> work_done list \<Rightarrow> bool \<Rightarrow> f64 \<Rightarrow> 'k timed \<Rightarrow> 'k timed" where
  "collect_work fl arrived gone now tm =
     fold (take_done fl now) arrived (tm\<lparr>tm_worker := collect arrived gone (tm_worker tm)\<rparr>)"

section \<open>Polling\<close>

definition rotate_address :: "entry \<Rightarrow> entry" where
  "rotate_address e =
     (let as = en_addresses e in
      if length as < 2 then e
      else let current = src_address (en_source e);
               before = length (takeWhile (\<lambda>a. a \<noteq> current) as);
               position = (if before < length as then before else 0)
           in on_source (\<lambda>s. s\<lparr>src_address := as ! ((position + 1) mod length as)\<rparr>) e)"

text \<open>
  What one poll draws and meets: the request's draws, the draw of its scheduling, and the error of
  sending if it fails.
\<close>

record poll_luck =
  pl_draws :: draws
  pl_jitter :: "u64 option"
  pl_send_error :: "string option"

definition has_socket :: "'k timed \<Rightarrow> socket_addr \<Rightarrow> bool" where
  "has_socket tm a = (case sa_ip a of V4 _ \<Rightarrow> tm_v4 tm | V6 _ \<Rightarrow> tm_v6 tm)"

definition send_poll ::
  "aead \<Rightarrow> ntp_timestamp \<Rightarrow> bool \<Rightarrow> poll_luck \<Rightarrow> f64 \<Rightarrow> entry \<Rightarrow> entry \<times> (socket_addr \<times> bytes) option" where
  "send_poll A stamp socket luck now e =
     (let address = src_address (en_source e) in
      case prepare A (pl_draws luck) stamp now (en_source e) of
        (s, Inl _) \<Rightarrow> (e\<lparr>en_source := schedule (pl_jitter luck) now s\<rparr>, None)
      | (s, Inr bytes) \<Rightarrow>
          if \<not> socket
          then (e\<lparr>en_source := schedule (pl_jitter luck) now
                  (s\<lparr>src_note := Some (NoteText ''no socket for that address family'')\<rparr>)\<rparr>, None)
          else (case pl_send_error luck of
                  None \<Rightarrow> (e\<lparr>en_source := s\<rparr>, Some (address, bytes))
                | Some why \<Rightarrow>
                    (let e = e\<lparr>en_source := s\<lparr>src_note := Some (NoteText (''cannot send: '' @ why)), src_pending := None\<rparr>\<rparr>
                     in (on_source (schedule (pl_jitter luck) now) (rotate_address e), None))))"

definition is_due :: "f64 \<Rightarrow> entry \<Rightarrow> bool" where
  "is_due now e \<longleftrightarrow> \<not> (en_addresses e = [] \<or> \<not> can_poll (en_source e) \<or> src_pending (en_source e) \<noteq> None
     \<or> flt now (src_next_poll (en_source e)))"

definition poll_at ::
  "'k kernel \<Rightarrow> aead \<Rightarrow> (nat \<Rightarrow> poll_luck) \<Rightarrow> f64 \<Rightarrow> nat
     \<Rightarrow> 'k timed \<times> (socket_addr \<times> bytes) list \<Rightarrow> 'k timed \<times> (socket_addr \<times> bytes) list" where
  "poll_at K A luck now i p =
     (case p of (tm, sent) \<Rightarrow>
        let e = tm_entries tm ! i in
        if \<not> is_due now e then (tm, sent)
        else case clock_now (k_wall K (tm_kernel tm)) of
          (seconds, nanos) \<Rightarrow>
            (case send_poll A (from_unix seconds (word_of_int nanos)) (has_socket tm (src_address (en_source e))) (luck i) now e of
               (e', out) \<Rightarrow> (tm\<lparr>tm_entries := (tm_entries tm)[i := e']\<rparr>,
                            sent @ (case out of None \<Rightarrow> [] | Some d \<Rightarrow> [d]))))"

definition poll_due ::
  "'k kernel \<Rightarrow> aead \<Rightarrow> (nat \<Rightarrow> poll_luck) \<Rightarrow> f64 \<Rightarrow> 'k timed \<Rightarrow> 'k timed \<times> (socket_addr \<times> bytes) list" where
  "poll_due K A luck now tm = fold (poll_at K A luck now) [0..<length (tm_entries tm)] (tm, [])"

definition expire_entry :: "u64 option \<Rightarrow> f64 \<Rightarrow> entry \<Rightarrow> entry" where
  "expire_entry draw now e =
     (if \<not> timed_out now (en_source e) then e
      else let e = on_source (record_loss draw now) e
           in if src_reach (en_source e) = 0
              then (rotate_address e)\<lparr>en_addresses := [], en_retry_after := now\<rparr>
              else e)"

definition expire_pending :: "(nat \<Rightarrow> u64 option) \<Rightarrow> f64 \<Rightarrow> 'k timed \<Rightarrow> 'k timed" where
  "expire_pending draw now tm =
     tm\<lparr>tm_entries := map (\<lambda>(i, e). expire_entry (draw i) now e) (enumerate 0 (tm_entries tm))\<rparr>"

section \<open>Replies\<close>

text \<open>
  One reply given to the source it came from: the entry, whether the filter produced anything
  new, and whether the source's saved cookies are to be forgotten. Two draws: the scheduling of
  the burst and the one after it.
\<close>

definition take_entry_reply ::
  "aead \<Rightarrow> u64 option \<Rightarrow> u64 option \<Rightarrow> f64 \<Rightarrow> bytes \<Rightarrow> ntp_timestamp \<Rightarrow> f64 \<Rightarrow> entry \<Rightarrow> entry \<times> bool \<times> bool" where
  "take_entry_reply A draw1 draw2 at_wall bytes destination now e =
     (case source_accept A bytes destination now (en_source e) of
        (s, Inr sample) \<Rightarrow>
          (case filter_insert (src_filter s) sample at_wall of
             (f, outcome) \<Rightarrow>
               (let s = schedule_burst draw1 now (s\<lparr>src_filter := f\<rparr>);
                    s = (if src_burst s = 0 then schedule draw2 now s else s)
                in (e\<lparr>en_source := s,
                      en_fresh := (case outcome of Update _ \<Rightarrow> True | Stale \<Rightarrow> False)\<rparr>, True, False)))
      | (s, Inl why) \<Rightarrow>
          let e = e\<lparr>en_source := s\<rparr> in
          (case why of
             Kiss code \<Rightarrow>
               if code = RATE then (on_source (back_off draw1 now) e, False, False)
               else if code = NTSN
               then ((on_source (\<lambda>s. s\<lparr>src_security := NtsPending\<rparr>) e)\<lparr>en_rekey_after := fzero, en_retry_after := fzero\<rparr>,
                     False, True)
               else (on_source (\<lambda>s. schedule draw1 now
                       (s\<lparr>src_note := Some (NoteRefused code), src_poll := src_max_poll s\<rparr>)) e, False, False)
           | _ \<Rightarrow> (if why = WrongOrigin then e
                  else on_source (\<lambda>s. s\<lparr>src_note := Some (NoteRejected why)\<rparr>) e, False, False)))"

definition sender :: "socket_addr \<Rightarrow> entry \<Rightarrow> bool" where
  "sender from_addr e \<longleftrightarrow> src_address (en_source e) = from_addr"

definition take_reply ::
  "'k kernel \<Rightarrow> aead \<Rightarrow> u64 option \<Rightarrow> u64 option \<Rightarrow> bytes \<Rightarrow> socket_addr \<Rightarrow> ntp_timestamp \<Rightarrow> f64
     \<Rightarrow> 'k timed \<Rightarrow> bool \<times> 'k timed" where
  "take_reply K A draw1 draw2 bytes from_addr destination now tm =
     (let i = length (takeWhile (\<lambda>e. \<not> sender from_addr e) (tm_entries tm)) in
      if length (tm_entries tm) \<le> i then (False, tm)
      else case take_entry_reply A draw1 draw2 (wall K tm) bytes destination now (tm_entries tm ! i) of
        (e, updated, forget) \<Rightarrow>
          (updated, tm\<lparr>tm_entries := (tm_entries tm)[i := e],
             tm_files := (if forget then forget_cookies (sp_host (en_spec e)) (tm_files tm) else tm_files tm)\<rparr>))"

end
