(* ===== verification/Decide.thy ===== *)
theory Decide
  imports Network
begin

text \<open>
  Deciding, steering and reporting (\<open>timed/src/main.rs\<close>): the selection put into effect, the
  discipline's adjustment carried out on the kernel's clock, what is saved, what is published and
  how long the loop may sleep.
\<close>

section \<open>Steering\<close>

definition tm_distance :: "'k timed \<Rightarrow> f64" where
  "tm_distance tm = fadd (fdiv (tm_root_delay tm) (lit 2)) (tm_root_dispersion tm)"

definition steering_now :: "f64 \<Rightarrow> 'k timed \<Rightarrow> steering" where
  "steering_now rate tm = \<lparr>st_frequency = rate, st_max_error = tm_distance tm, st_est_error = tm_jitter tm,
     st_synchronised = disc_is_synchronised (tm_discipline tm), st_leap = tm_leap tm\<rparr>"

definition steer :: "'k kernel \<Rightarrow> f64 \<Rightarrow> 'k timed \<Rightarrow> 'k timed" where
  "steer K rate tm = tm\<lparr>tm_kernel := snd (clock_steer K (steering_now rate tm) (tm_kernel tm))\<rparr>"

text \<open>A step that was made: every filter is emptied and the loop's phase forgotten.\<close>

definition after_step :: "'k kernel \<Rightarrow> nat option \<Rightarrow> 'k timed \<Rightarrow> 'k timed" where
  "after_step K previous tm =
     tm\<lparr>tm_events := tm_events tm @ [\<lparr>ev_step = StepAutomatic, ev_previous = previous,
          ev_now = wall_nanos K tm, ev_caller = None\<rparr>],
        tm_entries := map (on_source (\<lambda>s. s\<lparr>src_filter := filter_reset (src_filter s)\<rparr>)) (tm_entries tm),
        tm_discipline := reset_phase (tm_discipline tm)\<rparr>"

definition apply_offset :: "'k kernel \<Rightarrow> int \<Rightarrow> f64 \<Rightarrow> f64 \<Rightarrow> f64 \<Rightarrow> 'k timed \<Rightarrow> 'k timed" where
  "apply_offset K build_epoch offset now at_wall tm =
     (case disc_update (tm_discipline tm) offset now of (d, adjustment) \<Rightarrow>
        let tm = tm\<lparr>tm_discipline := d\<rparr> in
        (case adjustment of
           Rate rate \<Rightarrow> steer K rate (tm\<lparr>tm_reference_time := at_wall\<rparr>)
         | Step seconds rate \<Rightarrow>
             (let previous = wall_nanos K tm;
                  tm = (case clock_step K build_epoch seconds (tm_kernel tm) of
                          (Inr _, k) \<Rightarrow> after_step K previous (tm\<lparr>tm_kernel := k\<rparr>)
                        | (Inl e, k) \<Rightarrow> tm\<lparr>tm_kernel := k\<rparr>);
                  tm = tm\<lparr>tm_reference_time := wall K tm\<rparr>
              in steer K rate tm)
         | Hold \<Rightarrow> tm
         | Panic seconds \<Rightarrow> tm))"

section \<open>Status and snapshot\<close>

definition sync_state :: "'k timed \<Rightarrow> sync" where
  "sync_state tm =
     (if tm_system_peer tm = None then SyncUnsynchronised
      else case d_state (tm_discipline tm) of
             Startup \<Rightarrow> SyncUnsynchronised | Settling \<Rightarrow> SyncSettling
           | Synchronised \<Rightarrow> SyncSynchronised | Spike \<Rightarrow> SyncSpike)"

fun leap_signed :: "leap \<Rightarrow> int" where
  "leap_signed LeapNone = 0" | "leap_signed LeapInsertSecond = 1" | "leap_signed LeapDeleteSecond = - 1"

fun leap_code :: "leap \<Rightarrow> u32" where
  "leap_code LeapNone = 0" | "leap_code LeapInsertSecond = 1" | "leap_code LeapDeleteSecond = 2"

definition in_use :: "entry \<Rightarrow> bool" where
  "in_use e \<longleftrightarrow> en_state e = CandidateState \<or> en_state e = SystemPeer"

text \<open>None is a panic: the index of the system peer is past the end of the table.\<close>

definition status :: "int \<Rightarrow> f64 \<Rightarrow> 'k timed \<Rightarrow> status_info option" where
  "status build_epoch now tm =
     (if (case tm_system_peer tm of None \<Rightarrow> False | Some i \<Rightarrow> length (tm_entries tm) \<le> i) then None
      else Some
       \<lparr>ss_generation = tm_generation tm, ss_sync = sync_state tm,
        ss_system_peer = map_option (\<lambda>i. sp_host (en_spec (tm_entries tm ! i))) (tm_system_peer tm),
        ss_stratum = (if tm_system_peer tm \<noteq> None then ucast (tm_stratum tm) else 16),
        ss_offset = tm_offset tm, ss_frequency_ppm = frequency_ppm (tm_discipline tm),
        ss_jitter = tm_jitter tm, ss_root_distance = tm_distance tm, ss_root_delay = tm_root_delay tm,
        ss_root_dispersion = tm_root_dispersion tm, ss_leap = leap_signed (tm_leap tm),
        ss_stepped = d_stepped (tm_discipline tm), ss_updates = tm_updates tm,
        ss_last_update = (case tm_last_update tm of None \<Rightarrow> fneg (lit 1) | Some t \<Rightarrow> fsub now t),
        ss_sources = of_nat (length (tm_entries tm)),
        ss_selected = of_nat (length (filter in_use (tm_entries tm))),
        ss_floor = build_epoch, ss_manual = (\<not> cf_automatic (tm_config tm)),
        ss_zone = kp_in_force (tm_zone tm)\<rparr>)"

definition is_synchronised :: "'k timed \<Rightarrow> bool" where
  "is_synchronised tm \<longleftrightarrow> disc_is_synchronised (tm_discipline tm) \<and> tm_system_peer tm \<noteq> None"

definition snapshot :: "'k kernel \<Rightarrow> 'k timed \<Rightarrow> snapshot_info" where
  "snapshot K tm =
     \<lparr>sn_generation = tm_generation tm, sn_leap = leap_code (tm_leap tm),
      sn_stratum = (if is_synchronised tm then ucast (tm_stratum tm) else 16),
      sn_reference_id = tm_reference_id tm, sn_reference_time = tm_reference_time tm,
      sn_root_delay = tm_root_delay tm, sn_root_dispersion = tm_root_dispersion tm,
      sn_precision = tm_precision tm, sn_at = wall K tm, sn_synchronised = is_synchronised tm\<rparr>"

text \<open>
  One source as it is reported. The texts of an address, a reference id and a note are the
  formatter's: arguments.
\<close>

record texts =
  tx_address :: "socket_addr \<Rightarrow> string"
  tx_reference :: "reference_id \<Rightarrow> string"
  tx_note :: "source_note \<Rightarrow> string"

definition source_row :: "texts \<Rightarrow> f64 \<Rightarrow> f64 \<Rightarrow> entry \<Rightarrow> source_info" where
  "source_row T now at_wall e =
     (let s = en_source e;
          filtered = source_filtered s at_wall;
          of_filtered = (\<lambda>g. case filtered of None \<Rightarrow> fzero | Some f \<Rightarrow> g f)
      in \<lparr>si_name = sp_host (en_spec e),
          si_address = (if en_addresses e = [] then [] else tx_address T (src_address s)),
          si_origin = en_origin e, si_auth = (if is_nts (src_security s) then AuthNts else AuthNone),
          si_state = en_state e, si_stratum = ucast (src_stratum s),
          si_reference = tx_reference T (src_reference_id s), si_reach = ucast (src_reach s),
          si_poll = src_poll s,
          si_last = (case src_last_reply s of None \<Rightarrow> fneg (lit 1) | Some t \<Rightarrow> fsub now t),
          si_offset = of_filtered f_offset, si_delay = of_filtered f_delay, si_jitter = of_filtered f_jitter,
          si_root_distance = of_filtered (\<lambda>f. root_distance f (src_root_delay s) (src_root_dispersion s) at_wall),
          si_cookies = of_nat (cookie_count (src_security s)), si_note = map_option (tx_note T) (src_note s)\<rparr>)"

definition sources :: "'k kernel \<Rightarrow> texts \<Rightarrow> f64 \<Rightarrow> 'k timed \<Rightarrow> source_info list" where
  "sources K T now tm = map (source_row T now (wall K tm)) (tm_entries tm)"

text \<open>\<open>took i\<close> is whether subscriber \<open>i\<close> could take the snapshot; one that could not is dropped.\<close>

definition publish :: "'k kernel \<Rightarrow> (nat \<Rightarrow> bool) \<Rightarrow> 'k timed \<Rightarrow> 'k timed" where
  "publish K took tm =
     tm\<lparr>tm_subscribers := map (\<lambda>(i, got). got @ [ReplySnapshot (snapshot K tm)])
          (filter (\<lambda>(i, got). took i) (enumerate 0 (tm_subscribers tm)))\<rparr>"

definition publish_level :: "'k timed \<Rightarrow> 'k timed" where
  "publish_level tm =
     (let level = sync_state tm
      in if tm_last_level tm = Some level then tm
         else tm\<lparr>tm_last_level := Some level, tm_levels := tm_levels tm @ [level]\<rparr>)"

section \<open>Deciding\<close>

definition candidate_of :: "f64 \<Rightarrow> nat \<times> entry \<Rightarrow> candidate option" where
  "candidate_of at_wall p = (case p of (i, e) \<Rightarrow>
     let s = en_source e in
     map_option (\<lambda>f. \<lparr>c_id = i, c_filtered = f, c_stratum = src_stratum s, c_root_delay = src_root_delay s,
         c_root_dispersion = src_root_dispersion s, c_usable = (is_reachable s \<and> src_stratum s < 16),
         c_prefer = sp_prefer (en_spec e)\<rparr>)
       (source_filtered s at_wall))"

definition candidates :: "f64 \<Rightarrow> 'k timed \<Rightarrow> candidate list" where
  "candidates at_wall tm = List.map_filter (candidate_of at_wall) (enumerate 0 (tm_entries tm))"

definition fall_back_state :: "entry \<Rightarrow> entry" where
  "fall_back_state e = e\<lparr>en_state := (if \<not> is_reachable (en_source e) then Unreachable else Unusable)\<rparr>"

definition set_states :: "source_state \<Rightarrow> nat list \<Rightarrow> entry list \<Rightarrow> entry list" where
  "set_states st ids es = foldl (\<lambda>es i. es[i := (es ! i)\<lparr>en_state := st\<rparr>]) es ids"

definition clustered_out :: "selection \<Rightarrow> candidate list \<Rightarrow> nat list" where
  "clustered_out sel cs =
     filter (\<lambda>i. i \<notin> set (sel_survivors sel) \<and> i \<notin> set (sel_falsetickers sel)) (map c_id cs)"

definition mark_states :: "selection \<Rightarrow> candidate list \<Rightarrow> entry list \<Rightarrow> entry list" where
  "mark_states sel cs es =
     set_states SystemPeer [sel_system_peer sel]
       (set_states Outlier (clustered_out sel cs)
         (set_states CandidateState (sel_survivors sel)
           (set_states Falseticker (sel_falsetickers sel) es)))"

definition saturating_succ :: "u8 \<Rightarrow> u8" where
  "saturating_succ x = (if x = - 1 then x else x + 1)"

definition follow_peer :: "selection \<Rightarrow> f64 \<Rightarrow> 'k timed \<Rightarrow> 'k timed" where
  "follow_peer sel at_wall tm =
     (let s = en_source (tm_entries tm ! sel_system_peer sel);
          of_filtered = (\<lambda>g. case source_filtered s at_wall of None \<Rightarrow> fzero | Some f \<Rightarrow> g f)
      in tm\<lparr>tm_stratum := saturating_succ (src_stratum s), tm_reference_id := src_reference_id s,
           tm_leap := announced_leap s,
           tm_root_delay := fadd (src_root_delay s) (of_filtered f_delay),
           tm_root_dispersion := fadd (fadd (src_root_dispersion s) (of_filtered f_dispersion)) (sel_jitter sel),
           tm_system_peer := Some (sel_system_peer sel), tm_offset := sel_offset sel, tm_jitter := sel_jitter sel\<rparr>)"

definition on_entries :: "(entry \<Rightarrow> entry) \<Rightarrow> 'k timed \<Rightarrow> 'k timed" where
  "on_entries g tm = tm\<lparr>tm_entries := map g (tm_entries tm)\<rparr>"

definition put_in_effect :: "'k kernel \<Rightarrow> int \<Rightarrow> selection \<Rightarrow> f64 \<Rightarrow> f64 \<Rightarrow> 'k timed \<Rightarrow> 'k timed" where
  "put_in_effect K build_epoch sel now at_wall tm =
     (let fresh = list_ex en_fresh (tm_entries tm);
          tm = on_entries (\<lambda>e. e\<lparr>en_fresh := False\<rparr>) tm;
          tm = (if fresh then apply_offset K build_epoch (sel_offset sel) now at_wall tm else tm);
          tm = on_entries (on_source (adapt_poll (sel_offset sel) (fmax (sel_jitter sel) (lit (1 / 1000000000))))) tm;
          tm = (if fresh then tm\<lparr>tm_updates := tm_updates tm + 1, tm_last_update := Some now\<rparr> else tm)
      in tm\<lparr>tm_generation := tm_generation tm + 1\<rparr>)"

definition decide :: "'k kernel \<Rightarrow> int \<Rightarrow> (nat \<Rightarrow> bool) \<Rightarrow> f64 \<Rightarrow> 'k timed \<Rightarrow> 'k timed" where
  "decide K build_epoch took now tm =
     (let at_wall = wall K tm;
          cs = candidates at_wall tm;
          tm = on_entries fall_back_state tm
      in case select_sources cs at_wall of
           Inl NoCandidates \<Rightarrow> tm
         | Inl NoMajority \<Rightarrow>
             publish K took
               (on_entries (\<lambda>e. if is_reachable (en_source e) then e\<lparr>en_state := Falseticker\<rparr> else e) tm)
         | Inr sel \<Rightarrow>
             publish K took (put_in_effect K build_epoch sel now at_wall
               (follow_peer sel at_wall (tm\<lparr>tm_entries := mark_states sel cs (tm_entries tm)\<rparr>))))"

section \<open>Saving, and how long to sleep\<close>

definition save_cookies :: "fault \<Rightarrow> entry \<Rightarrow> files \<Rightarrow> files" where
  "save_cookies fl e files = (case src_security (en_source e) of
     NtsKeyed keys cookies \<Rightarrow> snd (write_cookies fl (sp_host (en_spec e)) cookies files) | _ \<Rightarrow> files)"

definition persist :: "fault \<Rightarrow> fault \<Rightarrow> f64 \<Rightarrow> 'k timed \<Rightarrow> 'k timed" where
  "persist fl_drift fl_cookies now tm =
     (if flt (fsub now (tm_last_drift_write tm)) DRIFT_INTERVAL \<or> d_updates (tm_discipline tm) < 4 then tm
      else tm\<lparr>tm_last_drift_write := now,
             tm_files := fold (save_cookies fl_cookies) (tm_entries tm)
               (snd (write_drift fl_drift (d_frequency (tm_discipline tm)) (tm_files tm)))\<rparr>)"

definition entry_deadline :: "f64 \<Rightarrow> entry \<Rightarrow> f64 \<Rightarrow> f64" where
  "entry_deadline now e soonest =
     (if en_addresses e = [] \<or> \<not> can_poll (en_source e) then fmin soonest (fmax (en_retry_after e) now)
      else if src_pending (en_source e) = None then fmin soonest (src_next_poll (en_source e))
      else soonest)"

definition next_deadline :: "f64 \<Rightarrow> 'k timed \<Rightarrow> f64" where
  "next_deadline now tm =
     (let soonest = fold (entry_deadline now) (tm_entries tm) (fadd now (lit 60));
          soonest = (if \<not> tm_tls tm then fmin soonest (fmax (tm_roots_after tm) now) else soonest);
          ceiling = (if busy (tm_worker tm) then lit (1 / 4) else lit 60)
      in fclamp (fsub soonest now) (lit (5 / 100)) ceiling)"

section \<open>Taking what arrived\<close>

record datagram =
  dg_from :: socket_addr
  dg_bytes :: bytes
  dg_draw1 :: "u64 option"
  dg_draw2 :: "u64 option"

definition take_datagram ::
  "'k kernel \<Rightarrow> aead \<Rightarrow> ntp_timestamp \<Rightarrow> f64 \<Rightarrow> datagram \<Rightarrow> bool \<times> 'k timed \<Rightarrow> bool \<times> 'k timed" where
  "take_datagram K A destination now d p =
     (case p of (updated, tm) \<Rightarrow>
        (case take_reply K A (dg_draw1 d) (dg_draw2 d) (take MAX_PACKET (dg_bytes d)) (dg_from d) destination now tm of
           (u, tm) \<Rightarrow> (updated \<or> u, tm)))"

definition service_sockets ::
  "'k kernel \<Rightarrow> aead \<Rightarrow> int \<Rightarrow> (nat \<Rightarrow> bool) \<Rightarrow> datagram list \<Rightarrow> datagram list \<Rightarrow> f64 \<Rightarrow> 'k timed \<Rightarrow> 'k timed" where
  "service_sockets K A build_epoch took on_v4 on_v6 now tm =
     (let stamp = clock_now (k_wall K (tm_kernel tm));
          destination = from_unix (fst stamp) (word_of_int (snd stamp));
          arrived = (if tm_v4 tm then on_v4 else []) @ (if tm_v6 tm then on_v6 else [])
      in case fold (take_datagram K A destination now) arrived (False, tm) of
           (updated, tm) \<Rightarrow> if updated then decide K build_epoch took now tm else tm)"

end
