(* ===== verification/Lifecycle.thy ===== *)
theory Lifecycle
  imports Decide
begin

text \<open>
  The daemon as a transition system: its operations in any order and any number, from a start on
  any machine. What holds in every reachable state is proved by rule induction, from what each
  operation does to one entry: for the entries once and for all, from the locale \<open>source_law\<close>.
\<close>

section \<open>Steps\<close>

text \<open>A finished handshake brings what \<open>interpret\<close> lets through: at most eight cookies.\<close>

fun done_ok :: "work_done \<Rightarrow> bool" where
  "done_ok (DoneHandshook i (Inr (keys, negotiated, addresses))) = (length (ng_cookies negotiated) \<le> COOKIE_TARGET)"
| "done_ok _ = True"

inductive daemon_step :: "'k kernel \<Rightarrow> aead \<Rightarrow> int \<Rightarrow> 'k timed \<Rightarrow> 'k timed \<Rightarrow> bool"
  for K :: "'k kernel" and A :: aead and build_epoch :: int where
  time_passes: "daemon_step K A build_epoch tm (tm\<lparr>tm_kernel := k\<rparr>)"
| netd: "daemon_step K A build_epoch tm (absorb_netd snapshots now tm)"
| registry: "daemon_step K A build_epoch tm (check_registry readable reg now fl fl' tm)"
| reload_asked: "daemon_step K A build_epoch tm (reload_request reg now fl fl' tm)"
| zone: "keeper_due now (tm_zone tm) \<Longrightarrow> daemon_step K A build_epoch tm (apply_zone later fl fl' tm)"
| work: "list_all done_ok arrived \<Longrightarrow> daemon_step K A build_epoch tm (collect_work fl arrived gone now tm)"
| roots: "daemon_step K A build_epoch tm (ensure_roots now tm)"
| maintain: "daemon_step K A build_epoch tm (maintain_sources now tm)"
| poll: "poll_due K A luck now tm = (tm', sent) \<Longrightarrow> daemon_step K A build_epoch tm tm'"
| expire: "daemon_step K A build_epoch tm (expire_pending draw now tm)"
| level: "daemon_step K A build_epoch tm (publish_level tm)"
| save: "daemon_step K A build_epoch tm (persist fl fl' now tm)"
| sockets: "daemon_step K A build_epoch tm (service_sockets K A build_epoch took on_v4 on_v6 now tm)"
| by_hand: "set_by_hand K build_epoch seconds nanos caller tm = (r, tm') \<Longrightarrow> daemon_step K A build_epoch tm tm'"
| subscribe: "daemon_step K A build_epoch tm (tm\<lparr>tm_subscribers := tm_subscribers tm @ [[ReplySnapshot (snapshot K tm)]]\<rparr>)"

text \<open>\<open>run\<close> before its loop: the zone put in place and the sources built.\<close>

definition started ::
  "'k \<Rightarrow> stepped_event list \<Rightarrow> files \<Rightarrow> registry \<Rightarrow> int \<Rightarrow> bool \<Rightarrow> bool \<Rightarrow> f64 \<Rightarrow> fault \<Rightarrow> fault \<Rightarrow> 'k timed" where
  "started k events files reg precision v4 v6 now fl fl' =
     rebuild_sources (apply_zone now fl fl' (timed_new k events files reg precision v4 v6))"

inductive daemon_reach :: "'k kernel \<Rightarrow> aead \<Rightarrow> int \<Rightarrow> 'k timed \<Rightarrow> bool"
  for K :: "'k kernel" and A :: aead and build_epoch :: int where
  start: "daemon_reach K A build_epoch (started k events files reg precision v4 v6 now fl fl')"
| step: "daemon_reach K A build_epoch tm \<Longrightarrow> daemon_step K A build_epoch tm tm' \<Longrightarrow> daemon_reach K A build_epoch tm'"

section \<open>A law of the sources\<close>

text \<open>
  A property of one source that the ones the daemon makes have and that each of its operations on a
  source keeps. What follows from such a law, for every entry of a reachable daemon, is proved once.
\<close>

locale source_law =
  fixes P :: "source \<Rightarrow> bool"
  assumes made: "cookie_count sec \<le> COOKIE_TARGET \<Longrightarrow> P (source_new nm a sec lo hi)"
    and prepared: "prepare A dr w t s = (s', r) \<Longrightarrow> P s \<Longrightarrow> P s'"
    and refused: "source_accept A bs dest t s = (s', Inl why) \<Longrightarrow> P s \<Longrightarrow> P s'"
    and measured: "source_accept A bs dest t s = (s', Inr smp) \<Longrightarrow> P s \<Longrightarrow>
      P (s'\<lparr>src_filter := fst (filter_insert (src_filter s') smp u)\<rparr>)"
    and emptied: "P s \<Longrightarrow> P (s\<lparr>src_filter := filter_reset (src_filter s)\<rparr>)"
    and timed: "P s \<Longrightarrow> P (schedule d t s)" "P s \<Longrightarrow> P (schedule_burst d t s)" "P s \<Longrightarrow> P (record_loss d t s)"
      "P s \<Longrightarrow> P (back_off d t s)" "P s \<Longrightarrow> P (adapt_poll x y s)"
    and keyed: "P s \<Longrightarrow> cookie_count sec \<le> COOKIE_TARGET \<Longrightarrow> P (s\<lparr>src_security := sec\<rparr>)"
    and slowed: "P s \<Longrightarrow> P (s\<lparr>src_note := n, src_poll := src_max_poll s\<rparr>)"
    and dropped: "P s \<Longrightarrow> P (s\<lparr>src_pending := None\<rparr>)"
    and side [simp]: "P (s\<lparr>src_note := n\<rparr>) = P s" "P (s\<lparr>src_address := a\<rparr>) = P s"
      "P (s\<lparr>src_next_poll := t\<rparr>) = P s" "P (s\<lparr>src_burst := b\<rparr>) = P s"

interpretation sound: source_law source_inv
proof unfold_locales
  show "source_inv (s\<lparr>src_note := n\<rparr>) = source_inv s" "source_inv (s\<lparr>src_address := a\<rparr>) = source_inv s"
    "source_inv (s\<lparr>src_next_poll := t\<rparr>) = source_inv s" "source_inv (s\<lparr>src_burst := b\<rparr>) = source_inv s" for s n a t b
    by (simp_all add: source_inv_def poll_ok_def)
  show "source_accept A bs dest t s = (s', Inr smp) \<Longrightarrow> source_inv s \<Longrightarrow>
      source_inv (s'\<lparr>src_filter := fst (filter_insert (src_filter s') smp u)\<rparr>)" for A bs dest t s s' smp u
    by (rule source_step_inv [OF step_insert source_step_inv [OF step_accept]])
qed (auto intro: source_new_inv source_step_inv source_step.intros, auto simp: source_inv_def poll_ok_def)

abbreviation entry_is :: "(source \<Rightarrow> bool) \<Rightarrow> entry \<Rightarrow> bool" where
  "entry_is P \<equiv> (\<lambda>e. P (en_source e))"

abbreviation all_sources :: "(source \<Rightarrow> bool) \<Rightarrow> 'k timed \<Rightarrow> bool" where
  "all_sources P tm \<equiv> list_all (entry_is P) (tm_entries tm)"

lemma on_source_source [simp]: "en_source (on_source g e) = g (en_source e)"
  by (simp add: on_source_def)

lemma place_specs_all:
  assumes "\<And>spec. P (new_entry c og spec)" "\<And>e spec. P e \<Longrightarrow> P (e\<lparr>en_spec := spec, en_origin := og\<rparr>)"
  shows "list_all P out \<Longrightarrow> \<forall>e\<in>ran kept. P e \<Longrightarrow> list_all P (place_specs c og specs kept out)"
proof (induction specs arbitrary: kept out)
  case (Cons spec specs)
  have "\<forall>e\<in>ran (kept(sp_host spec := None)). P e" using Cons.prems(2) by (auto simp: ran_def split: if_splits)
  then have kept: "list_all P out' \<Longrightarrow> list_all P (place_specs c og specs (kept(sp_host spec := None)) out')" for out'
    using Cons.IH by blast
  show ?case
  proof (cases "kept (sp_host spec)")
    case None
    then show ?thesis using Cons assms(1) by simp
  next
    case (Some e)
    then have "P (e\<lparr>en_spec := spec, en_origin := og\<rparr>)" using Cons.prems(2) by (intro assms(2)) (auto intro: ranI)
    then show ?thesis using Some Cons kept by simp
  qed
qed simp

lemma kept_by_host_mem: "kept_by_host es h = Some e \<Longrightarrow> e \<in> set es \<and> sp_host (en_spec e) = h"
proof -
  have "foldl (\<lambda>kept e. kept(sp_host (en_spec e) \<mapsto> e)) m es h = Some e \<Longrightarrow>
      m h = Some e \<or> (e \<in> set es \<and> sp_host (en_spec e) = h)" for m
  proof (induction es arbitrary: m)
    case (Cons a es)
    from Cons.IH [of "m(sp_host (en_spec a) \<mapsto> a)"] Cons.prems show ?case
      by (cases "h = sp_host (en_spec a)") auto
  qed simp
  from this [of Map.empty] show "kept_by_host es h = Some e \<Longrightarrow> e \<in> set es \<and> sp_host (en_spec e) = h"
    by (simp add: kept_by_host_def)
qed

lemma rebuild_all:
  assumes "\<And>c og spec. P (new_entry c og spec)" "\<And>e og spec. P e \<Longrightarrow> P (e\<lparr>en_spec := spec, en_origin := og\<rparr>)"
    and "list_all P (tm_entries tm)"
  shows "list_all P (tm_entries (rebuild_sources tm))"
proof -
  have "\<forall>e\<in>ran (kept_by_host (tm_entries tm)). P e"
    using kept_by_host_mem assms(3) by (fastforce simp: list_all_iff ran_def)
  then show ?thesis using assms(1,2) by (simp add: rebuild_sources_def place_specs_all)
qed

section \<open>Operations that leave the clock alone\<close>

text \<open>
  The operations between two decisions: the settings, the clock, the loop, the choice of system
  peer and the figures it gave stay, and no source comes or goes.
\<close>

abbreviation figures :: "'k timed \<Rightarrow> f64 \<times> f64 \<times> f64 \<times> f64" where
  "figures tm \<equiv> (tm_offset tm, tm_jitter tm, tm_root_delay tm, tm_root_dispersion tm)"

definition quiet :: "'k timed \<Rightarrow> 'k timed \<Rightarrow> bool" where
  "quiet tm tm' \<longleftrightarrow> tm_config tm' = tm_config tm \<and> tm_kernel tm' = tm_kernel tm
     \<and> tm_discipline tm' = tm_discipline tm \<and> tm_system_peer tm' = tm_system_peer tm
     \<and> figures tm' = figures tm \<and> length (tm_entries tm') = length (tm_entries tm)"

definition keeps :: "(source \<Rightarrow> bool) \<Rightarrow> 'k timed \<Rightarrow> 'k timed \<Rightarrow> bool" where
  "keeps P tm tm' \<longleftrightarrow> quiet tm tm' \<and> (all_sources P tm \<longrightarrow> all_sources P tm')"

lemma keeps_refl: "keeps P tm tm"
  by (simp add: keeps_def quiet_def)

lemma keeps_trans: "keeps P tm tm' \<Longrightarrow> keeps P tm' tm'' \<Longrightarrow> keeps P tm tm''"
  by (simp add: keeps_def quiet_def)

lemma keepsD: "keeps P tm tm' \<Longrightarrow> all_sources P tm \<Longrightarrow> all_sources P tm'"
  by (simp add: keeps_def)

lemma list_all_update: "list_all P xs \<Longrightarrow> P x \<Longrightarrow> list_all P (xs[i := x])"
  using set_update_subset_insert [of xs i x] by (auto simp: list_all_iff)

lemma keeps_at:
  assumes "i < length (tm_entries tm)" "entry_is P (tm_entries tm ! i) \<Longrightarrow> entry_is P e"
    and "quiet tm tm'" "tm_entries tm' = (tm_entries tm)[i := e]"
  shows "keeps P tm tm'"
  using assms list_all_update [of "entry_is P" "tm_entries tm" e i] by (auto simp: keeps_def list_all_length)

lemma keeps_fold:
  assumes "\<And>x s. x \<in> set xs \<Longrightarrow> keeps P tm s \<Longrightarrow> keeps P s (f x s)"
  shows "keeps P tm (fold f xs tm)"
  using fold_invariant [where Q = "\<lambda>x. x \<in> set xs" and P = "keeps P tm" and f = f and xs = xs and s = tm]
    assms keeps_refl keeps_trans by blast

lemma ensure_roots_keeps: "keeps P tm (ensure_roots now tm)"
  by (simp add: ensure_roots_def keeps_def quiet_def)

lemma maintain_entry_source: "en_source (fst (maintain_entry now tls i e)) = en_source e"
  by (simp add: maintain_entry_def)

lemma maintain_keeps: "keeps P tm (maintain_sources now tm)"
  unfolding maintain_sources_def
proof (rule keeps_fold)
  fix i s assume "i \<in> set [0..<length (tm_entries tm)]" "keeps P tm s"
  then have i: "i < length (tm_entries s)" by (simp add: keeps_def quiet_def)
  then show "keeps P s (maintain_at now i s)"
    using maintain_entry_source [of now "tm_tls s" i "tm_entries s ! i"]
    by (intro keeps_at [of i s P "fst (maintain_entry now (tm_tls s) i (tm_entries s ! i))"])
      (simp_all add: maintain_at_def quiet_def split: prod.splits)
qed

lemma persist_keeps: "keeps P tm (persist fl fl' now tm)" "keeps P tm (publish_level tm)"
  by (simp_all add: persist_def publish_level_def Let_def keeps_def quiet_def)

section \<open>What follows from a law\<close>

context source_law
begin

lemma new_entry: "entry_is P (new_entry c og spec)"
  by (simp add: new_entry_def made COOKIE_TARGET_def)

lemma resolved: "entry_is P e \<Longrightarrow> entry_is P (take_resolved usable now result e)"
  by (simp add: take_resolved_def Let_def split: sum.splits prod.splits)

lemma handshook:
  "entry_is P e \<Longrightarrow> done_ok (DoneHandshook i result) \<Longrightarrow> entry_is P (fst (take_handshake usable now result e))"
  by (auto simp: take_handshake_def Let_def keyed split: sum.splits prod.splits)

lemma rotated: "entry_is P e \<Longrightarrow> entry_is P (rotate_address e)"
  by (simp add: rotate_address_def Let_def)

lemma polled: "entry_is P e \<Longrightarrow> entry_is P (fst (send_poll A stamp socket luck now e))"
proof -
  assume inv: "entry_is P e"
  obtain s r where p: "prepare A (pl_draws luck) stamp now (en_source e) = (s, r)"
    by (cases "prepare A (pl_draws luck) stamp now (en_source e)")
  have s: "P s" using prepared [OF p inv] .
  show ?thesis
    using s by (auto simp: send_poll_def p Let_def timed dropped intro!: timed rotated split: sum.splits option.splits)
qed

lemma expired: "entry_is P e \<Longrightarrow> entry_is P (expire_entry draw now e)"
  using rotated [of "on_source (record_loss draw now) e"] by (auto simp: expire_entry_def Let_def timed)

lemma replied: "entry_is P e \<Longrightarrow> entry_is P (fst (take_entry_reply A d1 d2 u bytes dest now e))"
proof -
  assume inv: "entry_is P e"
  obtain s r where a: "source_accept A bytes dest now (en_source e) = (s, r)"
    by (cases "source_accept A bytes dest now (en_source e)")
  show ?thesis
  proof (cases r)
    case (Inl why)
    then have "P s" using refused [of A bytes dest now "en_source e" s why] a inv by simp
    then show ?thesis
      using Inl by (cases why) (auto simp: take_entry_reply_def a Let_def timed keyed slowed COOKIE_TARGET_def)
  next
    case (Inr sample)
    obtain f oc where f: "filter_insert (src_filter s) sample u = (f, oc)" by (cases "filter_insert (src_filter s) sample u")
    have "P (s\<lparr>src_filter := f\<rparr>)" using measured [of A bytes dest now "en_source e" s sample u] a inv Inr by (simp add: f)
    then show ?thesis using Inr by (simp add: take_entry_reply_def a f Let_def timed)
  qed
qed

lemma take_done_keeps: "done_ok d \<Longrightarrow> keeps P tm (take_done fl now d tm)"
proof (cases d)
  case (DoneRoots ok)
  then show ?thesis by (simp add: take_done_def keeps_def quiet_def)
next
  case (DoneResolved i result)
  show ?thesis
  proof (cases "i < length (tm_entries tm)")
    case True
    then show ?thesis
      using DoneResolved
      by (intro keeps_at [of i tm P "take_resolved (reachable tm) now result (tm_entries tm ! i)"])
        (simp_all add: take_done_def on_entry_def quiet_def resolved)
  qed (simp add: DoneResolved take_done_def keeps_refl)
next
  case (DoneHandshook i result)
  assume ok: "done_ok d"
  show ?thesis
  proof (cases "i < length (tm_entries tm)")
    case True
    then show ?thesis
      using DoneHandshook ok handshook [of "tm_entries tm ! i" i result "reachable tm" now]
      by (intro keeps_at [of i tm P "fst (take_handshake (reachable tm) now result (tm_entries tm ! i))"])
        (simp_all add: take_done_def quiet_def split: prod.splits)
  qed (simp add: DoneHandshook take_done_def keeps_refl)
qed

lemma collect_work_keeps: "list_all done_ok arrived \<Longrightarrow> keeps P tm (collect_work fl arrived gone now tm)"
proof -
  assume ok: "list_all done_ok arrived"
  let ?tm = "tm\<lparr>tm_worker := collect arrived gone (tm_worker tm)\<rparr>"
  have "keeps P ?tm (fold (take_done fl now) arrived ?tm)"
    using ok by (intro keeps_fold) (simp add: take_done_keeps list_all_iff)
  then show ?thesis by (simp add: collect_work_def keeps_def quiet_def)
qed

lemma poll_at_keeps: "i < length (tm_entries tm) \<Longrightarrow> keeps P tm (fst (poll_at K A luck now i (tm, sent)))"
proof (cases "is_due now (tm_entries tm ! i)")
  case True
  assume i: "i < length (tm_entries tm)"
  obtain seconds nanos where c: "clock_now (k_wall K (tm_kernel tm)) = (seconds, nanos)" by (cases "clock_now (k_wall K (tm_kernel tm))")
  show ?thesis
    using i True c polled [of "tm_entries tm ! i"]
    by (intro keeps_at [of i tm P "fst (send_poll A (from_unix seconds (word_of_int nanos))
        (has_socket tm (src_address (en_source (tm_entries tm ! i)))) (luck i) now (tm_entries tm ! i))"])
      (simp_all add: poll_at_def quiet_def Let_def split: prod.splits)
qed (simp add: poll_at_def Let_def keeps_refl)

lemma poll_due_keeps: "keeps P tm (fst (poll_due K A luck now tm))"
proof -
  have "keeps P tm (fst (fold (poll_at K A luck now) xs (tm, []))) " if "set xs \<subseteq> {0..<length (tm_entries tm)}" for xs
  proof (rule fold_invariant [where Q = "\<lambda>i. i < length (tm_entries tm)"])
    fix i and p :: "'a timed \<times> (socket_addr \<times> bytes) list"
    assume i: "i < length (tm_entries tm)" and p: "keeps P tm (fst p)"
    then have "i < length (tm_entries (fst p))" by (simp add: keeps_def quiet_def)
    then show "keeps P tm (fst (poll_at K A luck now i p))"
      using poll_at_keeps [of i "fst p" K A luck now "snd p"] keeps_trans [OF p] by simp
  qed (use that keeps_refl in auto)
  then show ?thesis by (simp add: poll_due_def)
qed

lemma expire_keeps: "keeps P tm (expire_pending draw now tm)"
proof -
  have "list_all (entry_is P) es \<Longrightarrow> list_all (entry_is P) (map (\<lambda>(i, e). expire_entry (draw i) now e) (enumerate n es))" for n es
    by (induction es arbitrary: n) (simp_all add: expired)
  then show ?thesis by (simp add: expire_pending_def keeps_def quiet_def)
qed

lemma take_reply_keeps: "keeps P tm (snd (take_reply K A d1 d2 bytes from_addr dest now tm))"
proof (cases "length (takeWhile (\<lambda>e. \<not> sender from_addr e) (tm_entries tm)) < length (tm_entries tm)")
  case True
  let ?i = "length (takeWhile (\<lambda>e. \<not> sender from_addr e) (tm_entries tm))"
  show ?thesis
    using True replied [of "tm_entries tm ! ?i" A d1 d2 "wall K tm" bytes dest now]
    by (intro keeps_at [of ?i tm P "fst (take_entry_reply A d1 d2 (wall K tm) bytes dest now (tm_entries tm ! ?i))"])
      (simp_all add: take_reply_def quiet_def Let_def split: prod.splits)
qed (simp add: take_reply_def keeps_refl)

lemma take_datagram_keeps: "keeps P (snd p) (snd (take_datagram K A dest now d p))"
proof (cases p)
  case (Pair u tm)
  show ?thesis
    using take_reply_keeps [of tm K A "dg_draw1 d" "dg_draw2 d" "take MAX_PACKET (dg_bytes d)" "dg_from d" dest now]
    by (simp add: Pair take_datagram_def case_prod_unfold)
qed

lemma take_datagrams_keep: "keeps P tm (snd (fold (take_datagram K A dest now) ds (b, tm)))"
proof (rule fold_invariant [where Q = "\<lambda>_. True"])
  show "keeps P tm (snd (take_datagram K A dest now d p))" if "keeps P tm (snd p)" for d p
    using that take_datagram_keeps by (rule keeps_trans)
qed (simp_all add: keeps_refl)

lemmas quiet_operations = ensure_roots_keeps maintain_keeps collect_work_keeps poll_due_keeps expire_keeps
  persist_keeps

end

section \<open>Deciding\<close>

text \<open>Marking states touches no source; what is put into effect keeps every source's invariant.\<close>

lemma map_update_same: "f x = f (es ! i) \<Longrightarrow> map f (es[i := x]) = map f es"
  by (cases "i < length es") (simp_all add: map_update list_update_same_conv list_update_beyond)

lemma set_states_sources:
  "map en_source (set_states st ids es) = map en_source es" "length (set_states st ids es) = length es"
  "map en_spec (set_states st ids es) = map en_spec es"
proof -
  have "map en_source (set_states st ids es) = map en_source es \<and> map en_spec (set_states st ids es) = map en_spec es
      \<and> length (set_states st ids es) = length es"
    unfolding set_states_def
  proof (induction ids arbitrary: es)
    case (Cons i ids)
    show ?case by (simp add: Cons map_update_same)
  qed simp
  then show "map en_source (set_states st ids es) = map en_source es" "length (set_states st ids es) = length es"
    "map en_spec (set_states st ids es) = map en_spec es" by simp_all
qed

lemma mark_states_sources:
  "map en_source (mark_states sel cs es) = map en_source es" "length (mark_states sel cs es) = length es"
  by (simp_all add: mark_states_def set_states_sources)

lemma list_all_sources: "map en_source es' = map en_source es \<Longrightarrow> list_all (entry_is P) es' = list_all (entry_is P) es"
  using list.pred_map [of P en_source] by (metis comp_def list.pred_cong)

lemma step_entries:
  "tm_entries (steer K r tm) = tm_entries tm" "tm_config (steer K r tm) = tm_config tm"
  "tm_discipline (steer K r tm) = tm_discipline tm" "tm_system_peer (steer K r tm) = tm_system_peer tm"
  by (simp_all add: steer_def)

lemma apply_offset_frame:
  "tm_config (apply_offset K be x now w tm) = tm_config tm"
  "tm_system_peer (apply_offset K be x now w tm) = tm_system_peer tm"
  "map en_spec (tm_entries (apply_offset K be x now w tm)) = map en_spec (tm_entries tm)"
  "map en_state (tm_entries (apply_offset K be x now w tm)) = map en_state (tm_entries tm)"
  "length (tm_entries (apply_offset K be x now w tm)) = length (tm_entries tm)"
  by (auto simp: apply_offset_def steer_def after_step_def on_source_def Let_def split: prod.splits adjustment.splits sum.splits)

lemma reset_phase_inv: "disc_inv d \<Longrightarrow> disc_inv (reset_phase d)"
  by (auto simp: disc_inv_def reset_ok) (auto simp: reset_phase_def split: if_splits)

lemma apply_offset_discipline: "disc_inv (tm_discipline tm) \<Longrightarrow> disc_inv (tm_discipline (apply_offset K be x now w tm))"
  using disc_inv_update [of "tm_discipline tm" x now]
  by (auto simp: apply_offset_def steer_def after_step_def Let_def reset_phase_inv
      split: prod.splits adjustment.splits sum.splits)

lemma put_in_effect_frame:
  "tm_config (put_in_effect K be sel now w tm) = tm_config tm"
  "tm_system_peer (put_in_effect K be sel now w tm) = tm_system_peer tm"
  "length (tm_entries (put_in_effect K be sel now w tm)) = length (tm_entries tm)"
  by (simp_all add: put_in_effect_def on_entries_def Let_def apply_offset_frame)

lemma put_in_effect_discipline:
  "disc_inv (tm_discipline tm) \<Longrightarrow> disc_inv (tm_discipline (put_in_effect K be sel now w tm))"
  using apply_offset_discipline [of "on_entries (\<lambda>e. e\<lparr>en_fresh := False\<rparr>) tm"]
  by (simp add: put_in_effect_def Let_def on_entries_def)

text \<open>Candidates carry the index of their entry, each once.\<close>

lemma candidate_ids: "map c_id (candidates w tm) = map fst (filter (\<lambda>p. candidate_of w p \<noteq> None) (enumerate 0 (tm_entries tm)))"
proof -
  have "c_id (the (candidate_of w p)) = fst p" if "candidate_of w p \<noteq> None" for p
    using that by (auto simp: candidate_of_def Let_def split: prod.splits)
  then show ?thesis by (auto simp: candidates_def List.map_filter_def)
qed

lemma candidate_ids_distinct: "distinct (map c_id (candidates w tm))"
  unfolding candidate_ids by (rule distinct_map_filter) simp

lemma candidate_in_range: "c \<in> set (candidates w tm) \<Longrightarrow> c_id c < length (tm_entries tm)"
proof -
  assume "c \<in> set (candidates w tm)"
  then have "c_id c \<in> set (map c_id (candidates w tm))" by simp
  then show ?thesis by (auto simp: candidate_ids in_set_enumerate_eq)
qed

lemma selection_in_range:
  assumes "select_sources (candidates w tm) w = Inr sel"
  shows "sel_system_peer sel < length (tm_entries tm)"
    and "i \<in> set (sel_survivors sel) \<Longrightarrow> i < length (tm_entries tm)"
    and "i \<in> set (sel_falsetickers sel) \<Longrightarrow> i < length (tm_entries tm)"
  using sl.peer_in_bounds [OF assms, of "length (tm_entries tm)"] candidate_in_range by blast+

lemma no_entries_no_selection: "tm_entries tm = [] \<Longrightarrow> select_sources (candidates w tm) w = Inl NoCandidates"
  by (simp add: candidates_def List.map_filter_def select_sources_def)

definition selected_state :: "'k kernel \<Rightarrow> f64 \<Rightarrow> selection \<Rightarrow> 'k timed \<Rightarrow> 'k timed" where
  "selected_state K w sel tm = follow_peer sel w (tm\<lparr>tm_entries :=
     mark_states sel (candidates w tm) (map fall_back_state (tm_entries tm))\<rparr>)"

lemma decide_cases:
  obtains (none) "select_sources (candidates (wall K tm) tm) (wall K tm) = Inl NoCandidates"
      "decide K be took now tm = on_entries fall_back_state tm"
  | (split) "select_sources (candidates (wall K tm) tm) (wall K tm) = Inl NoMajority"
      "decide K be took now tm = publish K took
        (on_entries (\<lambda>e. if is_reachable (en_source e) then e\<lparr>en_state := Falseticker\<rparr> else e) (on_entries fall_back_state tm))"
  | (selected) sel where "select_sources (candidates (wall K tm) tm) (wall K tm) = Inr sel"
      "decide K be took now tm = publish K took
        (put_in_effect K be sel now (wall K tm) (selected_state K (wall K tm) sel tm))"
proof (cases "select_sources (candidates (wall K tm) tm) (wall K tm)")
  case (Inl e)
  then show ?thesis using none split by (cases e) (simp_all add: decide_def Let_def)
next
  case (Inr sel)
  then show ?thesis using selected by (simp add: decide_def Let_def selected_state_def on_entries_def)
qed

lemma fall_back_source [simp]: "en_source (fall_back_state e) = en_source e" "en_spec (fall_back_state e) = en_spec e"
  by (simp_all add: fall_back_state_def)

lemma selected_state_sources:
  "map en_source (tm_entries (selected_state K w sel tm)) = map en_source (tm_entries tm)"
  "tm_config (selected_state K w sel tm) = tm_config tm" "tm_discipline (selected_state K w sel tm) = tm_discipline tm"
  "tm_system_peer (selected_state K w sel tm) = Some (sel_system_peer sel)"
  "length (tm_entries (selected_state K w sel tm)) = length (tm_entries tm)"
  by (simp_all add: selected_state_def follow_peer_def Let_def mark_states_sources comp_def)

lemma publish_frame [simp]:
  "tm_config (publish K took tm) = tm_config tm" "tm_entries (publish K took tm) = tm_entries tm"
  "tm_discipline (publish K took tm) = tm_discipline tm" "tm_system_peer (publish K took tm) = tm_system_peer tm"
  "tm_kernel (publish K took tm) = tm_kernel tm"
  by (simp_all add: publish_def)

lemma rebuild_frame:
  "tm_config (rebuild_sources tm) = tm_config tm" "tm_kernel (rebuild_sources tm) = tm_kernel tm"
  "tm_discipline (rebuild_sources tm) = tm_discipline tm"
  "\<not> cf_automatic (tm_config tm) \<Longrightarrow> tm_entries (rebuild_sources tm) = [] \<and> tm_system_peer (rebuild_sources tm) = None"
  by (simp_all add: rebuild_sources_def)

lemma apply_zone_frame [simp]:
  "tm_config (apply_zone now fl fl' tm) = tm_config tm" "tm_entries (apply_zone now fl fl' tm) = tm_entries tm"
  "tm_discipline (apply_zone now fl fl' tm) = tm_discipline tm"
  "tm_system_peer (apply_zone now fl fl' tm) = tm_system_peer tm" "tm_kernel (apply_zone now fl fl' tm) = tm_kernel tm"
  by (simp_all add: apply_zone_def split: prod.splits)

lemma set_by_hand_frame:
  assumes "set_by_hand K be seconds nanos caller tm = (r, tm')"
  shows "tm_config tm' = tm_config tm" "tm_entries tm' = tm_entries tm" "tm_discipline tm' = tm_discipline tm"
    "tm_system_peer tm' = tm_system_peer tm"
  using assms by (auto simp: set_by_hand_def Let_def split: if_splits sum.splits prod.splits)

section \<open>Every step\<close>

context source_law
begin

lemma apply_offset_sources: "all_sources P tm \<Longrightarrow> all_sources P (apply_offset K be x now w tm)"
  by (auto simp: apply_offset_def steer_def after_step_def Let_def list_all_iff emptied
      split: prod.splits adjustment.splits sum.splits)

lemma put_in_effect_sources: "all_sources P tm \<Longrightarrow> all_sources P (put_in_effect K be sel now w tm)"
proof -
  let ?cleared = "on_entries (\<lambda>e. e\<lparr>en_fresh := False\<rparr>) tm"
  assume "all_sources P tm"
  then have c: "all_sources P ?cleared" by (simp add: on_entries_def list_all_iff)
  then show ?thesis
    using apply_offset_sources [OF c] by (auto simp: put_in_effect_def Let_def on_entries_def list_all_iff timed)
qed

lemma decide_sources: "all_sources P tm \<Longrightarrow> all_sources P (decide K be took now tm)"
proof (cases rule: decide_cases [of K tm be took now])
  case (selected sel)
  assume "all_sources P tm"
  then have "all_sources P (selected_state K (wall K tm) sel tm)"
    using list_all_sources [OF selected_state_sources(1), of P] by blast
  then show ?thesis by (simp add: selected(2) put_in_effect_sources)
qed (auto simp: on_entries_def list_all_iff)

lemma rebuild_sources_all: "all_sources P tm \<Longrightarrow> all_sources P (rebuild_sources tm)"
  by (rule rebuild_all) (simp_all add: new_entry)

lemma reload_sources: "all_sources P tm \<Longrightarrow> all_sources P (reload reg now fl fl' tm)"
  unfolding reload_def Let_def by (rule rebuild_sources_all) simp

lemma absorb_netd_sources: "all_sources P tm \<Longrightarrow> all_sources P (absorb_netd snapshots now tm)"
proof -
  let ?n = "note_families (usable_families (last snapshots)) now tm"
  assume all: "all_sources P tm"
  then have n: "all_sources P ?n" by (simp add: note_families_def Let_def list_all_iff)
  then have "all_sources P (rebuild_sources (?n\<lparr>tm_dhcp_servers := s\<rparr>))" for s by (intro rebuild_sources_all) simp
  then show ?thesis using n all by (simp add: absorb_netd_def Let_def)
qed

lemma service_sockets_cases:
  obtains tm' where "keeps P tm tm'" "service_sockets K A be took on_v4 on_v6 now tm = tm'"
  | tm' where "keeps P tm tm'" "service_sockets K A be took on_v4 on_v6 now tm = decide K be took now tm'"
proof -
  let ?p = "fold (take_datagram K A (from_unix (fst (clock_now (k_wall K (tm_kernel tm))))
      (word_of_int (snd (clock_now (k_wall K (tm_kernel tm)))))) now)
      ((if tm_v4 tm then on_v4 else []) @ (if tm_v6 tm then on_v6 else [])) (False, tm)"
  have k: "keeps P tm (snd ?p)" by (rule take_datagrams_keep)
  have "service_sockets K A be took on_v4 on_v6 now tm = (if fst ?p then decide K be took now (snd ?p) else snd ?p)"
    by (simp add: service_sockets_def Let_def split: prod.splits)
  then show ?thesis using that k by (cases "fst ?p") simp_all
qed

lemma service_sockets_sources: "all_sources P tm \<Longrightarrow> all_sources P (service_sockets K A be took on_v4 on_v6 now tm)"
  by (rule service_sockets_cases [of tm K A be took on_v4 on_v6 now]) (simp_all add: keeps_def decide_sources)

theorem step_sources: "daemon_step K A be tm tm' \<Longrightarrow> all_sources P tm \<Longrightarrow> all_sources P tm'"
proof (induction rule: daemon_step.induct)
  case (poll luck now tm tm' sent)
  then show ?case using poll_due_keeps [of tm K A luck now] by (simp add: keeps_def)
next
  case (registry tm readable reg now fl fl')
  then show ?case by (auto simp: check_registry_def reload_sources split: option.splits sum.splits bool.splits)
next
  case (reload_asked tm reg now fl fl')
  then show ?case using reload_sources [of tm reg now fl fl'] by (simp add: reload_request_def Let_def list_all_iff)
next
  case (work arrived tm fl gone now)
  then show ?case using collect_work_keeps [of arrived tm fl gone now] by (simp add: keeps_def)
next
  case (by_hand seconds nanos caller tm r tm')
  then show ?case using set_by_hand_frame [OF by_hand(1)] by simp
qed (auto intro: keepsD [OF ensure_roots_keeps] keepsD [OF maintain_keeps] keepsD [OF expire_keeps]
    keepsD [OF persist_keeps(1)] keepsD [OF persist_keeps(2)] absorb_netd_sources service_sockets_sources)

theorem reach_sources: "daemon_reach K A be tm \<Longrightarrow> all_sources P tm"
  by (induction rule: daemon_reach.induct) (simp_all add: step_sources started_def rebuild_sources_all timed_new_def)

end

section \<open>The invariant\<close>

text \<open>What the daemon's own state owes to it, whatever its sources are.\<close>

definition settled :: "'k timed \<Rightarrow> bool" where
  "settled tm \<longleftrightarrow> disc_inv (tm_discipline tm)
     \<and> (\<not> cf_automatic (tm_config tm) \<longrightarrow> tm_entries tm = [] \<and> tm_system_peer tm = None)"

definition daemon_inv :: "'k timed \<Rightarrow> bool" where
  "daemon_inv tm \<longleftrightarrow> all_sources source_inv tm \<and> settled tm"

lemma settled_keeps: "keeps P tm tm' \<Longrightarrow> settled tm \<Longrightarrow> settled tm'"
  by (auto simp: settled_def keeps_def quiet_def)

lemma settled_decide: "settled tm \<Longrightarrow> settled (decide K be took now tm)"
proof (cases rule: decide_cases [of K tm be took now])
  case (selected sel)
  assume inv: "settled tm"
  have "tm_entries tm \<noteq> []" using selected(1) no_entries_no_selection by force
  then have "cf_automatic (tm_config tm)" using inv by (auto simp: settled_def)
  then show ?thesis
    using inv put_in_effect_discipline [of "selected_state K (wall K tm) sel tm"]
    by (simp add: selected(2) settled_def put_in_effect_frame selected_state_sources)
qed (auto simp: settled_def on_entries_def)

lemma settled_rebuild: "disc_inv (tm_discipline tm) \<Longrightarrow> settled (rebuild_sources tm)"
  by (simp add: settled_def rebuild_frame)

lemma disc_inv_new: "disc_inv (discipline_new f)"
  by (rule disc_reach_inv) (rule disc_reach.intros)

lemma settled_reload: "settled tm \<Longrightarrow> settled (reload reg now fl fl' tm)"
  unfolding reload_def Let_def by (rule settled_rebuild) (auto simp: settled_def disc_inv_new)

lemma settled_absorb_netd: "settled tm \<Longrightarrow> settled (absorb_netd snapshots now tm)"
  using settled_rebuild [of "(note_families (usable_families (last snapshots)) now tm)\<lparr>tm_dhcp_servers := s\<rparr>" for s]
  by (auto simp: absorb_netd_def Let_def settled_def note_families_def)

lemma settled_sockets: "settled tm \<Longrightarrow> settled (service_sockets K A be took on_v4 on_v6 now tm)"
  by (rule sound.service_sockets_cases [of tm K A be took on_v4 on_v6 now]) (simp_all add: settled_keeps settled_decide)

lemma settled_step: "daemon_step K A be tm tm' \<Longrightarrow> settled tm \<Longrightarrow> settled tm'"
proof (induction rule: daemon_step.induct)
  case (poll luck now tm tm' sent)
  then show ?case using settled_keeps [OF sound.poll_due_keeps, of tm K A luck now] by simp
next
  case (registry tm readable reg now fl fl')
  then show ?case by (auto simp: check_registry_def settled_reload split: option.splits sum.splits bool.splits)
next
  case (reload_asked tm reg now fl fl')
  then show ?case using settled_reload [of tm reg now fl fl'] by (simp add: reload_request_def Let_def settled_def)
next
  case (by_hand seconds nanos caller tm r tm')
  then show ?case using set_by_hand_frame [OF by_hand(1)] by (simp add: settled_def)
qed (auto intro: settled_keeps [OF ensure_roots_keeps] settled_keeps [OF maintain_keeps]
    settled_keeps [OF sound.collect_work_keeps] settled_keeps [OF sound.expire_keeps] settled_keeps [OF persist_keeps(1)]
    settled_keeps [OF persist_keeps(2)] settled_absorb_netd settled_sockets, auto simp: settled_def)

lemma settled_started: "settled (started k events files reg precision v4 v6 now fl fl')"
  unfolding started_def by (rule settled_rebuild) (simp add: timed_new_def disc_inv_new)

lemma daemon_reach_inv: "daemon_reach K A be tm \<Longrightarrow> daemon_inv tm"
proof -
  assume reach: "daemon_reach K A be tm"
  then have "settled tm" by (induction rule: daemon_reach.induct) (simp_all add: settled_started settled_step)
  then show ?thesis using sound.reach_sources [OF reach] by (simp add: daemon_inv_def)
qed

end
