(* ===== verification/Behaviour.thy ===== *)
theory Behaviour
  imports Lifecycle
begin

text \<open>
  What the daemon's parts do together (\<open>timed/src/main.rs\<close>): who may move the clock, which servers
  may be asked, what a decision and a step leave behind, and where the code does not do what its
  comments say.
\<close>

section \<open>A machine for the witnesses\<close>

text \<open>Settings with \<open>Automatic\<close> 0, and the daemon started on them; then a source and an entry of it.\<close>

definition manual_registry :: registry where
  "manual_registry = Some (\<lambda>name. if name = AUTOMATIC_VALUE
     then Some \<lparr>rv_ty = REG_DWORD, rv_data = [0, 0, 0, 0]\<rparr> else None)"

definition manual_config :: config where
  "manual_config = config_default\<lparr>cf_automatic := False\<rparr>"

lemma load_manual: "load_config manual_registry = manual_config"
  by (simp add: load_config_def manual_registry_def manual_config_def config_default_def setting_def dword_def
      multi_def Let_def SERVERS_VALUE_def ALLOW_UNAUTHENTICATED_VALUE_def USE_FROM_DHCP_VALUE_def MIN_POLL_VALUE_def
      MAX_POLL_VALUE_def CONTROL_SECURITY_VALUE_def AUTOMATIC_VALUE_def TIME_ZONE_VALUE_def DEFAULT_MIN_POLL_def
      DEFAULT_MAX_POLL_def u32_from_le_def u32_from_be_def of_be_def)

definition manual_daemon :: "int timed" where
  "manual_daemon = started 0 [] Map.empty manual_registry (- 20) True True fzero NoFault NoFault"

lemma manual_daemon_state:
  "tm_config manual_daemon = manual_config" "tm_entries manual_daemon = []" "tm_system_peer manual_daemon = None"
  "tm_kernel manual_daemon = 0" "tm_events manual_daemon = []"
  by (simp_all add: manual_daemon_def started_def rebuild_sources_def timed_new_def load_manual manual_config_def
      apply_zone_def split: prod.splits)

definition demo_entry :: entry where
  "demo_entry = \<lparr>en_source = demo_source, en_spec = server_spec_new ''ntp'', en_origin = OriginRegistry,
     en_addresses = [SocketAddr (V4 [192, 0, 2, 1]) 123], en_canonical = ''ntp'', en_rekey_after = fzero,
     en_retry_after = fzero, en_in_flight = False, en_state = CandidateState, en_fresh = False\<rparr>"

definition demo_daemon :: "int timed" where
  "demo_daemon = manual_daemon\<lparr>tm_config := config_default, tm_entries := [demo_entry]\<rparr>"

section \<open>Every reachable state\<close>

text \<open>
  C5: in every state the daemon can reach, whatever the network, the worker, the settings and the
  people at it do and in whatever order: each source's poll interval is between 2^4 and 2^17
  seconds and it holds at most eight cookies, the frequency is within 500 parts per million, and
  while the clock is kept by hand there is no source and the state reported is unsynchronised.
\<close>
theorem reachable_daemon_is_sound:
  assumes "daemon_reach K A build_epoch tm"
  shows "list_all (\<lambda>e. POLL_FLOOR \<le> src_poll (en_source e) \<and> src_poll (en_source e) \<le> POLL_CEILING
      \<and> cookie_count (src_security (en_source e)) \<le> COOKIE_TARGET) (tm_entries tm)
    \<and> bounded_rate (d_frequency (tm_discipline tm))
    \<and> (cf_automatic (tm_config tm) \<or> (tm_entries tm = [] \<and> sync_state tm = SyncUnsynchronised))"
  using daemon_reach_inv [OF assms]
  by (auto simp: daemon_inv_def settled_def list_all_iff source_inv_def poll_ok_def disc_inv_def disc_ok_def sync_state_def)

theorem reachable_daemon_is_sound_witness:
  "daemon_reach plain_kernel toy_aead 0 manual_daemon \<and> \<not> cf_automatic (tm_config manual_daemon)
   \<and> sync_state manual_daemon = SyncUnsynchronised"
proof -
  have r: "daemon_reach plain_kernel toy_aead 0 manual_daemon"
    unfolding manual_daemon_def by (rule daemon_reach.start)
  from reachable_daemon_is_sound [OF r] r show ?thesis
    by (simp add: manual_daemon_state manual_config_def)
qed

section \<open>A clock kept by hand\<close>

text \<open>
  C29: while \<open>Automatic\<close> is 0 the daemon moves the clock for nobody but the person: nothing is sent to
  any server, no job is given to the worker, and whatever datagrams arrive the kernel's clock,
  the event log and the loop are as they were.
\<close>
theorem manual_clock_left_alone:
  assumes "daemon_reach K A build_epoch tm" "\<not> cf_automatic (tm_config tm)"
  shows "poll_due K A luck now tm = (tm, []) \<and> maintain_sources now tm = tm \<and> ensure_roots now tm = tm
    \<and> service_sockets K A build_epoch took on_v4 on_v6 now tm = tm"
proof -
  have none: "tm_entries tm = []" using daemon_reach_inv [OF assms(1)] assms(2) by (simp add: daemon_inv_def settled_def)
  have d: "take_datagram K A dest now d (False, tm) = (False, tm)" for dest d
    by (simp add: take_datagram_def take_reply_def none)
  have "fold (take_datagram K A dest now) ds (False, tm) = (False, tm)" for dest ds
    by (induction ds) (simp_all add: d)
  then show ?thesis
    by (simp add: service_sockets_def poll_due_def maintain_sources_def ensure_roots_def none)
qed

theorem manual_clock_left_alone_witness:
  "daemon_reach plain_kernel toy_aead 0 manual_daemon \<and> \<not> cf_automatic (tm_config manual_daemon)
   \<and> service_sockets plain_kernel toy_aead 0 (\<lambda>i. True)
        [\<lparr>dg_from = SocketAddr (V4 [192, 0, 2, 1]) 123, dg_bytes = [1, 2, 3], dg_draw1 = None, dg_draw2 = None\<rparr>]
        [] fzero manual_daemon = manual_daemon"
proof -
  have r: "daemon_reach plain_kernel toy_aead 0 manual_daemon"
    unfolding manual_daemon_def by (rule daemon_reach.start)
  have m: "\<not> cf_automatic (tm_config manual_daemon)" by (simp add: manual_daemon_state manual_config_def)
  from manual_clock_left_alone [OF r m] r m show ?thesis by blast
qed

section \<open>Setting the clock by hand\<close>

lemma lit_billion: "lit 1000000000 = Fin False 1000000000"
  by (simp add: rnd_eval)

lemma quantum_32: "quantum (2 ^ 32 - 1) = 1 / 2 ^ 21" "quantum 1 = 1 / 2 ^ 52"
proof -
  have "ilog2 (2 ^ 32 - 1) = 31" by (rule ilog2_eqI) (simp_all add: two_powi_less)
  then show "quantum (2 ^ 32 - 1) = 1 / 2 ^ 21" by (simp add: quantum_def power_int_minus)
  have "ilog2 1 = 0" by (rule ilog2_eqI) (simp_all add: two_powi_less)
  then show "quantum 1 = 1 / 2 ^ 52" by (simp add: quantum_def power_int_minus)
qed

lemma small_quanta: "1 / 2 ^ 52 \<le> (1 / 1000000000 :: rat)" "1 / 2 ^ 21 \<le> (480 / 1000000000 :: rat)"
    "(2 :: rat) ^ 32 = 4294967296" "(0::rat) \<le> 1 / 2 ^ 52" "(0::rat) \<le> 1 / 2 ^ 21" "(2 :: rat) ^ 62 = 4611686018427387904"
    "3 / 2 ^ 21 = 3 * (1 / 2 ^ 21 :: rat)" "2 / 2 ^ 52 = 2 * (1 / 2 ^ 52 :: rat)"
  by simp_all

text \<open>Seconds and nanoseconds added up in floating point: within half a microsecond.\<close>

lemma clock_range:
  assumes "0 \<le> s" "s < 2 ^ 32 - 2" "0 \<le> n" "n < (1000000000 :: int)"
  shows "0 \<le> of_int s + of_int n / (1000000000 :: rat)" "of_int s + of_int n / (1000000000 :: rat) \<le> 2 ^ 32 - 2"
proof -
  have "of_int s \<le> (of_int (2 ^ 32 - 3) :: rat)" "0 \<le> (of_int s :: rat)"
    using assms(1,2) by (simp_all only: of_int_le_iff of_int_0_le_iff)
  moreover have "of_int n / (1000000000 :: rat) \<le> 1" "0 \<le> of_int n / (1000000000 :: rat)" using assms(3,4) by simp_all
  ultimately show "0 \<le> of_int s + of_int n / (1000000000 :: rat)" "of_int s + of_int n / (1000000000 :: rat) \<le> 2 ^ 32 - 2"
    by simp_all
qed

lemma clock_value:
  assumes "0 \<le> s" "s < 2 ^ 32 - 2" "0 \<le> n" "n < 1000000000"
  shows "is_finite (now_f64 (s, n))"
    and "\<bar>val (now_f64 (s, n)) - (of_int s + of_int n / 1000000000)\<bar> \<le> 1 / 2 ^ 21 + 1 / 2 ^ 52"
    and "f64_ok (now_f64 (s, n))"
proof -
  have n: "is_finite (f_of_int n)" "val (f_of_int n) = of_int n" and s: "is_finite (f_of_int s)" "val (f_of_int s) = of_int s"
    using assms by (auto intro!: f_of_int_exact)
  obtain z where z: "fdiv (f_of_int n) (lit 1000000000) = fround z (of_int n / 1000000000)"
    using fdiv_fin [OF n(1) f_of_int_ok, of 1000000000] n(2) by (auto simp: lit_billion)
  have "of_int n < (1000000000 :: rat)" "0 \<le> (of_int n :: rat)" using assms(3,4) by simp_all
  then have q1: "\<bar>of_int n / 1000000000 :: rat\<bar> \<le> 1" by simp
  note q = fround_error [OF q1 zero_less_one, of z] quantum_32(2)
  let ?q = "val (fround z (of_int n / 1000000000))"
  have q0: "\<bar>?q - of_int n / 1000000000\<bar> \<le> 1 / 2 ^ 52" using q by simp
  obtain y where y: "now_f64 (s, n) = fround y (of_int s + ?q)"
    using fadd_fin [OF s(1), of "fround z (of_int n / 1000000000)"] q s(2) by (auto simp: now_f64_def z)
  have "of_int s \<le> (of_int (2 ^ 32 - 3) :: rat)" "0 \<le> (of_int s :: rat)"
    using assms(1,2) by (simp_all only: of_int_le_iff of_int_0_le_iff)
  then have "of_int s \<le> (2 ^ 32 - 3 :: rat)" "0 \<le> (of_int s :: rat)" by simp_all
  moreover have "?q \<le> 2" "- 2 \<le> ?q" using q0 q1 small_quanta by linarith+
  ultimately have b: "\<bar>of_int s + ?q\<bar> \<le> 2 ^ 32 - 1" by linarith
  note f = fround_error [OF b, of y] quantum_32(1)
  show "is_finite (now_f64 (s, n))" "f64_ok (now_f64 (s, n))" using f y by (simp_all add: now_f64_def)
  have "\<bar>val (now_f64 (s, n)) - (of_int s + ?q)\<bar> \<le> 1 / 2 ^ 21" using f y by simp
  then show "\<bar>val (now_f64 (s, n)) - (of_int s + of_int n / 1000000000)\<bar> \<le> 1 / 2 ^ 21 + 1 / 2 ^ 52"
    using q0 by linarith
qed

text \<open>What \<open>adjtimex(2)\<close> documents of a request without an offset: the clock is not moved.\<close>

definition leaves_time :: "'k kernel \<Rightarrow> bool" where
  "leaves_time K \<longleftrightarrow> (\<forall>tx k rc tx' k'. k_adjtimex K tx k = (rc, tx', k')
     \<longrightarrow> (tx_modes tx) AND ADJ_SETOFFSET = 0 \<longrightarrow> k_wall K k' = k_wall K k)"

lemma steer_leaves_time: "leaves_time K \<Longrightarrow> k_wall K (snd (clock_steer K st k)) = k_wall K k"
proof -
  assume K: "leaves_time K"
  obtain rc tx' k' where a: "k_adjtimex K (steer_request st) k = (rc, tx', k')" by (cases "k_adjtimex K (steer_request st) k")
  have "tx_modes (steer_request st) AND ADJ_SETOFFSET = 0"
    by (simp add: steer_request_def ADJ_FREQUENCY_def ADJ_STATUS_def ADJ_MAXERROR_def ADJ_ESTERROR_def ADJ_SETOFFSET_def)
  then have "k_wall K k' = k_wall K k" using K a unfolding leaves_time_def by blast
  then show ?thesis by (simp add: clock_steer_def adjtimex_def a)
qed

lemma manual_step_value:
  assumes now: "0 \<le> s0" "s0 < 2 ^ 32 - 2" "0 \<le> n0" "n0 < 1000000000"
    and target: "0 \<le> s" "s < 2 ^ 32 - 2" "0 \<le> n" "n < 1000000000"
  shows "\<bar>val (fsub (now_f64 (s, n)) (now_f64 (s0, n0))) -
      ((of_int s + of_int n / 1000000000) - (of_int s0 + of_int n0 / 1000000000))\<bar> \<le> 3 / 2 ^ 21 + 2 / 2 ^ 52"
    and "\<bar>val (fsub (now_f64 (s, n)) (now_f64 (s0, n0)))\<bar> \<le> 2 ^ 62"
proof -
  note c0 = clock_value [OF now] and c = clock_value [OF target]
  note r = clock_range [OF now] clock_range [OF target]
  let ?v = "val (now_f64 (s, n))" and ?w = "val (now_f64 (s0, n0))"
  have b: "\<bar>?v - ?w\<bar> \<le> 2 ^ 32 - 1" using c(2) c0(2) r small_quanta by linarith
  obtain z where z: "fsub (now_f64 (s, n)) (now_f64 (s0, n0)) = fround z (?v - ?w)"
    using fsub_fin [OF c(1) c0(1)] by blast
  note f = fround_error [OF b, of z] quantum_32(1)
  have "\<bar>val (fsub (now_f64 (s, n)) (now_f64 (s0, n0))) - (?v - ?w)\<bar> \<le> 1 / 2 ^ 21" using f by (simp add: z)
  then show "\<bar>val (fsub (now_f64 (s, n)) (now_f64 (s0, n0))) -
      ((of_int s + of_int n / 1000000000) - (of_int s0 + of_int n0 / 1000000000))\<bar> \<le> 3 / 2 ^ 21 + 2 / 2 ^ 52"
    "\<bar>val (fsub (now_f64 (s, n)) (now_f64 (s0, n0)))\<bar> \<le> 2 ^ 62"
    using c(2) c0(2) b r small_quanta by linarith+
qed

lemma within_1500: "\<bar>a\<bar> \<le> 2 \<Longrightarrow> \<bar>b\<bar> \<le> 3 / 2 ^ 21 + 2 / 2 ^ 52 \<Longrightarrow> \<bar>a + b * 1000000000\<bar> \<le> (1500 :: rat)"
proof -
  assume a: "\<bar>a\<bar> \<le> 2" and "\<bar>b\<bar> \<le> 3 / 2 ^ 21 + 2 / 2 ^ 52"
  then have "\<bar>b\<bar> \<le> 1440 / 1000000000 + 2 / 1000000000" using small_quanta by linarith
  with a show ?thesis by linarith
qed

lemma set_by_hand_done:
  assumes "set_by_hand K build_epoch seconds nanos caller tm = (Inr (), tm')" "leaves_time K"
  obtains k where "\<not> cf_automatic (tm_config tm)"
    "clock_step K build_epoch (fsub (now_f64 (seconds, uint nanos)) (wall K tm)) (tm_kernel tm) = (Inr (), k)"
    "k_wall K (tm_kernel tm') = k_wall K k"
    "tm_events tm' = tm_events tm @ [\<lparr>ev_step = StepManual, ev_previous = wall_nanos K tm,
       ev_now = now_nanos (k_wall K k), ev_caller = Some caller\<rparr>]"
  using assms that
  by (auto simp: set_by_hand_def now_f64_def Let_def steer_leaves_time split: if_splits sum.splits prod.splits)

lemma set_by_hand_moves:
  assumes "set_by_hand K build_epoch seconds nanos caller tm = (Inr (), tm')" "sets_offset K" "leaves_time K"
    and t: "0 \<le> k_wall K (tm_kernel tm)" "k_wall K (tm_kernel tm) < (2 ^ 32 - 2) * 1000000000"
    and asked: "0 \<le> seconds" "seconds < 2 ^ 32 - 2" "unat nanos < 1000000000"
    and floor: "0 < build_epoch" "build_epoch < 2 ^ 32"
  shows "\<bar>k_wall K (tm_kernel tm') - (seconds * 1000000000 + int (unat nanos))\<bar> \<le> 1500"
    and "build_epoch * 1000000000 - 1000 \<le> k_wall K (tm_kernel tm')"
proof -
  obtain k where k: "k_wall K (tm_kernel tm') = k_wall K k"
    and step: "clock_step K build_epoch (fsub (now_f64 (seconds, uint nanos)) (wall K tm)) (tm_kernel tm) = (Inr (), k)"
    using set_by_hand_done [OF assms(1,3)] by metis
  obtain s0 n0 where now: "clock_now (k_wall K (tm_kernel tm)) = (s0, n0)" by fastforce
  note t0 = clock_now_value [OF now t(1)]
  then have s0: "s0 < 2 ^ 32 - 2" using t(2) by simp
  have u: "uint nanos = int (unat nanos)" by simp
  then have n: "0 \<le> uint nanos" "uint nanos < 1000000000" using asked(3) by linarith+
  have s0': "0 \<le> s0" "0 \<le> n0" "n0 < 1000000000" "k_wall K (tm_kernel tm) = s0 * 1000000000 + n0" using t0 by simp_all
  note v = manual_step_value [OF s0'(1) s0 s0'(2,3) asked(1,2) n]
  let ?by = "fsub (now_f64 (seconds, uint nanos)) (now_f64 (s0, n0))"
  have w: "k_wall K (tm_kernel tm) < 2 ^ 53 * 1000000000" using t(2) by simp
  from step_moves [OF assms(2) step [unfolded now] t(1) w floor fsub_ok v(2)]
  have m: "\<bar>of_int (k_wall K k - k_wall K (tm_kernel tm)) - val ?by * 1000000000\<bar> \<le> 2"
    and "build_epoch * 1000000000 - 1000 \<le> k_wall K k" by blast+
  then show "build_epoch * 1000000000 - 1000 \<le> k_wall K (tm_kernel tm')" using k by simp
  have d: "of_int (k_wall K k - (seconds * 1000000000 + uint nanos)) =
      (of_int (k_wall K k - k_wall K (tm_kernel tm)) - val ?by * 1000000000)
      + (val ?by - ((of_int seconds + of_int (uint nanos) / 1000000000) - (of_int s0 + of_int n0 / 1000000000))) * 1000000000"
    by (simp add: s0'(4) algebra_simps)
  have "\<bar>rat_of_int (k_wall K k - (seconds * 1000000000 + uint nanos))\<bar> \<le> 1500"
    unfolding d using m v(1) by (rule within_1500)
  then have "\<bar>k_wall K k - (seconds * 1000000000 + uint nanos)\<bar> \<le> 1500" by (simp only: of_int_abs [symmetric] of_int_le_numeral_iff)
  then show "\<bar>k_wall K (tm_kernel tm') - (seconds * 1000000000 + int (unat nanos))\<bar> \<le> 1500" using k by simp
qed

text \<open>
  C30: a clock set by hand reads what the person said, to within two microseconds, and is never left
  more than a microsecond before the build floor; it is set only while \<open>Automatic\<close> is 0, and the
  record of it names the caller and both readings. The kernel is assumed to apply an accepted offset
  exactly and to move the clock for nothing else; the clock before it, the time that is set and the
  build floor are assumed to lie between 1970 and 2106.
\<close>
theorem set_by_hand_lands:
  assumes "set_by_hand K build_epoch seconds nanos caller tm = (Inr (), tm')" "sets_offset K" "leaves_time K"
    and "0 \<le> k_wall K (tm_kernel tm)" "k_wall K (tm_kernel tm) < (2 ^ 32 - 2) * 1000000000"
    and "0 \<le> seconds" "seconds < 2 ^ 32 - 2" "unat nanos < 1000000000"
    and "0 < build_epoch" "build_epoch < 2 ^ 32"
  shows "\<bar>k_wall K (tm_kernel tm') - (seconds * 1000000000 + int (unat nanos))\<bar> \<le> 2000
    \<and> build_epoch * 1000000000 - 1000 \<le> k_wall K (tm_kernel tm')
    \<and> \<not> cf_automatic (tm_config tm)
    \<and> tm_events tm' = tm_events tm @ [\<lparr>ev_step = StepManual, ev_previous = wall_nanos K tm,
         ev_now = wall_nanos K tm', ev_caller = Some caller\<rparr>]"
proof -
  obtain k where "\<not> cf_automatic (tm_config tm)" "k_wall K (tm_kernel tm') = k_wall K k"
    "tm_events tm' = tm_events tm @ [\<lparr>ev_step = StepManual, ev_previous = wall_nanos K tm,
       ev_now = now_nanos (k_wall K k), ev_caller = Some caller\<rparr>]"
    by (rule set_by_hand_done [OF assms(1,3)])
  with set_by_hand_moves [OF assms] show ?thesis by simp
qed

lemma plain_kernel_leaves_time: "leaves_time plain_kernel"
  by (auto simp: leaves_time_def plain_kernel_def ADJ_SETOFFSET_def ADJ_NANO_def split: if_splits)

theorem set_by_hand_lands_witness:
  "\<exists>tm'. set_by_hand plain_kernel 1700000000 1800000000 0 [1] (manual_daemon\<lparr>tm_kernel := 1750000000000000000\<rparr>) = (Inr (), tm')
    \<and> \<bar>k_wall plain_kernel (tm_kernel tm') - 1800000000000000000\<bar> \<le> 2000"
proof -
  let ?tm = "manual_daemon\<lparr>tm_kernel := 1750000000000000000\<rparr>"
  have "\<exists>tm'. set_by_hand plain_kernel 1700000000 1800000000 0 [1] ?tm = (Inr (), tm')"
    by (simp add: set_by_hand_def manual_daemon_state manual_config_def now_f64_def lit_billion clock_step_def
        plain_kernel_def clock_now_def adjtimex_def step_timex_def timex_zeroed_def div_euclid1_def rem_euclid1_def
        f_of_int_def fround_def rnd_eval flt_def rat_trunc_def i64_min_def i64_max_def fsub_def Let_def)
  then obtain tm' where s: "set_by_hand plain_kernel 1700000000 1800000000 0 [1] ?tm = (Inr (), tm')" by blast
  have "\<bar>k_wall plain_kernel (tm_kernel tm') - (1800000000 * 1000000000 + int (unat (0 :: u32)))\<bar> \<le> 2000"
    using set_by_hand_lands [OF s plain_kernel_sets_offset plain_kernel_leaves_time] by (simp add: plain_kernel_def)
  with s show ?thesis by auto
qed

section \<open>Decisions\<close>

lemma set_states_nth:
  "i < length es \<Longrightarrow> en_state (set_states st ids es ! i) = (if i \<in> set ids then st else en_state (es ! i))"
  unfolding set_states_def
proof (induction ids arbitrary: es)
  case (Cons j ids)
  then show ?case by (cases "i = j") (auto simp: nth_list_update)
qed simp

lemma put_in_effect_states: "map en_state (tm_entries (put_in_effect K be sel now w tm)) = map en_state (tm_entries tm)"
proof -
  have "map en_state (map (on_source g) es) = map en_state es" "map en_state (map (\<lambda>e. e\<lparr>en_fresh := b\<rparr>) es) = map en_state es"
    for g es b by (simp_all add: on_source_def)
  then show ?thesis
    by (simp add: put_in_effect_def on_entries_def Let_def apply_offset_frame del: map_map)
qed

text \<open>The state a selection gives the entry at an index.\<close>

definition state_given :: "selection \<Rightarrow> nat set \<Rightarrow> nat \<Rightarrow> entry \<Rightarrow> source_state" where
  "state_given sel ids i e =
     (if i = sel_system_peer sel then SystemPeer
      else if i \<in> set (sel_survivors sel) then CandidateState
      else if i \<in> set (sel_falsetickers sel) then Falseticker
      else if i \<in> ids then Outlier
      else if is_reachable (en_source e) then Unusable else Unreachable)"

lemma mark_states_nth:
  assumes "i < length es"
  shows "en_state (mark_states sel cs (map fall_back_state es) ! i) = state_given sel (set (map c_id cs)) i (es ! i)"
  using assms
  by (auto simp: mark_states_def set_states_nth set_states_sources state_given_def clustered_out_def fall_back_state_def)

text \<open>
  C9: a decision, on every branch. Without a majority, or without a source fit to be used, the
  clock, the loop, the event log, the offset and the system peer stay as they were. With a selection the
  system peer is the one chosen, its index is an entry's, and every entry's state is the one the
  selection gives it: one system peer, candidates, falsetickers, outliers for every other source
  with measurements, and unusable or unreachable for the rest.
\<close>
theorem decide_outcome:
  "case select_sources (candidates (wall K tm) tm) (wall K tm) of
     Inl e \<Rightarrow> (let tm' = decide K build_epoch took now tm in
       tm_kernel tm' = tm_kernel tm \<and> tm_discipline tm' = tm_discipline tm \<and> tm_events tm' = tm_events tm
       \<and> tm_offset tm' = tm_offset tm \<and> tm_system_peer tm' = tm_system_peer tm)
   | Inr sel \<Rightarrow> (let tm' = decide K build_epoch took now tm in
       tm_system_peer tm' = Some (sel_system_peer sel) \<and> sel_system_peer sel < length (tm_entries tm')
       \<and> map en_state (tm_entries tm') =
         map (\<lambda>(i, e). state_given sel (set (map c_id (candidates (wall K tm) tm))) i e) (enumerate 0 (tm_entries tm)))"
proof (cases "select_sources (candidates (wall K tm) tm) (wall K tm)")
  case (Inl e)
  then show ?thesis
    by (cases e) (simp_all add: decide_def Let_def on_entries_def publish_def)
next
  case (Inr sel)
  let ?w = "wall K tm"
  have d: "decide K build_epoch took now tm = publish K took (put_in_effect K build_epoch sel now ?w (selected_state K ?w sel tm))"
    using Inr by (cases rule: decide_cases [of K tm build_epoch took now]) simp_all
  have "map en_state (tm_entries (selected_state K ?w sel tm)) =
      map (\<lambda>(i, e). state_given sel (set (map c_id (candidates ?w tm))) i e) (enumerate 0 (tm_entries tm))"
    by (rule nth_equalityI)
      (simp_all add: selected_state_def follow_peer_def Let_def mark_states_sources mark_states_nth nth_enumerate_eq)
  then show ?thesis
    using Inr selection_in_range(1) [OF Inr]
    by (simp add: d put_in_effect_states put_in_effect_frame selected_state_sources Let_def)
qed

section \<open>After a step\<close>

lemma no_samples_no_candidates:
  "list_all (\<lambda>e. held (src_filter (en_source e)) = []) (tm_entries tm) \<Longrightarrow> candidates w tm = []"
proof -
  assume a: "list_all (\<lambda>e. held (src_filter (en_source e)) = []) (tm_entries tm)"
  have "candidate_of w p = None" if "p \<in> set (enumerate 0 (tm_entries tm))" for p
  proof -
    obtain i e where p: "p = (i, e)" by (cases p)
    then have "e \<in> set (tm_entries tm)" using that by (auto simp: in_set_enumerate_eq)
    then show ?thesis
      using a by (simp add: p candidate_of_def source_filtered_def filter_peek_def rank_samples_def list_all_iff Let_def)
  qed
  then show ?thesis by (simp add: candidates_def List.map_filter_def)
qed

text \<open>
  C28: putting an offset into effect either records no step, or leaves no source a measurement of
  the clock that is gone: every filter is empty, no decision finds a candidate until new replies
  arrive, and the loop has forgotten its phase. The exchanges in flight are not forgotten: their
  transmit times are still those of the old clock.
\<close>
theorem step_forgets_measurements:
  "tm_events (apply_offset K build_epoch offset now w tm) = tm_events tm
   \<or> (let tm' = apply_offset K build_epoch offset now w tm in
        list_all (\<lambda>e. held (src_filter (en_source e)) = []) (tm_entries tm')
        \<and> candidates w' tm' = [] \<and> d_last_update (tm_discipline tm') = None
        \<and> map (\<lambda>e. src_pending (en_source e)) (tm_entries tm') = map (\<lambda>e. src_pending (en_source e)) (tm_entries tm))"
proof (cases "tm_events (apply_offset K build_epoch offset now w tm) = tm_events tm")
  case False
  let ?tm = "apply_offset K build_epoch offset now w tm"
  have "list_all (\<lambda>e. held (src_filter (en_source e)) = []) (tm_entries ?tm)"
    "d_last_update (tm_discipline ?tm) = None"
    "map (\<lambda>e. src_pending (en_source e)) (tm_entries ?tm) = map (\<lambda>e. src_pending (en_source e)) (tm_entries tm)"
    using False
    by (auto simp: apply_offset_def steer_def after_step_def reset_phase_def held_simps list_all_iff Let_def comp_def
        split: prod.splits adjustment.splits sum.splits)
  then show ?thesis using no_samples_no_candidates [of ?tm w'] by (simp add: Let_def)
qed simp

section \<open>The list of sources\<close>

definition permitted :: "config \<Rightarrow> server_spec \<Rightarrow> bool" where
  "permitted c spec \<longleftrightarrow> \<not> sp_unauthenticated spec \<or> cf_allow_unauthenticated c"

lemma place_specs_specs: "map en_spec (place_specs c og specs kept out) = map en_spec out @ filter (permitted c) specs"
  by (induction specs arbitrary: kept out) (auto simp: permitted_def new_entry_def split: option.splits)

lemma place_specs_origins:
  "list_all (\<lambda>e. en_origin e = og) out \<Longrightarrow> list_all (\<lambda>e. en_origin e = og) (place_specs c og specs kept out)"
  by (induction specs arbitrary: kept out) (auto simp: new_entry_def split: option.splits)

lemma place_specs_origin_list:
  "map en_origin (place_specs c og specs kept []) = map (\<lambda>_. og) (filter (permitted c) specs)"
proof -
  have "map en_origin es = map (\<lambda>_. og) (map en_spec es)" if "list_all (\<lambda>e. en_origin e = og) es" for es
    using that by (induction es) simp_all
  from this [of "place_specs c og specs kept []"] place_specs_origins [of og "[]" c specs kept]
  show ?thesis by (simp only: place_specs_specs) simp
qed

text \<open>
  C14: rebuilt while the clock is kept from its sources, the table holds exactly the servers the
  settings choose, in their order, without those that must not be used because they are marked
  unauthenticated and the settings do not allow it. The servers come from one place only, and each
  entry names it: from the registry whenever it names any; else from the network's lease, if the
  settings let it and it offered any (each then unauthenticated, on the usual port); else the names
  compiled in.
\<close>
theorem table_is_the_permitted_servers:
  assumes "cf_automatic (tm_config tm)"
  shows "(map en_spec (tm_entries (rebuild_sources tm)), map en_origin (tm_entries (rebuild_sources tm))) =
    (let chosen =
       (if cf_servers (tm_config tm) \<noteq> [] then (cf_servers (tm_config tm), OriginRegistry)
        else if cf_use_from_dhcp (tm_config tm) \<and> tm_dhcp_servers tm \<noteq> []
        then (map (\<lambda>host. \<lparr>sp_host = host, sp_port = None, sp_prefer = False, sp_unauthenticated = True\<rparr>)
               (tm_dhcp_servers tm), OriginDhcp)
        else (map server_spec_new FALLBACK_SERVERS, OriginFallback));
       specs = filter (\<lambda>spec. sp_unauthenticated spec \<longrightarrow> cf_allow_unauthenticated (tm_config tm)) (fst chosen)
     in (specs, map (\<lambda>_. snd chosen) specs))"
proof -
  have "permitted c = (\<lambda>spec. sp_unauthenticated spec \<longrightarrow> cf_allow_unauthenticated c)" for c
    by (auto simp: permitted_def)
  then show ?thesis
    using assms
    by (simp add: rebuild_sources_def place_specs_specs place_specs_origin_list chosen_specs_def chosen_origin_def
        has_explicit_servers_def dhcp_chosen_def fallback_def Let_def)
qed

theorem table_is_the_permitted_servers_witness:
  "map en_spec (tm_entries (rebuild_sources (demo_daemon\<lparr>tm_config := config_default\<lparr>cf_servers :=
      [server_spec_new ''a'', (server_spec_new ''b'')\<lparr>sp_unauthenticated := True\<rparr>]\<rparr>\<rparr>))) = [server_spec_new ''a'']"
  using table_is_the_permitted_servers [of "demo_daemon\<lparr>tm_config := config_default\<lparr>cf_servers :=
      [server_spec_new ''a'', (server_spec_new ''b'')\<lparr>sp_unauthenticated := True\<rparr>]\<rparr>\<rparr>"]
  by (simp add: config_default_def server_spec_new_def Let_def)

lemma place_specs_mem: "e \<in> set out \<Longrightarrow> e \<in> set (place_specs c og specs kept out)"
  by (induction specs arbitrary: kept out) (auto split: option.splits)

lemma place_specs_kept:
  assumes "sp_host spec \<notin> sp_host ` set pre" "permitted c spec" "kept (sp_host spec) = Some e"
  shows "e\<lparr>en_spec := spec, en_origin := og\<rparr> \<in> set (place_specs c og (pre @ spec # post) kept out)"
  using assms
proof (induction pre arbitrary: kept out)
  case Nil
  then show ?case by (auto simp: permitted_def intro!: place_specs_mem)
next
  case (Cons p pre)
  then show ?case by (auto split: option.splits)
qed

section \<open>Strangers\<close>

text \<open>The reasons for which a datagram is no answer to the request in flight.\<close>

fun is_refusal :: "rejected \<Rightarrow> bool" where
  "is_refusal (Malformed e) = True"
| "is_refusal NotAReply = True"
| "is_refusal WrongOrigin = True"
| "is_refusal WrongIdentifier = True"
| "is_refusal BadTag = True"
| "is_refusal _ = False"

lemma check_nts_refusal: "check_nts A p packet bs s = Inl e \<Longrightarrow> is_refusal e"
  by (auto simp: check_nts_def verify_def Let_def split: option.splits if_splits sum.splits)

definition answered_by :: "aead \<Rightarrow> bytes \<Rightarrow> source \<Rightarrow> bool" where
  "answered_by A bs s \<longleftrightarrow> (\<exists>p packet. src_pending s = Some p \<and> answers A p bs packet)"

lemma accept_refused:
  assumes "source_accept A bs dest now s = (s', r)" "\<not> answered_by A bs s"
  shows "s' = s \<and> (\<exists>e. r = Inl e \<and> is_refusal e)"
proof (cases "src_pending s")
  case None
  then show ?thesis using assms(1) by (auto simp: source_accept_def)
next
  case (Some p)
  show ?thesis
  proof (cases "packet_decode bs")
    case (Inl e)
    then show ?thesis using assms(1) Some by (auto simp: source_accept_def)
  next
    case (Inr packet)
    show ?thesis
    proof (cases "check_nts A p packet bs s")
      case (Inl e)
      then show ?thesis
        using assms(1) Some Inr check_nts_refusal [OF Inl] by (auto simp: source_accept_def split: if_splits)
    next
      case (Inr s1)
      have "\<not> answers A p bs packet" using assms(2) Some by (auto simp: answered_by_def)
      then have "pk_mode packet \<noteq> Server \<or> pk_version packet \<noteq> VERSION \<or> pk_origin_timestamp packet \<noteq> pd_transmit p"
        using check_nts_ok(1) [OF Inr] \<open>packet_decode bs = Inr packet\<close> unfolding answers_def by blast
      then show ?thesis
        using assms(1) Some \<open>packet_decode bs = Inr packet\<close> by (auto simp: source_accept_def split: if_splits)
    qed
  qed
qed

lemma take_entry_reply_refused:
  assumes "source_accept A bytes dest now (en_source e) = (en_source e, Inl why)" "is_refusal why"
  shows "take_entry_reply A draw1 draw2 at_wall bytes dest now e =
    (on_source (\<lambda>s. s\<lparr>src_note := if why = WrongOrigin then src_note (en_source e) else Some (NoteRejected why)\<rparr>) e,
     False, False)"
  using assms(2) by (cases why) (simp_all add: take_entry_reply_def on_source_def assms(1))

text \<open>
  C8: a datagram that answers no request in flight to the server it claims to come from changes
  nothing but, at most, the note shown for that source: not its filter, its reach, its cookies or
  its schedule, and neither the clock, the loop, the files nor the events.
\<close>
theorem stranger_changes_nothing:
  assumes "list_all (\<lambda>e. \<not> (sender from_addr e \<and> answered_by A bytes (en_source e))) (tm_entries tm)"
  shows "\<exists>i n. take_reply K A draw1 draw2 bytes from_addr destination now tm =
    (False, on_entry i (on_source (\<lambda>s. s\<lparr>src_note := n\<rparr>)) tm)"
proof -
  let ?i = "length (takeWhile (\<lambda>e. \<not> sender from_addr e) (tm_entries tm))"
  show ?thesis
  proof (cases "?i < length (tm_entries tm)")
    case False
    then have "take_reply K A draw1 draw2 bytes from_addr destination now tm = (False, tm)"
      by (simp add: take_reply_def Let_def)
    moreover have "on_entry (length (tm_entries tm)) g tm = tm" for g
      by (simp add: on_entry_def list_update_beyond)
    ultimately show ?thesis by metis
  next
    case True
    let ?e = "tm_entries tm ! ?i"
    have "sender from_addr ?e" using nth_length_takeWhile [OF True] by simp
    moreover have "?e \<in> set (tm_entries tm)" using True by simp
    ultimately have "\<not> answered_by A bytes (en_source ?e)" using assms by (auto simp: list_all_iff)
    moreover obtain s r where a: "source_accept A bytes destination now (en_source ?e) = (s, r)"
      by (cases "source_accept A bytes destination now (en_source ?e)")
    ultimately obtain why where w: "s = en_source ?e" "r = Inl why" "is_refusal why"
      using accept_refused by blast
    have t: "take_entry_reply A draw1 draw2 (wall K tm) bytes destination now ?e =
        (on_source (\<lambda>s. s\<lparr>src_note := if why = WrongOrigin then src_note (en_source ?e) else Some (NoteRejected why)\<rparr>) ?e,
         False, False)"
      using a w(1,2,3) by (intro take_entry_reply_refused) simp_all
    have "take_reply K A draw1 draw2 bytes from_addr destination now tm = (False, on_entry ?i (on_source (\<lambda>s. s\<lparr>src_note :=
        if why = WrongOrigin then src_note (en_source ?e) else Some (NoteRejected why)\<rparr>)) tm)"
      using True by (simp add: take_reply_def t on_entry_def Let_def)
    then show ?thesis by blast
  qed
qed

theorem stranger_changes_nothing_witness:
  "\<exists>i n. take_reply plain_kernel toy_aead None None [1, 2, 3] (SocketAddr (V4 [192, 0, 2, 1]) 123) (2 ^ 31) fzero demo_daemon =
     (False, on_entry i (on_source (\<lambda>s. s\<lparr>src_note := n\<rparr>)) demo_daemon)"
proof -
  have "packet_decode [1, 2, 3] \<noteq> Inr packet" for packet by (simp add: packet_decode_def HEADER_LEN_def)
  then show ?thesis
    by (intro stranger_changes_nothing) (simp add: demo_daemon_def answered_by_def answers_def)
qed

section \<open>How long the loop sleeps\<close>

lemma fmin_not_nan: "\<not> is_nan x \<Longrightarrow> \<not> is_nan (fmin x y)"
  by (simp add: fmin_def)

lemma fsub_not_nan: "\<not> is_nan x \<Longrightarrow> is_finite y \<Longrightarrow> \<not> is_nan (fsub x y)"
  by (cases x; cases y) (auto simp: fsub_def)

text \<open>
  The loop never sleeps less than a twentieth of a second nor more than a minute, nor more than
  a quarter of a second while the worker has a job, whatever deadlines the sources hold; so the
  wait the length is turned into never panics.
\<close>
theorem sleep_is_bounded:
  assumes "is_finite now"
  shows "fle (lit (5 / 100)) (next_deadline now tm)
    \<and> fle (next_deadline now tm) (if busy (tm_worker tm) then lit (1 / 4) else lit 60)
    \<and> is_finite (next_deadline now tm)"
proof -
  have "\<not> is_nan (fold (entry_deadline now) es x)" if "\<not> is_nan x" for es x
    using that by (induction es arbitrary: x) (auto simp: entry_deadline_def fmin_not_nan)
  moreover have "\<not> is_nan (fadd now (lit 60))" by (rule fadd_not_nan [OF assms]) (simp add: rnd_eval)
  ultimately have "\<not> is_nan (fsub (let soonest = fold (entry_deadline now) (tm_entries tm) (fadd now (lit 60))
      in if \<not> tm_tls tm then fmin soonest (fmax (tm_roots_after tm) now) else soonest) now)"
    by (intro fsub_not_nan [OF _ assms]) (simp add: Let_def fmin_not_nan)
  then obtain x where x: "\<not> is_nan x"
      "next_deadline now tm = fclamp x (lit (5 / 100)) (if busy (tm_worker tm) then lit (1 / 4) else lit 60)"
    unfolding next_deadline_def Let_def by blast
  have c: "fle (lit (5 / 100)) (if busy (tm_worker tm) then lit (1 / 4) else lit 60)"
    "is_finite (lit (5 / 100))" "is_finite (if busy (tm_worker tm) then lit (1 / 4) else lit 60)"
    by (simp_all add: fle_def rnd_eval)
  show ?thesis
    unfolding x(2) using fclamp_bounds [OF x(1) c(1)] fclamp_finite [OF x(1) c] by blast
qed

theorem sleep_is_bounded_witness:
  "fle (lit (5 / 100)) (next_deadline fzero demo_daemon) \<and> is_finite (next_deadline fzero demo_daemon)"
  using sleep_is_bounded [of fzero demo_daemon] by simp

end
