(* ===== verification/Shortfalls.thy ===== *)
theory Shortfalls
  imports Behaviour
begin

text \<open>
  Where the daemon (\<open>timed/src/main.rs\<close>) does not do what it means to: settings that reach a kept
  source only in part, a table shortened under the system peer, a source stranded by an outage, a
  server polled without pause. Each is a theorem about the model of the code as it is.
\<close>

section \<open>Settings and sources that are kept\<close>

text \<open>
  A source that was asked without authentication goes on being asked so after the operator
  takes the option \<open>unauthenticated\<close> off its server, whether or not the settings allow it: a kept
  entry takes the new settings of its host but keeps the security it was made with.
\<close>
theorem dropped_option_keeps_source_unauthenticated:
  assumes "cf_automatic (tm_config tm)" "chosen_specs tm = pre @ spec # post"
    and "sp_host spec \<notin> sp_host ` set pre" "\<not> sp_unauthenticated spec"
    and "kept_by_host (tm_entries tm) (sp_host spec) = Some e" "src_security (en_source e) = Unauthenticated"
  shows "\<exists>e'\<in>set (tm_entries (rebuild_sources tm)). en_spec e' = spec
    \<and> src_security (en_source e') = Unauthenticated \<and> can_poll (en_source e')"
proof -
  have "e\<lparr>en_spec := spec, en_origin := chosen_origin tm\<rparr> \<in> set (tm_entries (rebuild_sources tm))"
    using place_specs_kept [of spec pre "tm_config tm" "kept_by_host (tm_entries tm)" e "chosen_origin tm" post "[]"] assms
    by (simp add: rebuild_sources_def permitted_def)
  then show ?thesis using assms(6) by (intro bexI) (simp_all add: can_poll_def)
qed

theorem dropped_option_keeps_source_unauthenticated_witness:
  "\<exists>e'. e' \<in> set (tm_entries (rebuild_sources (demo_daemon\<lparr>tm_config := config_default\<lparr>cf_servers := [server_spec_new ''ntp'']\<rparr>\<rparr>)))
     \<and> en_spec e' = server_spec_new ''ntp'' \<and> src_security (en_source e') = Unauthenticated"
proof -
  let ?tm = "demo_daemon\<lparr>tm_config := config_default\<lparr>cf_servers := [server_spec_new ''ntp'']\<rparr>\<rparr>"
  have "\<exists>e'\<in>set (tm_entries (rebuild_sources ?tm)). en_spec e' = server_spec_new ''ntp''
      \<and> src_security (en_source e') = Unauthenticated \<and> can_poll (en_source e')"
    by (rule dropped_option_keeps_source_unauthenticated [where pre = "[]" and post = "[]" and e = demo_entry])
      (simp_all add: config_default_def chosen_specs_def has_explicit_servers_def server_spec_new_def demo_daemon_def
        kept_by_host_def demo_entry_def demo_source_def source_new_def Let_def)
  then show ?thesis by blast
qed

text \<open>
  C35: when the settings come to name fewer servers than the index of the system peer, rebuilding
  the table leaves that index behind, and the next request for the status indexes past the end
  of the table: the daemon panics.
\<close>
theorem shorter_table_panics_status:
  assumes "cf_automatic (tm_config tm)" "tm_system_peer tm = Some i"
    and "length (filter (permitted (tm_config tm)) (chosen_specs tm)) \<le> i"
  shows "status build_epoch now (rebuild_sources tm) = None"
proof -
  have "map en_spec (tm_entries (rebuild_sources tm)) = filter (permitted (tm_config tm)) (chosen_specs tm)"
    using assms(1) by (simp add: rebuild_sources_def place_specs_specs)
  from arg_cong [OF this, of length] have "length (tm_entries (rebuild_sources tm)) \<le> i" using assms(3) by simp
  moreover have "tm_system_peer (rebuild_sources tm) = Some i" using assms(1,2) by (simp add: rebuild_sources_def)
  ultimately show ?thesis by (simp add: status_def)
qed

theorem shorter_table_panics_status_witness:
  "status 0 fzero (rebuild_sources (demo_daemon\<lparr>tm_config := config_default\<lparr>cf_servers := [server_spec_new ''a'']\<rparr>,
     tm_entries := [demo_entry, demo_entry], tm_system_peer := Some 1\<rparr>)) = None"
  by (rule shorter_table_panics_status [where i = 1])
    (simp_all add: config_default_def chosen_specs_def has_explicit_servers_def permitted_def server_spec_new_def)

section \<open>An outage\<close>

text \<open>
  One round of it: the source is polled if it is due, and the request times out. The second
  component counts the requests that were sent.
\<close>

record outage_round =
  rd_stamp :: ntp_timestamp
  rd_luck :: poll_luck
  rd_draw :: "u64 option"
  rd_poll :: f64
  rd_expire :: f64

definition outage_step :: "aead \<Rightarrow> outage_round \<Rightarrow> entry \<times> nat \<Rightarrow> entry \<times> nat" where
  "outage_step A r p =
     (case p of (e, requests) \<Rightarrow>
        case (if is_due (rd_poll r) e then send_poll A (rd_stamp r) True (rd_luck r) (rd_poll r) e else (e, None)) of
          (e, sent) \<Rightarrow> (expire_entry (rd_draw r) (rd_expire r) e, if sent = None then requests else requests + 1))"

text \<open>The keys stay, and each request sent has cost a cookie at least.\<close>

definition spent :: "nts_keys \<Rightarrow> bytes list \<Rightarrow> f64 \<Rightarrow> entry \<times> nat \<Rightarrow> bool" where
  "spent keys cookies rekey p \<longleftrightarrow> (\<exists>k. src_security (en_source (fst p)) = NtsKeyed keys (take k cookies)
     \<and> k \<le> length cookies \<and> k + snd p \<le> length cookies) \<and> en_rekey_after (fst p) = rekey"

lemma butlast_take_le: "k \<le> length xs \<Longrightarrow> take k xs \<noteq> [] \<Longrightarrow> butlast (take k xs) = take (k - 1) xs \<and> 0 < k"
  by (auto simp: butlast_take)

lemma rotate_address_keeps: "src_security (en_source (rotate_address e)) = src_security (en_source e)"
    "en_rekey_after (rotate_address e) = en_rekey_after e"
  by (simp_all add: rotate_address_def on_source_def Let_def)

lemma expire_entry_keeps: "src_security (en_source (expire_entry d t e)) = src_security (en_source e)"
    "en_rekey_after (expire_entry d t e) = en_rekey_after e"
  by (simp_all add: expire_entry_def rotate_address_keeps on_source_def record_loss_def schedule_def Let_def)

lemma send_poll_keyed:
  assumes "send_poll A w True luck t e = (e', sent)" "src_security (en_source e) = NtsKeyed keys cs"
  shows "en_rekey_after e' = en_rekey_after e \<and> (src_security (en_source e') = NtsKeyed keys cs \<and> sent = None
     \<or> cs \<noteq> [] \<and> src_security (en_source e') = NtsKeyed keys (butlast cs))"
  using assms
  by (auto simp: send_poll_def prepare_def Let_def schedule_def on_source_def rotate_address_keeps
      split: option.splits if_splits sum.splits prod.splits)

lemma spent_step: "spent keys cookies rekey p \<Longrightarrow> spent keys cookies rekey (outage_step A r p)"
proof (cases p)
  case (Pair e n)
  assume "spent keys cookies rekey p"
  then obtain k where k: "src_security (en_source e) = NtsKeyed keys (take k cookies)" "k \<le> length cookies"
      "k + n \<le> length cookies" "en_rekey_after e = rekey"
    by (auto simp: spent_def Pair)
  show ?thesis
  proof (cases "is_due (rd_poll r) e")
    case False
    then show ?thesis using k by (auto simp: Pair outage_step_def spent_def expire_entry_keeps)
  next
    case True
    obtain e' sent where s: "send_poll A (rd_stamp r) True (rd_luck r) (rd_poll r) e = (e', sent)" by (cases "send_poll A (rd_stamp r) True (rd_luck r) (rd_poll r) e")
    from send_poll_keyed [OF s k(1)] k(4) have rk: "en_rekey_after e' = rekey" by simp
    from send_poll_keyed [OF s k(1)] show ?thesis
    proof (elim conjE disjE)
      assume "src_security (en_source e') = NtsKeyed keys (take k cookies)" "sent = None"
      then show ?thesis using k True s rk by (auto simp: Pair outage_step_def spent_def expire_entry_keeps)
    next
      assume "take k cookies \<noteq> []" "src_security (en_source e') = NtsKeyed keys (butlast (take k cookies))"
      moreover from this(1) butlast_take_le [OF k(2)] have "butlast (take k cookies) = take (k - 1) cookies" "0 < k" by simp_all
      ultimately show ?thesis using k True s rk
        by (auto simp: Pair outage_step_def spent_def expire_entry_keeps intro!: exI [of _ "k - 1"])
    qed
  qed
qed

lemma spent_outage: "spent keys cookies rekey p \<Longrightarrow> spent keys cookies rekey (fold (outage_step A) rounds p)"
  by (induction rounds arbitrary: p) (simp_all add: spent_step)

lemma no_cookies_no_work:
  assumes "src_security (en_source e) = NtsKeyed keys []" "\<not> flt (en_rekey_after e) now"
  shows "\<not> is_due now e"
    "snd (maintain_entry now tls i e) \<noteq> Some (JobHandshake j host canonical addresses)"
  using assms by (auto simp: is_due_def can_poll_def maintain_entry_def needs_keys_def)

text \<open>
  C36: an NTS source whose replies are lost, in an outage of the network, spends a cookie on every
  request and is stranded once it has sent as many as it held: until its keys are due for renewal, a
  day after they were made, it is never polled, because it has no cookie, and no handshake is asked
  for, because it has keys, so it stays unused long after the network is back.
\<close>
theorem outage_strands_nts_source:
  assumes "src_security (en_source e) = NtsKeyed keys cookies"
    and "fold (outage_step A) rounds (e, 0) = (e', length cookies)" "\<not> flt (en_rekey_after e) now"
  shows "src_security (en_source e') = NtsKeyed keys [] \<and> \<not> is_due now e'
    \<and> snd (maintain_entry now tls i e') \<noteq> Some (JobHandshake j host canonical addresses)"
proof -
  have "spent keys cookies (en_rekey_after e) (e, 0)"
    using assms(1) by (auto simp: spent_def intro!: exI [of _ "length cookies"])
  from spent_outage [OF this, of A rounds] have s: "src_security (en_source e') = NtsKeyed keys []"
      "en_rekey_after e' = en_rekey_after e"
    by (auto simp: assms(2) spent_def)
  then show ?thesis using no_cookies_no_work [of e' keys now] assms(3) by simp
qed

definition keyed_entry :: entry where
  "keyed_entry = demo_entry\<lparr>en_source := demo_source\<lparr>src_pending := None,
     src_security := NtsKeyed \<lparr>c2s = [3], s2c = [4]\<rparr> [[7, 7]]\<rparr>, en_rekey_after := lit 86400\<rparr>"

definition lost_round :: outage_round where
  "lost_round = \<lparr>rd_stamp = 0, rd_luck = \<lparr>pl_draws = \<lparr>dr_transmit = Some 5, dr_unique_id = Some [1], dr_nonce = Some [2]\<rparr>,
     pl_jitter = None, pl_send_error = None\<rparr>, rd_draw = None, rd_poll = fzero, rd_expire = fzero\<rparr>"

lemma lost_round_sends: "\<exists>e'. fold (outage_step toy_aead) [lost_round] (keyed_entry, 0) = (e', 1)"
proof -
  have "is_due fzero keyed_entry"
    by (simp add: is_due_def keyed_entry_def demo_entry_def can_poll_def demo_source_def source_new_def Let_def flt_def)
  moreover have "\<exists>e' d. send_poll toy_aead 0 True (rd_luck lost_round) fzero keyed_entry = (e', Some d)"
    by (simp add: send_poll_def keyed_entry_def lost_round_def prepare_def prepare_nts_def seal_authenticator_def
        toy_aead_def Let_def)
  then obtain e' d where "send_poll toy_aead 0 True (rd_luck lost_round) fzero keyed_entry = (e', Some d)" by blast
  ultimately show ?thesis by (simp add: outage_step_def lost_round_def)
qed

theorem outage_strands_nts_source_witness:
  "\<exists>e'. fold (outage_step toy_aead) [lost_round] (keyed_entry, 0) = (e', 1) \<and> \<not> is_due (lit 60) e'"
proof -
  obtain e' where e': "fold (outage_step toy_aead) [lost_round] (keyed_entry, 0) = (e', 1)" using lost_round_sends by blast
  have "src_security (en_source e') = NtsKeyed \<lparr>c2s = [3], s2c = [4]\<rparr> [] \<and> \<not> is_due (lit 60) e'
      \<and> snd (maintain_entry (lit 60) True 0 e') \<noteq> Some (JobHandshake 0 [] [] [])"
  proof (rule outage_strands_nts_source)
    show "fold (outage_step toy_aead) [lost_round] (keyed_entry, 0) = (e', length [[7, 7 :: 8 word]])" using e' by simp
  qed (simp_all add: keyed_entry_def flt_def rnd_eval)
  then show ?thesis using e' by blast
qed

section \<open>A server without the time\<close>

text \<open>A server that has lost its own time.\<close>

definition lost_reply :: ntp_packet where
  "lost_reply = packet_default\<lparr>pk_leap := Unsynchronised, pk_mode := Server, pk_stratum := 1,
     pk_origin_timestamp := 5, pk_receive_timestamp := 2 ^ 32, pk_transmit_timestamp := 2 ^ 32\<rparr>"

lemma lost_reply_rejected:
  "\<exists>s. source_accept A (packet_encode lost_reply) (2 ^ 31) fzero demo_source = (s, Inl ServerUnsynchronised)"
proof -
  have "packet_decode (packet_encode lost_reply) = Inr lost_reply"
    using packet_decode_encode [of lost_reply]
    by (simp add: lost_reply_def packet_default_def packet_ok_def VERSION_def reference_id_default_def
        no_mac_clash_def encode_eq length_header MAX_PACKET_def)
  then show ?thesis
    by (simp add: source_accept_def demo_source_def check_nts_def take_measurement_def is_kiss_of_death_def
        lost_reply_def packet_default_def Let_def)
qed

text \<open>
  A server that answers that it is not synchronised is asked again at once: its reply ends the
  exchange and is not rescheduled, so a source that was due when it was asked is due again at the
  moment the reply is taken, and is polled once per round trip for as long as the server says so.
\<close>
theorem unsynchronised_server_is_polled_again_at_once:
  assumes "source_accept A bytes destination now (en_source e) = (s, Inl ServerUnsynchronised)"
    and "src_security (en_source e) = Unauthenticated" "en_addresses e \<noteq> []"
    and "\<not> flt now (src_next_poll (en_source e))"
  shows "is_due now (fst (take_entry_reply A draw1 draw2 at_wall bytes destination now e))"
proof -
  have "answered_by A bytes (en_source e)" using accept_refused [OF assms(1)] by auto
  then obtain p packet where p: "src_pending (en_source e) = Some p" "answers A p bytes packet"
    by (auto simp: answered_by_def)
  then have a: "source_accept A bytes destination now (en_source e) =
      (case check_nts A p packet bytes (en_source e) of Inl why \<Rightarrow> (en_source e, Inl why)
       | Inr s1 \<Rightarrow> take_measurement p packet destination now s1)"
    by (simp add: source_accept_def answers_def)
  then obtain s1 where c: "check_nts A p packet bytes (en_source e) = Inr s1"
    using assms(1) check_nts_refusal by (cases "check_nts A p packet bytes (en_source e)") force+
  then have m: "take_measurement p packet destination now s1 = (s, Inl ServerUnsynchronised)"
    using a assms(1) by simp
  have s1: "src_next_poll s1 = src_next_poll (en_source e)" "src_security s1 = Unauthenticated"
    using check_nts_ok(2) [OF c] assms(2) by auto
  have "src_pending s = None" "src_next_poll s = src_next_poll s1" "src_security s = src_security s1"
    using m by (auto simp: take_measurement_def record_reply_def Let_def split: if_splits sum.splits)
  then show ?thesis
    using assms s1 by (simp add: take_entry_reply_def is_due_def can_poll_def on_source_def)
qed

theorem unsynchronised_server_is_polled_again_at_once_witness:
  "\<exists>s. source_accept toy_aead (packet_encode lost_reply) (2 ^ 31) fzero demo_source = (s, Inl ServerUnsynchronised)
     \<and> is_due fzero (fst (take_entry_reply toy_aead None None fzero (packet_encode lost_reply) (2 ^ 31) fzero demo_entry))"
proof -
  obtain s where s: "source_accept toy_aead (packet_encode lost_reply) (2 ^ 31) fzero demo_source = (s, Inl ServerUnsynchronised)"
    using lost_reply_rejected by blast
  have "is_due fzero (fst (take_entry_reply toy_aead None None fzero (packet_encode lost_reply) (2 ^ 31) fzero demo_entry))"
  proof (rule unsynchronised_server_is_polled_again_at_once)
    show "source_accept toy_aead (packet_encode lost_reply) (2 ^ 31) fzero (en_source demo_entry) = (s, Inl ServerUnsynchronised)"
      using s by (simp add: demo_entry_def)
  qed (simp_all add: demo_entry_def demo_source_def source_new_def Let_def flt_def)
  then show ?thesis using s by blast
qed

end
