(* ===== verification/NetdLink.thy ===== *)
theory NetdLink
  imports ExtField
begin

text \<open>
  The channel from the network manager (\<open>timed/src/netd_link.rs\<close>): connecting with a back-off, and the
  stream of framed replies put together again from whatever pieces the socket hands over. The manager's
  own protocol (its message limit and its decoder) is a library's: an argument.
\<close>

section \<open>State\<close>

text \<open>Times are in nanoseconds.\<close>

definition MIN_BACKOFF :: nat where "MIN_BACKOFF = 500 * 1000000"
definition MAX_BACKOFF :: nat where "MAX_BACKOFF = 10 * 1000000000"

record netd_link =
  nl_connected :: bool
  nl_buf :: bytes
  nl_next_try :: nat
  nl_backoff :: nat
  nl_warned :: bool

definition netd_new :: "nat \<Rightarrow> netd_link" where
  "netd_new now = \<lparr>nl_connected = False, nl_buf = [], nl_next_try = now, nl_backoff = MIN_BACKOFF, nl_warned = False\<rparr>"

definition netd_deadline :: "netd_link \<Rightarrow> nat option" where
  "netd_deadline l = (if \<not> nl_connected l then Some (nl_next_try l) else None)"

text \<open>\<open>accepted\<close> is whether the connection was made and the subscription sent.\<close>

definition netd_maintain :: "bool \<Rightarrow> nat \<Rightarrow> netd_link \<Rightarrow> netd_link" where
  "netd_maintain accepted now l =
     (if nl_connected l \<or> now < nl_next_try l then l
      else if accepted
      then l\<lparr>nl_connected := True, nl_buf := [], nl_backoff := MIN_BACKOFF, nl_warned := False\<rparr>
      else l\<lparr>nl_warned := True, nl_next_try := now + nl_backoff l, nl_backoff := min (nl_backoff l * 2) MAX_BACKOFF\<rparr>)"

section \<open>Reading\<close>

text \<open>What one call of \<open>read\<close> gave; no bytes is the end of the stream. A list that ends is a socket that would block.\<close>

datatype read_outcome = ReadSome bytes | ReadWouldBlock | ReadInterrupted | ReadFailed

fun read_socket :: "read_outcome list \<Rightarrow> bytes \<Rightarrow> bytes \<times> bool" where
  "read_socket [] buf = (buf, False)"
| "read_socket (ReadSome chunk # rs) buf = (if chunk = [] then (buf, True) else read_socket rs (buf @ chunk))"
| "read_socket (ReadWouldBlock # rs) buf = (buf, False)"
| "read_socket (ReadInterrupted # rs) buf = read_socket rs buf"
| "read_socket (ReadFailed # rs) buf = (buf, True)"

datatype 'snap netd_reply = NetdSnapshot 'snap | NetdError string | NetdOther

record 'snap netd_codec =
  nc_limit :: nat
  nc_decode :: "bytes \<Rightarrow> string + 'snap netd_reply"

text \<open>The loop over the complete frames: the snapshots, what is left, and whether the channel is lost.\<close>

function drain_frames :: "'snap netd_codec \<Rightarrow> bytes \<Rightarrow> 'snap list \<times> bytes \<times> bool" where
  "drain_frames C buf =
     (if length buf < 4 then ([], buf, False)
      else let len = unat (u32_from_le (take 4 buf)) in
        if nc_limit C < len then ([], buf, True)
        else if length buf < 4 + len then ([], buf, False)
        else case drain_frames C (drop (4 + len) buf) of (out, rest, lost) \<Rightarrow>
          (case nc_decode C (bslice 4 (4 + len) buf) of
             Inr (NetdSnapshot s) \<Rightarrow> (s # out, rest, lost)
           | Inr (NetdError e) \<Rightarrow> (out, rest, True)
           | Inr NetdOther \<Rightarrow> (out, rest, lost)
           | Inl e \<Rightarrow> (out, rest, True)))"
  by auto
termination by (relation "measure (\<lambda>(C, buf). length buf)") auto

declare drain_frames.simps [simp del]

definition netd_service :: "'snap netd_codec \<Rightarrow> read_outcome list \<Rightarrow> nat \<Rightarrow> netd_link \<Rightarrow> 'snap list \<times> netd_link" where
  "netd_service C reads now l =
     (if \<not> nl_connected l then ([], l)
      else case read_socket reads (nl_buf l) of (buf, lost) \<Rightarrow>
        (case drain_frames C buf of (out, rest, lost') \<Rightarrow>
           (out, if lost \<or> lost'
                 then l\<lparr>nl_connected := False, nl_buf := [], nl_next_try := now + MIN_BACKOFF,
                        nl_backoff := MIN_BACKOFF, nl_warned := True\<rparr>
                 else l\<lparr>nl_buf := rest\<rparr>)))"

section \<open>Frames\<close>

definition netd_frame :: "bytes \<Rightarrow> bytes" where
  "netd_frame p = u32_to_le (of_nat (length p)) @ p"

definition netd_ok :: "nat \<Rightarrow> bytes \<Rightarrow> bool" where
  "netd_ok limit p \<longleftrightarrow> length p \<le> limit \<and> length p < 2 ^ 32"

definition netd_dec :: "nat \<Rightarrow> bytes \<Rightarrow> (bytes \<times> bytes) option" where
  "netd_dec limit buf =
     (if length buf < 4 then None
      else let len = unat (u32_from_le (take 4 buf)) in
        if limit < len \<or> length buf < 4 + len then None
        else Some (bslice 4 (4 + len) buf, drop (4 + len) buf))"

lemma unat_length_word: "length p < 2 ^ 32 \<Longrightarrow> unat (of_nat (length p) :: u32) = length p"
  by (simp add: unat_of_nat)

interpretation netd: framed_item "netd_ok limit" netd_frame "netd_dec limit" for limit
proof
  show "netd_dec limit (netd_frame p @ rest) = Some (p, rest)" if "netd_ok limit p" for p rest
    using that unat_length_word [of p]
    by (simp add: netd_ok_def netd_dec_def netd_frame_def bslice_def le32.length_enc le32.dec_enc Let_def)
next
  fix buf p rest
  assume "netd_dec limit buf = Some (p, rest)"
  then have l: "4 \<le> length buf" "unat (u32_from_le (take 4 buf)) \<le> limit" "4 + unat (u32_from_le (take 4 buf)) \<le> length buf"
    and p: "p = bslice 4 (4 + unat (u32_from_le (take 4 buf))) buf" "rest = drop (4 + unat (u32_from_le (take 4 buf))) buf"
    by (auto simp: netd_dec_def Let_def split: if_splits)
  have n: "length p = unat (u32_from_le (take 4 buf))" using l by (simp add: p bslice_def)
  then have "netd_frame p = take 4 buf @ p" using l(1) by (simp add: netd_frame_def le32.enc_dec)
  moreover have "p @ rest = drop 4 buf"
    using append_take_drop_id [of "unat (u32_from_le (take 4 buf))" "drop 4 buf"]
    by (simp add: p bslice_def add.commute)
  ultimately have "netd_frame p @ rest = buf" by simp
  then show "buf = netd_frame p @ rest \<and> netd_ok limit p"
    using l n unsigned_less [where ?'a = nat, of "u32_from_le (take 4 buf)"] by (simp add: netd_ok_def)
next
  show "netd_frame p \<noteq> []" for p using le32.length_enc [of "of_nat (length p)"] by (auto simp: netd_frame_def)
qed

section \<open>The loop over the frames\<close>

definition oversized :: "nat \<Rightarrow> bytes \<Rightarrow> bool" where
  "oversized limit buf \<longleftrightarrow> 4 \<le> length buf \<and> limit < unat (u32_from_le (take 4 buf))"

text \<open>A frame's snapshot, if it is one, and whether it ends the channel.\<close>

definition snapshot_in :: "'snap netd_codec \<Rightarrow> bytes \<Rightarrow> 'snap option" where
  "snapshot_in C p = (case nc_decode C p of Inr (NetdSnapshot s) \<Rightarrow> Some s | _ \<Rightarrow> None)"

definition ends_channel :: "'snap netd_codec \<Rightarrow> bytes \<Rightarrow> bool" where
  "ends_channel C p \<longleftrightarrow> (case nc_decode C p of Inl e \<Rightarrow> True | Inr (NetdError e) \<Rightarrow> True | _ \<Rightarrow> False)"

lemma drain_frames_dec:
  "drain_frames C buf =
     (case netd_dec (nc_limit C) buf of
        None \<Rightarrow> ([], buf, oversized (nc_limit C) buf)
      | Some (p, more_bytes) \<Rightarrow> (case drain_frames C more_bytes of (out, rest, lost) \<Rightarrow>
          (case_option [] (\<lambda>s. [s]) (snapshot_in C p) @ out, rest, lost \<or> ends_channel C p)))"
  by (subst drain_frames.simps)
    (auto simp: netd_dec_def oversized_def snapshot_in_def ends_channel_def Let_def
      split: prod.splits sum.splits netd_reply.splits)

lemma drain_induct [case_names none some]:
  assumes "\<And>buf. netd_dec limit buf = None \<Longrightarrow> P buf"
    and "\<And>buf p more_bytes. netd_dec limit buf = Some (p, more_bytes) \<Longrightarrow> P more_bytes \<Longrightarrow> P buf"
  shows "P buf"
proof (induction "length buf" arbitrary: buf rule: less_induct)
  case less
  show ?case
  proof (cases "netd_dec limit buf")
    case None
    then show ?thesis by (rule assms(1))
  next
    case (Some q)
    then obtain p more_bytes where q: "netd_dec limit buf = Some (p, more_bytes)" by (cases q) auto
    with netd.item_progress [OF q] less show ?thesis by (intro assms(2) [OF q]) simp
  qed
qed

lemma netd_dec_append: "netd_dec limit buf = Some (p, r) \<Longrightarrow> netd_dec limit (buf @ more_bytes) = Some (p, r @ more_bytes)"
  using netd.item_dec_sound [of limit buf p r] netd.item_dec_enc [of limit p "r @ more_bytes"] by simp

lemma oversized_append: "oversized limit buf \<Longrightarrow> oversized limit (buf @ more_bytes) \<and> netd_dec limit (buf @ more_bytes) = None"
  by (simp add: oversized_def netd_dec_def Let_def)

text \<open>More bytes change nothing of what was drained, and what was left over is drained with them.\<close>

lemma drain_append:
  "drain_frames C (buf @ more_bytes) =
     (case drain_frames C buf of (out, rest, lost) \<Rightarrow>
        if oversized (nc_limit C) rest then (out, rest @ more_bytes, lost)
        else case drain_frames C (rest @ more_bytes) of (out', rest', lost') \<Rightarrow> (out @ out', rest', lost \<or> lost'))"
proof (induction buf rule: drain_induct [where limit = "nc_limit C"])
  case (none buf)
  then have d: "drain_frames C buf = ([], buf, oversized (nc_limit C) buf)" by (subst drain_frames_dec) simp
  show ?case
  proof (cases "oversized (nc_limit C) buf")
    case True
    then have "drain_frames C (buf @ more_bytes) = ([], buf @ more_bytes, True)"
      using oversized_append [OF True, of more_bytes] by (subst drain_frames_dec) simp
    then show ?thesis using d True by simp
  next
    case False
    then show ?thesis using d by (simp split: prod.splits)
  qed
next
  case (some buf p r)
  have a: "drain_frames C buf = (case drain_frames C r of (out, rest, lost) \<Rightarrow>
      (case_option [] (\<lambda>s. [s]) (snapshot_in C p) @ out, rest, lost \<or> ends_channel C p))"
    using some(1) by (subst drain_frames_dec) simp
  have b: "drain_frames C (buf @ more_bytes) = (case drain_frames C (r @ more_bytes) of (out, rest, lost) \<Rightarrow>
      (case_option [] (\<lambda>s. [s]) (snapshot_in C p) @ out, rest, lost \<or> ends_channel C p))"
    using netd_dec_append [OF some(1)] by (subst drain_frames_dec) simp
  show ?case unfolding a b some(2) by (auto split: prod.splits)
qed

lemma drain_rest:
  assumes "drain_frames C buf = (out, rest, False)"
  shows "drain_frames C rest = ([], rest, False) \<and> \<not> oversized (nc_limit C) rest"
  using assms
proof (induction buf arbitrary: out rule: drain_induct [where limit = "nc_limit C"])
  case (none buf)
  then have "drain_frames C buf = ([], buf, oversized (nc_limit C) buf)" by (subst drain_frames_dec) simp
  then show ?case using none(2) by auto
next
  case (some buf p r)
  obtain out' lost' where "drain_frames C r = (out', rest, lost')" "\<not> lost'"
    using some(1,3) by (auto simp: drain_frames_dec [of C buf] split: prod.splits)
  then show ?case using some(2) by simp
qed

lemma drain_whole:
  assumes "list_all (netd_ok (nc_limit C)) ps" "list_all (\<lambda>p. \<not> ends_channel C p) ps"
    and "drain_frames C tail = ([], tail, False)"
  shows "drain_frames C (concat (map netd_frame ps) @ tail) = (List.map_filter (snapshot_in C) ps, tail, False)"
  using assms(1,2)
proof (induction ps)
  case Nil
  then show ?case using assms(3) by (simp add: List.map_filter_def)
next
  case (Cons p ps)
  then show ?case
    by (subst drain_frames_dec) (auto simp: netd.item_dec_enc List.map_filter_def split: option.splits)
qed

section \<open>A stream cut anywhere\<close>

lemma read_chunks: "list_all (\<lambda>c. c \<noteq> []) chunks \<Longrightarrow> read_socket (map ReadSome chunks) buf = (buf @ concat chunks, False)"
  by (induction chunks arbitrary: buf) simp_all

text \<open>Calls of \<open>service\<close>, each finding these pieces; the snapshots they return, in order.\<close>

fun serve_calls :: "'snap netd_codec \<Rightarrow> nat \<Rightarrow> bytes list list \<Rightarrow> netd_link \<Rightarrow> 'snap list \<times> netd_link" where
  "serve_calls C now [] l = ([], l)"
| "serve_calls C now (chunks # calls) l =
     (case netd_service C (map ReadSome chunks) now l of (out, l) \<Rightarrow>
        (case serve_calls C now calls l of (out', l) \<Rightarrow> (out @ out', l)))"

lemma serve_calls_drain:
  assumes "nl_connected l" "list_all (list_all (\<lambda>c. c \<noteq> [])) calls"
    and "drain_frames C (nl_buf l) = ([], nl_buf l, False)"
    and "drain_frames C (nl_buf l @ concat (concat calls)) = (out, rest, False)"
  shows "serve_calls C now calls l = (out, l\<lparr>nl_buf := rest\<rparr>)"
  using assms
proof (induction calls arbitrary: l out)
  case Nil
  then show ?case by simp
next
  case (Cons chunks calls)
  let ?buf = "nl_buf l @ concat chunks"
  obtain o1 r1 l1 where d: "drain_frames C ?buf = (o1, r1, l1)" by (cases "drain_frames C ?buf") auto
  have whole: "drain_frames C (?buf @ concat (concat calls)) = (out, rest, False)" using Cons.prems(4) by simp
  then have l1: "\<not> l1" unfolding drain_append [of C ?buf] d by (auto split: prod.splits if_splits)
  note r1 = drain_rest [OF d [unfolded l1 [THEN eq_False [THEN iffD2]]]]
  obtain o2 r2 l2 where d2: "drain_frames C (r1 @ concat (concat calls)) = (o2, r2, l2)"
    by (cases "drain_frames C (r1 @ concat (concat calls))") auto
  have o: "out = o1 @ o2" "r2 = rest" "\<not> l2"
    using whole r1 l1 unfolding drain_append [of C ?buf] d by (auto simp: d2)
  have "netd_service C (map ReadSome chunks) now l = (o1, l\<lparr>nl_buf := r1\<rparr>)"
    using Cons.prems(1,2) d l1 by (simp add: netd_service_def read_chunks)
  moreover have "serve_calls C now calls (l\<lparr>nl_buf := r1\<rparr>) = (o2, l\<lparr>nl_buf := r1\<rparr>\<lparr>nl_buf := rest\<rparr>)"
    using Cons.prems(1,2) r1 d2 o by (intro Cons.IH) simp_all
  ultimately show ?case using o by simp
qed

text \<open>
  C22: the snapshots taken from the network manager do not depend on how the socket cuts its stream:
  whatever pieces arrive, and whatever calls of \<open>service\<close> find them, a stream of readable frames with
  an incomplete one after it gives exactly the snapshots of those frames, once each and in order, and
  the incomplete one is kept for later; the channel stays open.
\<close>
theorem netd_stream_cut_anywhere:
  assumes "nl_connected l" "nl_buf l = []" "list_all (list_all (\<lambda>c. c \<noteq> [])) calls"
    and "concat (concat calls) = concat (map netd_frame ps) @ tail"
    and "list_all (netd_ok (nc_limit C)) ps" "list_all (\<lambda>p. \<not> ends_channel C p) ps"
    and "netd_dec (nc_limit C) tail = None" "\<not> oversized (nc_limit C) tail"
  shows "serve_calls C now calls l = (List.map_filter (snapshot_in C) ps, l\<lparr>nl_buf := tail\<rparr>)"
proof (rule serve_calls_drain [OF assms(1,3)])
  have t: "drain_frames C tail = ([], tail, False)" using assms(7,8) by (subst drain_frames_dec) simp
  show "drain_frames C (nl_buf l @ concat (concat calls)) = (List.map_filter (snapshot_in C) ps, tail, False)"
    using drain_whole [OF assms(5,6) t] by (simp add: assms(2,4))
  show "drain_frames C (nl_buf l) = ([], nl_buf l, False)"
    by (subst drain_frames_dec) (simp add: assms(2) netd_dec_def oversized_def)
qed

text \<open>A manager whose snapshot is the payload.\<close>

definition plain_codec :: "bytes netd_codec" where
  "plain_codec = \<lparr>nc_limit = 1000, nc_decode = (\<lambda>p. Inr (NetdSnapshot p))\<rparr>"

theorem netd_stream_cut_anywhere_witness:
  "\<exists>cut. concat (concat cut) = netd_frame [7, 8] @ netd_frame [9] @ [2] \<and> length cut = 2
     \<and> serve_calls plain_codec 0 cut ((netd_new 0)\<lparr>nl_connected := True\<rparr>) =
       ([[7, 8], [9]], (netd_new 0)\<lparr>nl_connected := True, nl_buf := [2]\<rparr>)"
proof -
  let ?bs = "netd_frame [7, 8] @ netd_frame [9] @ [2]"
  let ?cut = "[[take 3 ?bs], [drop 3 ?bs]]"
  have ne: "take 3 ?bs \<noteq> []" "drop 3 ?bs \<noteq> []" using le32.length_enc [of 2] by (auto simp: netd_frame_def)
  have "serve_calls plain_codec 0 ?cut ((netd_new 0)\<lparr>nl_connected := True\<rparr>) =
    (List.map_filter (snapshot_in plain_codec) [[7, 8], [9]], (netd_new 0)\<lparr>nl_connected := True\<rparr>\<lparr>nl_buf := [2]\<rparr>)"
  proof (rule netd_stream_cut_anywhere)
    show "list_all (list_all (\<lambda>c. c \<noteq> [])) ?cut" using ne by simp
    show "concat (concat ?cut) = concat (map netd_frame [[7, 8], [9]]) @ [2]"
      by (simp del: take_append drop_append)
  qed (simp_all add: netd_new_def plain_codec_def netd_ok_def ends_channel_def netd_dec_def oversized_def)
  moreover have "concat (concat ?cut) = ?bs" "length ?cut = 2" by (simp_all del: take_append drop_append)
  ultimately show ?thesis
    by (intro exI [of _ ?cut]) (simp add: List.map_filter_def snapshot_in_def plain_codec_def)
qed

section \<open>Coming back\<close>

text \<open>The states the link can reach, each with the time of the last thing done to it.\<close>

inductive link_reach :: "'snap netd_codec \<Rightarrow> nat \<Rightarrow> netd_link \<Rightarrow> bool" for C :: "'snap netd_codec" where
  start: "link_reach C now (netd_new now)"
| maintained: "link_reach C before l \<Longrightarrow> before \<le> now \<Longrightarrow> link_reach C now (netd_maintain accepted now l)"
| serviced: "link_reach C before l \<Longrightarrow> before \<le> now \<Longrightarrow> link_reach C now (snd (netd_service C reads now l))"

definition link_inv :: "nat \<Rightarrow> netd_link \<Rightarrow> bool" where
  "link_inv now l \<longleftrightarrow> MIN_BACKOFF \<le> nl_backoff l \<and> nl_backoff l \<le> MAX_BACKOFF
     \<and> (nl_connected l \<or> nl_buf l = [] \<and> nl_next_try l \<le> now + MAX_BACKOFF)"

lemma link_reach_inv: "link_reach C now l \<Longrightarrow> link_inv now l"
  by (induction rule: link_reach.induct)
    (auto simp: link_inv_def netd_new_def netd_maintain_def netd_service_def MIN_BACKOFF_def MAX_BACKOFF_def
      split: prod.splits)

text \<open>
  The link to the network manager always comes back: in every state it can reach the back-off is
  between half a second and ten, and if the manager takes connections again the first attempt made
  ten seconds or more after the last thing that happened connects, with nothing of the old stream
  left over.
\<close>
theorem netd_link_comes_back:
  assumes "link_reach C before l" "before + MAX_BACKOFF \<le> now"
  shows "nl_connected (netd_maintain True now l) \<and> nl_backoff l \<in> {MIN_BACKOFF..MAX_BACKOFF}
    \<and> (nl_buf (netd_maintain True now l) = [] \<or> nl_connected l)"
  using link_reach_inv [OF assms(1)] assms(2) by (auto simp: link_inv_def netd_maintain_def)

theorem netd_link_comes_back_witness:
  "nl_connected (netd_maintain True (2 * MAX_BACKOFF) (netd_maintain False 0 (netd_new 0)))"
proof -
  have "link_reach plain_codec 0 (netd_maintain False 0 (netd_new 0))"
    by (rule link_reach.maintained [OF link_reach.start order_refl])
  from netd_link_comes_back [OF this, of "2 * MAX_BACKOFF"] show ?thesis by simp
qed

end
