(* ===== verification/Handshake.thy ===== *)
theory Handshake
  imports Network
begin

text \<open>
  What the worker thread does with a job (\<open>timed/src/worker.rs\<close>, \<open>nts_ke.rs\<close>, \<open>resolve.rs\<close>): the key
  establishment from the opened TLS session to the keys, the addresses it leads to, and names. The
  TLS library and the resolver are parameters: opening a session (with the request written to it),
  what its reads give, its exporter, and the resolver's answer to a name.
\<close>

section \<open>Key establishment\<close>

definition EXPORTER_LABEL :: string where "EXPORTER_LABEL = ''EXPORTER-network-time-security''"
definition ALPN :: string where "ALPN = ''ntske/1''"

datatype ke_failure = KeConnect string | KeTls string | KeProtocol ke_error

text \<open>A session: the protocol selected, what each read gives (an error or bytes), and its exporter.\<close>

record tls_session =
  tls_alpn :: "string option"
  tls_reads :: "(string + bytes) list"
  tls_export :: "string \<Rightarrow> bytes \<Rightarrow> string + bytes"

text \<open>The loop of \<open>read_message\<close>; no more reads, or an empty one, is a server that has closed.\<close>

definition closed_early :: ke_failure where
  "closed_early = KeTls ''the server closed before ending its message''"

definition message_so_far :: "bytes \<Rightarrow> ke_failure + ke_record list option" where
  "message_so_far buffer =
     (if MAX_KE_MESSAGE < length buffer then Inl (KeProtocol (Wire (BadLength (of_nat (length buffer)))))
      else case decode_message buffer of Inl e \<Rightarrow> Inl (KeProtocol (Wire e)) | Inr m \<Rightarrow> Inr m)"

fun read_message :: "(string + bytes) list \<Rightarrow> bytes \<Rightarrow> ke_failure + ke_record list" where
  "read_message [] buffer =
     (case message_so_far buffer of Inl e \<Rightarrow> Inl e | Inr (Some records) \<Rightarrow> Inr records | Inr None \<Rightarrow> Inl closed_early)"
| "read_message (r # reads) buffer =
     (case message_so_far buffer of
        Inl e \<Rightarrow> Inl e
      | Inr (Some records) \<Rightarrow> Inr records
      | Inr None \<Rightarrow>
          (case r of
             Inl e \<Rightarrow> Inl (KeTls e)
           | Inr chunk \<Rightarrow> if chunk = [] then Inl closed_early else read_message reads (buffer @ chunk)))"

text \<open>\<open>handshake\<close> of \<open>nts_ke.rs\<close> on a session: the protocol, the message, the two keys.\<close>

definition check_alpn :: "(string \<Rightarrow> string) \<Rightarrow> string option \<Rightarrow> ke_failure option" where
  "check_alpn debug_text selected =
     (case selected of
        Some p \<Rightarrow> if p = ALPN then None else Some (KeTls (''the server selected ALPN '' @ debug_text p @ '', not ntske/1''))
      | None \<Rightarrow> Some (KeTls ''the server selected no ALPN; not an NTS-KE server''))"

definition export_key :: "tls_session \<Rightarrow> bool \<Rightarrow> ke_failure + bytes" where
  "export_key session client_to_server =
     (case tls_export session EXPORTER_LABEL (exporter_context client_to_server) of
        Inl e \<Rightarrow> Inl (KeTls (''exporting the '' @ (if client_to_server then ''c2s'' else ''s2c'') @ '' key: '' @ e))
      | Inr key \<Rightarrow> Inr key)"

definition ke_exchange :: "(string \<Rightarrow> string) \<Rightarrow> tls_session \<Rightarrow> ke_failure + nts_keys \<times> negotiated" where
  "ke_exchange debug_text session =
     (case check_alpn debug_text (tls_alpn session) of
        Some e \<Rightarrow> Inl e
      | None \<Rightarrow>
          rbind (read_message (tls_reads session) []) (\<lambda>records.
            case interpret_response records of
              Inl e \<Rightarrow> Inl (KeProtocol e)
            | Inr negotiated \<Rightarrow>
                rbind (export_key session True) (\<lambda>c.
                  rbind (export_key session False) (\<lambda>s. Inr (\<lparr>c2s = c, s2c = s\<rparr>, negotiated)))))"

section \<open>Names\<close>

text \<open>The resolver's answer: whether it found the name, the text of its outcome, the canonical name, the addresses.\<close>

datatype resolver_reply = ResolvedAs bool string string "ip_addr list" | ResolverSays string | ResolverOdd string

definition trim_dots :: "string \<Rightarrow> string" where
  "trim_dots s = rev (dropWhile (\<lambda>c. c = CHR ''.'') (rev s))"

definition lookup_name :: "(string \<Rightarrow> string + resolver_reply) \<Rightarrow> string \<Rightarrow> string + string \<times> ip_addr list" where
  "lookup_name resolver name =
     (case resolver name of
        Inl e \<Rightarrow> Inl e
      | Inr (ResolvedAs found outcome canonical addresses) \<Rightarrow>
          if \<not> found \<or> addresses = [] then Inl (name @ '': '' @ outcome)
          else Inr (if canonical = [] then name else trim_dots canonical, addresses)
      | Inr (ResolverSays message) \<Rightarrow> Inl (name @ '': '' @ message)
      | Inr (ResolverOdd other) \<Rightarrow> Inl (name @ '': unexpected reply '' @ other))"

definition socket_addrs :: "ip_addr list \<Rightarrow> u16 \<Rightarrow> socket_addr list" where
  "socket_addrs addresses p = map (\<lambda>a. SocketAddr a p) addresses"

section \<open>Jobs\<close>

text \<open>What the thread works with: the resolver, TLS to a name at an address, the root store, the texts of failures.\<close>

record worker_env =
  we_resolver :: "string \<Rightarrow> string + resolver_reply"
  we_open :: "string \<Rightarrow> socket_addr \<Rightarrow> ke_failure + tls_session"
  we_roots :: bool
  we_debug :: "string \<Rightarrow> string"
  we_text :: "ke_failure \<Rightarrow> string"

text \<open>Where NTP is to be sent after a handshake: the server it names, or the one it was made with.\<close>

definition ntp_addresses :: "worker_env \<Rightarrow> socket_addr list \<Rightarrow> negotiated \<Rightarrow> string + socket_addr list" where
  "ntp_addresses W ke_addresses negotiated =
     (case ng_server negotiated of
        Some named \<Rightarrow>
          (case parse_ip named of
             Some ip \<Rightarrow> Inr [SocketAddr ip (ng_port negotiated)]
           | None \<Rightarrow>
               (case lookup_name (we_resolver W) named of
                  Inr (canonical, addresses) \<Rightarrow> Inr (socket_addrs addresses (ng_port negotiated))
                | Inl e \<Rightarrow> Inl (''the KE server named '' @ named @ '', which does not resolve ('' @ e @ '')'')))
      | None \<Rightarrow> Inr (map (\<lambda>a. SocketAddr (sa_ip a) (ng_port negotiated)) ke_addresses))"

definition try_address ::
  "worker_env \<Rightarrow> string \<Rightarrow> socket_addr list \<Rightarrow> socket_addr \<Rightarrow> string + nts_keys \<times> negotiated \<times> socket_addr list" where
  "try_address W canonical ke_addresses address =
     (case rbind (we_open W canonical address) (ke_exchange (we_debug W)) of
        Inl e \<Rightarrow> Inl (we_text W e)
      | Inr (keys, negotiated) \<Rightarrow>
          (case ntp_addresses W ke_addresses negotiated of
             Inl e \<Rightarrow> Inl e
           | Inr addresses \<Rightarrow>
               if addresses = [] then Inl ''no usable NTP address'' else Inr (keys, negotiated, addresses)))"

text \<open>The loop over the addresses, with the last failure.\<close>

fun try_addresses ::
  "worker_env \<Rightarrow> string \<Rightarrow> socket_addr list \<Rightarrow> string \<Rightarrow> socket_addr list \<Rightarrow> string + nts_keys \<times> negotiated \<times> socket_addr list" where
  "try_addresses W canonical ke_addresses last_error [] = Inl last_error"
| "try_addresses W canonical ke_addresses last_error (a # as) =
     (case try_address W canonical ke_addresses a of
        Inr x \<Rightarrow> Inr x
      | Inl e \<Rightarrow> try_addresses W canonical ke_addresses e as)"

definition worker_handshake ::
  "worker_env \<Rightarrow> string \<Rightarrow> socket_addr list \<Rightarrow> string + nts_keys \<times> negotiated \<times> socket_addr list" where
  "worker_handshake W canonical ke_addresses = try_addresses W canonical ke_addresses ''no address to try'' ke_addresses"

definition run_job :: "worker_env \<Rightarrow> job \<Rightarrow> work_done" where
  "run_job W j =
     (case j of
        JobResolve i host p \<Rightarrow>
          DoneResolved i (case lookup_name (we_resolver W) host of
            Inl e \<Rightarrow> Inl e | Inr (canonical, addresses) \<Rightarrow> Inr (canonical, take 8 addresses))
      | JobHandshake i host canonical ke_addresses \<Rightarrow> DoneHandshook i (worker_handshake W canonical ke_addresses)
      | JobRoots \<Rightarrow> DoneRoots (we_roots W))"

section \<open>What a handshake that succeeds has gone through\<close>

lemma ke_exchange_ok:
  assumes "ke_exchange dbg session = Inr (keys, ng)"
  shows "tls_alpn session = Some ALPN"
    and "\<exists>records. read_message (tls_reads session) [] = Inr records \<and> interpret_response records = Inr ng"
    and "tls_export session EXPORTER_LABEL (exporter_context True) = Inr (c2s keys)"
    and "tls_export session EXPORTER_LABEL (exporter_context False) = Inr (s2c keys)"
  using assms
  by (auto simp: ke_exchange_def check_alpn_def export_key_def rbind_Inr_iff split: option.splits if_splits sum.splits)

lemma try_addresses_ok:
  "try_addresses W canonical all e as = Inr x \<Longrightarrow> \<exists>a\<in>set as. try_address W canonical all a = Inr x"
  by (induction as arbitrary: e) (auto split: sum.splits)

lemma try_address_ok:
  assumes "try_address W canonical all a = Inr (keys, ng, addresses)"
  shows "\<exists>session. we_open W canonical a = Inr session \<and> ke_exchange (we_debug W) session = Inr (keys, ng)"
    and "ntp_addresses W all ng = Inr addresses" "addresses \<noteq> []"
  using assms
  by (auto simp: try_address_def rbind_Inr_iff split: sum.splits if_splits)

lemma ntp_addresses_port: "ntp_addresses W all ng = Inr addresses \<Longrightarrow> list_all (\<lambda>x. sa_port x = ng_port ng) addresses"
  by (auto simp: ntp_addresses_def socket_addrs_def list_all_iff split: option.splits sum.splits)

text \<open>
  C15: keys are only ever handed to the loop from a session opened to one of the addresses of the
  source under its canonical name, on which the server selected \<open>ntske/1\<close> and sent a complete
  message that the rules of the key establishment accept; each key is the session's own, exported
  for its direction; there are one to eight cookies, and every address NTP is sent to has the port
  that was negotiated.
\<close>
theorem handshake_result_is_established:
  assumes "worker_handshake W canonical addresses = Inr (keys, ng, targets)"
  shows "\<exists>a session records. a \<in> set addresses \<and> we_open W canonical a = Inr session
      \<and> tls_alpn session = Some ALPN
      \<and> read_message (tls_reads session) [] = Inr records \<and> interpret_response records = Inr ng
      \<and> tls_export session EXPORTER_LABEL (exporter_context True) = Inr (c2s keys)
      \<and> tls_export session EXPORTER_LABEL (exporter_context False) = Inr (s2c keys)
      \<and> length (ng_cookies ng) \<in> {1..COOKIE_TARGET}
      \<and> targets \<noteq> [] \<and> list_all (\<lambda>x. sa_port x = ng_port ng) targets"
proof -
  obtain a where a: "a \<in> set addresses" "try_address W canonical addresses a = Inr (keys, ng, targets)"
    using try_addresses_ok assms by (force simp: worker_handshake_def)
  note t = try_address_ok [OF a(2)]
  then obtain session where s: "we_open W canonical a = Inr session" "ke_exchange (we_debug W) session = Inr (keys, ng)"
    by blast
  obtain records where r: "read_message (tls_reads session) [] = Inr records" "interpret_response records = Inr ng"
    using ke_exchange_ok(2) [OF s(2)] by blast
  have "length (ng_cookies ng) \<in> {1..COOKIE_TARGET}"
    using interpret_response_ok [OF r(2)] by (auto simp: Suc_le_eq)
  then show ?thesis using a(1) s(1) r ke_exchange_ok(1,3,4) [OF s(2)] t(2,3) ntp_addresses_port by blast
qed

text \<open>A server that answers with one cookie, and TLS that reaches it in two pieces.\<close>

definition demo_records :: "ke_record list" where
  "demo_records = [\<lparr>critical = True, record_type = 1, body = [0, 0]\<rparr>, \<lparr>critical = True, record_type = 4, body = [0, 15]\<rparr>,
      \<lparr>critical = False, record_type = 5, body = [7, 8]\<rparr>, \<lparr>critical = True, record_type = 0, body = []\<rparr>]"

definition demo_worker :: worker_env where
  "demo_worker = \<lparr>we_resolver = (\<lambda>name. Inl ''down''),
     we_open = (\<lambda>name a. Inr \<lparr>tls_alpn = Some ALPN,
       tls_reads = [Inr (take 5 (message_bytes demo_records)), Inr (drop 5 (message_bytes demo_records))],
       tls_export = (\<lambda>label context. Inr context)\<rparr>),
     we_roots = True, we_debug = id, we_text = (\<lambda>e. [])\<rparr>"

text \<open>
  A message is read whole however the session cuts it: any pieces that together hold it, with
  anything after it, give its records and no others.
\<close>

lemma message_so_far_prefix:
  assumes "ke_message rs" "length rs \<le> 1025" "length (message_bytes rs @ rest) \<le> MAX_KE_MESSAGE"
    and "prefix_bytes @ more_bytes = message_bytes rs @ rest"
  shows "message_so_far prefix_bytes =
    Inr (if length prefix_bytes < length (message_bytes rs) then None else Some rs)"
proof -
  have l: "length prefix_bytes \<le> MAX_KE_MESSAGE" using assms(3) arg_cong [OF assms(4), of length] by simp
  show ?thesis
  proof (cases "length prefix_bytes < length (message_bytes rs)")
    case True
    then have "prefix_bytes = take (length prefix_bytes) (message_bytes rs)"
      using arg_cong [OF assms(4), of "take (length prefix_bytes)"] by simp
    then have "decode_records [] prefix_bytes = Inr None"
      using decode_records_prefix [OF assms(1), of "[]" "length prefix_bytes"] True assms(2) by simp
    then show ?thesis using True l by (simp add: message_so_far_def decode_message_def)
  next
    case False
    then have "prefix_bytes = message_bytes rs @ drop (length (message_bytes rs)) prefix_bytes"
      using arg_cong [OF assms(4), of "take (length (message_bytes rs))"]
        append_take_drop_id [of "length (message_bytes rs)" prefix_bytes] by simp
    then have "decode_records [] prefix_bytes = Inr (Some rs)"
      using decode_records_complete [OF assms(1), of "[]" "drop (length (message_bytes rs)) prefix_bytes"] assms(2) by simp
    then show ?thesis using False l by (simp add: message_so_far_def decode_message_def)
  qed
qed

lemma read_message_cut:
  assumes "ke_message rs" "length rs \<le> 1025" "length (message_bytes rs @ rest) \<le> MAX_KE_MESSAGE"
  shows "buffer @ concat chunks = message_bytes rs @ rest \<Longrightarrow> list_all (\<lambda>c. c \<noteq> []) chunks \<Longrightarrow>
    read_message (map Inr chunks) buffer = Inr rs"
proof (induction chunks arbitrary: buffer)
  case Nil
  then show ?case using message_so_far_prefix [OF assms, of buffer "[]"] by simp
next
  case (Cons c cs)
  then show ?case
    using message_so_far_prefix [OF assms, of buffer "c @ concat cs"] Cons.IH [of "buffer @ c"] by simp
qed

lemma demo_handshake:
  "worker_handshake demo_worker ''ntp'' [SocketAddr (V4 [192, 0, 2, 1]) 4460] =
     Inr (\<lparr>c2s = exporter_context True, s2c = exporter_context False\<rparr>,
       \<lparr>ng_cookies = [[7, 8]], ng_server = None, ng_port = 123\<rparr>, [SocketAddr (V4 [192, 0, 2, 1]) 123])"
proof -
  let ?m = "message_bytes demo_records"
  let ?ng = "\<lparr>ng_cookies = [[7, 8]], ng_server = None, ng_port = 123\<rparr>"
  let ?keys = "\<lparr>c2s = exporter_context True, s2c = exporter_context False\<rparr>"
  have i: "interpret_response demo_records = Inr ?ng" unfolding demo_records_def by code_simp
  have k: "ke_message demo_records" by (simp add: demo_records_def ke_message_def ke_ok_def is_end_def KE_END_OF_MESSAGE_def)
  have l: "length ?m = 22" by (simp add: message_bytes_def demo_records_def wire_simps)
  have "read_message (map Inr [take 5 ?m, drop 5 ?m]) [] = Inr demo_records"
  proof (rule read_message_cut [OF k])
    show "list_all (\<lambda>c. c \<noteq> []) [take 5 ?m, drop 5 ?m]" using l by auto
  qed (simp_all add: l MAX_KE_MESSAGE_def, simp add: demo_records_def)
  then have e: "ke_exchange id \<lparr>tls_alpn = Some ALPN, tls_reads = [Inr (take 5 ?m), Inr (drop 5 ?m)],
      tls_export = (\<lambda>label context. Inr context)\<rparr> = Inr (?keys, ?ng)"
    by (simp add: ke_exchange_def check_alpn_def export_key_def i)
  then show ?thesis
    by (simp add: worker_handshake_def try_address_def demo_worker_def ntp_addresses_def)
qed

theorem handshake_result_is_established_witness:
  "\<exists>keys. worker_handshake demo_worker ''ntp'' [SocketAddr (V4 [192, 0, 2, 1]) 4460] =
      Inr (keys, \<lparr>ng_cookies = [[7, 8]], ng_server = None, ng_port = 123\<rparr>, [SocketAddr (V4 [192, 0, 2, 1]) 123])
    \<and> length [[7, 8 :: u8]] \<in> {1..COOKIE_TARGET}"
  using handshake_result_is_established [OF demo_handshake] demo_handshake by auto

end
