(* ===== verification/Service.thy ===== *)
theory Service
  imports Behaviour NetdLink SourcesAnswer Handshake
begin

text \<open>
  The daemon put together (\<open>timed/src/main.rs\<close>): the start of \<open>main\<close>, one turn of the loop of \<open>run\<close> in
  the order the code has it, and the requests of \<open>service_control\<close>. The loop is shown to be one of
  the orders of \<open>daemon_step\<close>, so what holds of every reachable state holds of the running daemon.
\<close>

section \<open>Requests\<close>

definition MAX_CLIENTS :: nat where "MAX_CLIENTS = 128"

text \<open>
  What the machine decides while clients are served: the access check of a descriptor for a peer
  and a right (the caller's user, when it is granted), the texts of errors, the registry as it is
  when the settings are read, and what happens to the files of the time zone.
\<close>

record control_env =
  ce_permits :: "bytes option \<Rightarrow> nat \<Rightarrow> u32 \<Rightarrow> bytes option"
  ce_clock_text :: "clock_error \<Rightarrow> string"
  ce_protocol_text :: "protocol_error \<Rightarrow> string"
  ce_texts :: texts
  ce_registry :: registry
  ce_install :: fault
  ce_remember :: fault

text \<open>One connection: the peer, what it sent, and whether it takes a snapshot at once.\<close>

record client =
  cl_peer :: nat
  cl_sent :: bytes
  cl_takes :: bool

definition read_request :: "msgpack \<Rightarrow> bytes \<Rightarrow> protocol_error + request" where
  "read_request M stream = (case recv_frame stream of
     Inl e \<Rightarrow> Inl e | Inr (payload, rest) \<Rightarrow> request_decode M payload)"

fun set_reply :: "(clock_error \<Rightarrow> string) \<Rightarrow> set_error + unit \<Rightarrow> reply" where
  "set_reply txt (Inl KeptFromSources) =
     ReplyError ''the clock is kept from its sources; set Automatic to 0 to set it by hand''"
| "set_reply txt (Inl (CouldNotSet e)) = ReplyError (''could not set the clock: '' @ txt e)"
| "set_reply txt (Inr u) = ReplyOk"

text \<open>One admitted request: the replies written, and the daemon after it. None is a panic.\<close>

definition serve_request ::
  "'k kernel \<Rightarrow> int \<Rightarrow> control_env \<Rightarrow> f64 \<Rightarrow> bytes \<Rightarrow> bool \<Rightarrow> request \<Rightarrow> 'k timed \<Rightarrow> (reply list \<times> 'k timed) option" where
  "serve_request K build_epoch E now caller takes request tm =
     (case request of
        ReqStatus \<Rightarrow> map_option (\<lambda>s. ([ReplyStatus s], tm)) (status build_epoch now tm)
      | ReqSources \<Rightarrow> Some (sources_replies (sources K (ce_texts E) now tm), tm)
      | ReqSubscribe \<Rightarrow>
          Some (if takes
                then ([ReplySnapshot (snapshot K tm)],
                      tm\<lparr>tm_subscribers := tm_subscribers tm @ [[ReplySnapshot (snapshot K tm)]]\<rparr>)
                else ([], tm))
      | ReqReload \<Rightarrow> Some ([ReplyOk], reload_request (ce_registry E) now (ce_install E) (ce_remember E) tm)
      | ReqSet seconds nanos \<Rightarrow>
          (case set_by_hand K build_epoch seconds nanos caller tm of
             (r, tm) \<Rightarrow> Some ([set_reply (ce_clock_text E) r], tm)))"

definition serve_client ::
  "'k kernel \<Rightarrow> int \<Rightarrow> msgpack \<Rightarrow> control_env \<Rightarrow> f64 \<Rightarrow> client \<Rightarrow> 'k timed \<Rightarrow> (reply list \<times> 'k timed) option" where
  "serve_client K build_epoch M E now c tm =
     (if MAX_CLIENTS \<le> length (tm_subscribers tm) then Some ([ReplyError ''too many clients''], tm)
      else case read_request M (cl_sent c) of
        Inl e \<Rightarrow> Some ([ReplyError (ce_protocol_text E e)], tm)
      | Inr request \<Rightarrow>
          (case ce_permits E (cf_control_security (tm_config tm)) (cl_peer c) (required_right request) of
             None \<Rightarrow> Some ([ReplyError ''not permitted''], tm)
           | Some caller \<Rightarrow> serve_request K build_epoch E now caller (cl_takes c) request tm))"

fun service_control ::
  "'k kernel \<Rightarrow> int \<Rightarrow> msgpack \<Rightarrow> control_env \<Rightarrow> f64 \<Rightarrow> client list \<Rightarrow> 'k timed \<Rightarrow> (reply list list \<times> 'k timed) option" where
  "service_control K build_epoch M E now [] tm = Some ([], tm)"
| "service_control K build_epoch M E now (c # cs) tm =
     (case serve_client K build_epoch M E now c tm of
        None \<Rightarrow> None
      | Some (replies, tm) \<Rightarrow>
          map_option (\<lambda>(out, tm). (replies # out, tm)) (service_control K build_epoch M E now cs tm))"

section \<open>The start\<close>

text \<open>
  \<open>main\<close>: the clock is raised to the build's timestamp before anything else, and the step recorded;
  without a control socket the daemon stops (None). \<open>tick\<close> is what the time that passes does to the
  kernel's state.
\<close>

definition floor_events :: "nat option \<Rightarrow> nat option \<Rightarrow> clock_error + f64 \<Rightarrow> stepped_event list" where
  "floor_events before after r =
     (case r of
        Inr raised \<Rightarrow> if feq raised fzero then []
                      else [\<lparr>ev_step = StepBootFloor, ev_previous = before, ev_now = after, ev_caller = None\<rparr>]
      | Inl e \<Rightarrow> [])"

definition boot ::
  "'k kernel \<Rightarrow> int \<Rightarrow> bool \<Rightarrow> ('k \<Rightarrow> 'k) \<Rightarrow> files \<Rightarrow> registry \<Rightarrow> int \<Rightarrow> bool \<Rightarrow> bool \<Rightarrow> f64 \<Rightarrow> fault \<Rightarrow> fault
     \<Rightarrow> 'k \<Rightarrow> 'k timed option" where
  "boot K build_epoch listens tick files reg precision v4 v6 now fl fl' k =
     (let before = now_nanos (k_wall K k)
      in case enforce_floor K build_epoch k of
           (r, k) \<Rightarrow>
             let events = floor_events before (now_nanos (k_wall K k)) r
             in if \<not> listens then None
                else Some (started (tick k) events files reg precision v4 v6 now fl fl'))"

section \<open>One turn of the loop\<close>

text \<open>
  What a turn meets: whether the network manager takes the connection and what its socket gives, the
  readings of the monotonic clock (one for each place that reads it), what the passing time does to
  the kernel's state at those places, the registry's watch, the worker's results, the draws and
  sends of polling, the datagrams, the subscribers that keep up, and the clients.
\<close>

record 'k turn_io =
  io_instant :: nat
  io_accepted :: bool
  io_reads :: "read_outcome list"
  io_read :: "nat \<Rightarrow> f64"
  io_tick :: "nat \<Rightarrow> 'k \<Rightarrow> 'k"
  io_watch :: "(unit + bool) option"
  io_done :: "work_done list"
  io_worker_gone :: bool
  io_cookie_fault :: fault
  io_drift_fault :: fault
  io_luck :: "nat \<Rightarrow> poll_luck"
  io_draw :: "nat \<Rightarrow> u64 option"
  io_v4 :: "datagram list"
  io_v6 :: "datagram list"
  io_took :: "nat \<Rightarrow> bool"
  io_clients :: "client list"

text \<open>The daemon's surroundings that do not change: the kernel, the ciphers, the formats.\<close>

record 'k machine =
  mc_kernel :: "'k kernel"
  mc_aead :: aead
  mc_build_epoch :: int
  mc_msgpack :: msgpack
  mc_codec :: "netd_scope list netd_codec"

definition tick :: "'k turn_io \<Rightarrow> nat \<Rightarrow> 'k timed \<Rightarrow> 'k timed" where
  "tick io i tm = tm\<lparr>tm_kernel := io_tick io i (tm_kernel tm)\<rparr>"

text \<open>The turn as far as the deadlines, with the requests it sends: what comes before the wait.\<close>

definition turn_work ::
  "'k machine \<Rightarrow> control_env \<Rightarrow> 'k turn_io \<Rightarrow> netd_scope list list \<Rightarrow> 'k timed \<Rightarrow> 'k timed \<times> (socket_addr \<times> bytes) list" where
  "turn_work mc E io snapshots tm =
     (let now = io_read io 0;
          tm = absorb_netd snapshots (io_read io 1) (tick io 0 tm);
          tm = check_registry (io_watch io) (ce_registry E) (io_read io 2) (ce_install E) (ce_remember E) (tick io 1 tm);
          tm = (if keeper_due now (tm_zone tm) then apply_zone (io_read io 3) (ce_install E) (ce_remember E) tm else tm);
          tm = collect_work (io_cookie_fault io) (io_done io) (io_worker_gone io) (io_read io 4) tm;
          tm = ensure_roots now tm;
          tm = maintain_sources now (tick io 2 tm)
      in case poll_due (mc_kernel mc) (mc_aead mc) (io_luck io) now tm of
           (tm, sent) \<Rightarrow>
             (let tm = expire_pending (io_draw io) now (tick io 3 tm);
                  tm = publish_level tm
              in (persist (io_drift_fault io) (io_cookie_fault io) now tm, sent)))"

text \<open>
  A whole turn: the datagrams sent, how long it waits, the replies of the control socket, and the
  link and the daemon after it. None is a panic.
\<close>

definition turn ::
  "'k machine \<Rightarrow> control_env \<Rightarrow> 'k turn_io \<Rightarrow> netd_link \<times> 'k timed
     \<Rightarrow> ((socket_addr \<times> bytes) list \<times> f64 \<times> reply list list \<times> netd_link \<times> 'k timed) option" where
  "turn mc E io p = (case p of (link, tm) \<Rightarrow>
     (case netd_service (mc_codec mc) (io_reads io) (io_instant io) (netd_maintain (io_accepted io) (io_instant io) link) of
        (snapshots, link) \<Rightarrow>
          (case turn_work mc E io snapshots tm of
             (tm, sent) \<Rightarrow>
               (let timeout = next_deadline (io_read io 0) tm;
                    tm = service_sockets (mc_kernel mc) (mc_aead mc) (mc_build_epoch mc) (io_took io) (io_v4 io) (io_v6 io)
                           (io_read io 5) (tick io 4 tm)
                in case service_control (mc_kernel mc) (mc_build_epoch mc) (mc_msgpack mc) E (io_read io 6) (io_clients io)
                          (tick io 5 tm) of
                     None \<Rightarrow> None
                   | Some (replies, tm) \<Rightarrow> Some (sent, timeout, replies, link, tm)))))"

section \<open>The loop is one order of the steps\<close>

abbreviation daemon_steps :: "'k kernel \<Rightarrow> aead \<Rightarrow> int \<Rightarrow> 'k timed \<Rightarrow> 'k timed \<Rightarrow> bool" where
  "daemon_steps K A build_epoch \<equiv> (daemon_step K A build_epoch)\<^sup>*\<^sup>*"

lemma reach_steps: "daemon_steps K A be tm tm' \<Longrightarrow> daemon_reach K A be tm \<Longrightarrow> daemon_reach K A be tm'"
  by (induction rule: rtranclp_induct) (auto intro: daemon_reach.step)

lemma serve_request_steps:
  "serve_request K be E now caller takes request tm = Some (replies, tm') \<Longrightarrow> daemon_steps K A be tm tm'"
  by (cases request)
    (auto simp: serve_request_def split: if_splits prod.splits
      intro: r_into_rtranclp daemon_step.subscribe daemon_step.reload_asked daemon_step.by_hand)

lemma serve_client_steps:
  "serve_client K be M E now c tm = Some (replies, tm') \<Longrightarrow> daemon_steps K A be tm tm'"
  by (auto simp: serve_client_def serve_request_steps split: if_splits sum.splits option.splits)

lemma service_control_steps:
  "service_control K be M E now cs tm = Some (out, tm') \<Longrightarrow> daemon_steps K A be tm tm'"
proof (induction cs arbitrary: tm out)
  case (Cons c cs)
  then obtain replies tm1 out1 where "serve_client K be M E now c tm = Some (replies, tm1)"
      "service_control K be M E now cs tm1 = Some (out1, tm')"
    by (auto split: option.splits)
  then show ?case using Cons.IH serve_client_steps by (blast intro: rtranclp_trans)
qed simp

lemma tick_steps: "daemon_steps K A be tm tm' \<Longrightarrow> daemon_steps K A be tm (tick io i tm')"
  unfolding tick_def by (erule rtranclp.rtrancl_into_rtrancl) (rule daemon_step.time_passes)

lemmas also_step = rtranclp.rtrancl_into_rtrancl [of "daemon_step K A be" for K A be]

lemma turn_work_steps:
  assumes "list_all done_ok (io_done io)" "turn_work mc E io snapshots tm = (tm', sent)"
  shows "daemon_steps (mc_kernel mc) (mc_aead mc) be tm tm'"
proof -
  let ?S = "daemon_steps (mc_kernel mc) (mc_aead mc) be tm"
  have zone: "?S (if keeper_due now (tm_zone t) then apply_zone x f g t else t)" if "?S t" for now x f g t
    using that by (auto intro: also_step [OF that daemon_step.zone])
  have poll: "?S (fst (poll_due (mc_kernel mc) (mc_aead mc) luck now t))" if "?S t" for luck now t
    by (rule also_step [OF that daemon_step.poll]) (rule prod.collapse [symmetric])
  show ?thesis
    using assms(2) unfolding turn_work_def Let_def case_prod_unfold prod.inject
    by (elim conjE) (hypsubst, intro also_step [OF _ daemon_step.save] also_step [OF _ daemon_step.level]
      also_step [OF _ daemon_step.expire] tick_steps poll also_step [OF _ daemon_step.maintain] also_step [OF _ daemon_step.roots]
      also_step [OF _ daemon_step.work] zone also_step [OF _ daemon_step.registry] also_step [OF _ daemon_step.netd]
      rtranclp.rtrancl_refl assms(1))
qed

text \<open>What the worker hands back is what it made of some job.\<close>

definition worker_made :: "work_done \<Rightarrow> bool" where
  "worker_made d \<longleftrightarrow> (\<exists>W j. d = run_job W j)"

lemma worker_handshake_cookies:
  assumes "worker_handshake W canonical addresses = Inr (keys, ng, targets)"
  shows "length (ng_cookies ng) \<le> COOKIE_TARGET"
proof -
  obtain a where "try_address W canonical addresses a = Inr (keys, ng, targets)"
    using try_addresses_ok assms by (force simp: worker_handshake_def)
  then obtain session where "ke_exchange (we_debug W) session = Inr (keys, ng)" using try_address_ok(1) by blast
  then obtain records where "interpret_response records = Inr ng" using ke_exchange_ok(2) by blast
  then show ?thesis using interpret_response_ok by fastforce
qed

lemma run_job_ok: "done_ok (run_job W j)"
proof (cases j)
  case (JobHandshake i host canonical addresses)
  show ?thesis
  proof (cases "worker_handshake W canonical addresses")
    case (Inl e)
    then show ?thesis by (simp add: JobHandshake run_job_def)
  next
    case (Inr x)
    then obtain keys ng targets where "worker_handshake W canonical addresses = Inr (keys, ng, targets)" by (cases x) auto
    then show ?thesis using worker_handshake_cookies by (simp add: JobHandshake run_job_def)
  qed
qed (simp_all add: run_job_def)

lemma worker_made_ok: "worker_made d \<Longrightarrow> done_ok d"
  by (auto simp: worker_made_def run_job_ok)

text \<open>Turn after turn, each with its surroundings.\<close>

fun run_loop ::
  "'k machine \<Rightarrow> (control_env \<times> 'k turn_io) list \<Rightarrow> netd_link \<times> 'k timed \<Rightarrow> (netd_link \<times> 'k timed) option" where
  "run_loop mc [] p = Some p"
| "run_loop mc ((E, io) # ts) p =
     (case turn mc E io p of None \<Rightarrow> None | Some (sent, timeout, replies, p') \<Rightarrow> run_loop mc ts p')"

lemma service_sockets_step:
  "daemon_steps K A be tm tm' \<Longrightarrow> daemon_steps K A be tm (service_sockets K A be took on_v4 on_v6 now tm')"
  by (rule also_step [OF _ daemon_step.sockets])

lemma turn_steps:
  assumes "list_all done_ok (io_done io)" "turn mc E io (link, tm) = Some (sent, timeout, replies, link', tm')"
  shows "daemon_steps (mc_kernel mc) (mc_aead mc) (mc_build_epoch mc) tm tm'"
proof -
  let ?steps = "daemon_steps (mc_kernel mc) (mc_aead mc) (mc_build_epoch mc)"
  let ?K = "mc_kernel mc" and ?A = "mc_aead mc" and ?be = "mc_build_epoch mc"
  obtain snapshots l where "netd_service (mc_codec mc) (io_reads io) (io_instant io)
      (netd_maintain (io_accepted io) (io_instant io) link) = (snapshots, l)"
    by (cases "netd_service (mc_codec mc) (io_reads io) (io_instant io) (netd_maintain (io_accepted io) (io_instant io) link)")
  moreover obtain tm1 s1 where w: "turn_work mc E io snapshots tm = (tm1, s1)" by (cases "turn_work mc E io snapshots tm")
  ultimately obtain out where c: "service_control ?K ?be (mc_msgpack mc) E (io_read io 6) (io_clients io)
      (tick io 5 (service_sockets ?K ?A ?be (io_took io) (io_v4 io) (io_v6 io) (io_read io 5) (tick io 4 tm1))) = Some (out, tm')"
    using assms(2) by (auto simp: turn_def Let_def split: option.splits)
  have "?steps tm (tick io 5 (service_sockets ?K ?A ?be (io_took io) (io_v4 io) (io_v6 io) (io_read io 5) (tick io 4 tm1)))"
    by (intro tick_steps service_sockets_step turn_work_steps [OF assms(1) w])
  then show ?thesis using service_control_steps [OF c] by (rule rtranclp_trans)
qed

lemma run_loop_steps:
  assumes "list_all (\<lambda>(E, io). list_all done_ok (io_done io)) ts" "run_loop mc ts (link, tm) = Some (link', tm')"
  shows "daemon_steps (mc_kernel mc) (mc_aead mc) (mc_build_epoch mc) tm tm'"
  using assms
proof (induction ts arbitrary: link tm)
  case (Cons t ts)
  obtain E io where t: "t = (E, io)" by (cases t)
  obtain sent timeout replies l1 tm1 where u: "turn mc E io (link, tm) = Some (sent, timeout, replies, l1, tm1)"
      "run_loop mc ts (l1, tm1) = Some (link', tm')"
    using Cons.prems(2) by (auto simp: t split: option.splits)
  have "daemon_steps (mc_kernel mc) (mc_aead mc) (mc_build_epoch mc) tm tm1"
    using turn_steps [OF _ u(1)] Cons.prems(1) by (simp add: t)
  then show ?case using Cons.IH [OF _ u(2)] Cons.prems(1) by (auto simp: t intro: rtranclp_trans)
qed simp

lemma boot_reach:
  "boot K be listens tck files reg precision v4 v6 now fl fl' k = Some tm \<Longrightarrow> daemon_reach K A be tm"
  by (auto simp: boot_def Let_def intro: daemon_reach.start split: prod.splits if_splits)

text \<open>
  C4: the daemon as it runs is one of the runs of the transition system: from the start of \<open>main\<close>, turn
  after turn of the loop in the order the code has it, with any clients, datagrams, results of the
  worker, snapshots of the network manager and changes of the registry, every state is a reachable
  one; so what holds in every reachable state holds of the running daemon.
\<close>
theorem running_daemon_is_reachable:
  assumes "boot (mc_kernel mc) (mc_build_epoch mc) listens tck files reg precision v4 v6 now fl fl' k = Some tm0"
    and "list_all (\<lambda>(E, io). list_all worker_made (io_done io)) ts"
    and "run_loop mc ts (link, tm0) = Some (link', tm)"
  shows "daemon_reach (mc_kernel mc) (mc_aead mc) (mc_build_epoch mc) tm"
proof -
  have "list_all (\<lambda>(E, io). list_all done_ok (io_done io)) ts"
    using assms(2) by (auto simp: list_all_iff worker_made_ok)
  from reach_steps [OF run_loop_steps [OF this assms(3)] boot_reach [OF assms(1)]] show ?thesis .
qed

text \<open>A quiet turn: nothing arrives, nothing is asked, no time passes.\<close>

definition quiet_io :: "int turn_io" where
  "quiet_io = \<lparr>io_instant = 0, io_accepted = False, io_reads = [], io_read = (\<lambda>i. fzero), io_tick = (\<lambda>i k. k),
     io_watch = None, io_done = [], io_worker_gone = False, io_cookie_fault = NoFault, io_drift_fault = NoFault,
     io_luck = (\<lambda>i. \<lparr>pl_draws = \<lparr>dr_transmit = None, dr_unique_id = None, dr_nonce = None\<rparr>, pl_jitter = None,
       pl_send_error = None\<rparr>),
     io_draw = (\<lambda>i. None), io_v4 = [], io_v6 = [], io_took = (\<lambda>i. True), io_clients = []\<rparr>"

definition plain_machine :: "int machine" where
  "plain_machine = \<lparr>mc_kernel = plain_kernel, mc_aead = toy_aead, mc_build_epoch = 0, mc_msgpack = tagged,
     mc_codec = \<lparr>nc_limit = 1000, nc_decode = (\<lambda>p. Inr NetdOther)\<rparr>\<rparr>"

text \<open>Everyone may ask, nobody may control.\<close>

definition asking_env :: control_env where
  "asking_env = \<lparr>ce_permits = (\<lambda>sd peer right. if right = TIME_QUERY then Some [] else None),
     ce_clock_text = (\<lambda>e. []), ce_protocol_text = (\<lambda>e. []),
     ce_texts = \<lparr>tx_address = (\<lambda>a. []), tx_reference = (\<lambda>r. []), tx_note = (\<lambda>n. [])\<rparr>,
     ce_registry = manual_registry, ce_install = NoFault, ce_remember = NoFault\<rparr>"

lemma turn_without_clients: "io_clients io = [] \<Longrightarrow> \<exists>x. turn mc E io p = Some x"
  by (auto simp: turn_def Let_def case_prod_unfold)

lemma quiet_clients: "io_clients quiet_io = []"
  by (simp add: quiet_io_def)

theorem running_daemon_is_reachable_witness:
  "\<exists>link tm. run_loop plain_machine [(asking_env, quiet_io)] (netd_new 0, manual_daemon) = Some (link, tm)
     \<and> daemon_reach plain_kernel toy_aead 0 tm"
proof -
  obtain x where "turn plain_machine asking_env quiet_io (netd_new 0, manual_daemon) = Some x"
    using turn_without_clients [OF quiet_clients, of plain_machine asking_env "(netd_new 0, manual_daemon)"] by blast
  then obtain link tm where l: "run_loop plain_machine [(asking_env, quiet_io)] (netd_new 0, manual_daemon) = Some (link, tm)"
    by (cases x) auto
  have b: "boot (mc_kernel plain_machine) (mc_build_epoch plain_machine) True id Map.empty manual_registry (- 20) True True
      fzero NoFault NoFault 0 = Some manual_daemon"
    by (simp add: boot_def plain_machine_def enforce_floor_def plain_kernel_def clock_now_def floor_events_def
        manual_daemon_def feq_def)
  have "daemon_reach (mc_kernel plain_machine) (mc_aead plain_machine) (mc_build_epoch plain_machine) tm"
    by (rule running_daemon_is_reachable [OF b _ l]) (simp add: quiet_io_def)
  then show ?thesis using l by (auto simp: plain_machine_def)
qed

section \<open>Who may do what\<close>

text \<open>
  C23: a peer that is refused the right to control changes nothing of the daemon but to be told the
  time: whatever it sends, unless the daemon stops on it, the clock, the settings, the sources, the
  files and the event log are as they were, and all it can have added is itself as a subscriber,
  within the limit on them. The daemon stops on what such a peer sends in one case only: there is room for it, it
  may ask, what it asks is the status, and the index of the system peer is past the end of the table.
\<close>
theorem refused_peer_changes_nothing:
  assumes "ce_permits E (cf_control_security (tm_config tm)) (cl_peer c) TIME_CONTROL = None"
  shows "case serve_client K build_epoch M E now c tm of
      None \<Rightarrow> length (tm_subscribers tm) < MAX_CLIENTS \<and> read_request M (cl_sent c) = Inr ReqStatus
        \<and> ce_permits E (cf_control_security (tm_config tm)) (cl_peer c) TIME_QUERY \<noteq> None
        \<and> (\<exists>i. tm_system_peer tm = Some i \<and> length (tm_entries tm) \<le> i)
    | Some (replies, tm') \<Rightarrow> tm'\<lparr>tm_subscribers := tm_subscribers tm\<rparr> = tm
        \<and> (tm_subscribers tm' = tm_subscribers tm
          \<or> tm_subscribers tm' = tm_subscribers tm @ [[ReplySnapshot (snapshot K tm)]] \<and> length (tm_subscribers tm') \<le> MAX_CLIENTS)"
proof -
  have "required_right r = TIME_CONTROL \<or> r \<in> {ReqStatus, ReqSources, ReqSubscribe}" for r by (cases r) simp_all
  then show ?thesis
    using assms
    by (auto simp: serve_client_def serve_request_def status_def split: sum.splits option.splits request.splits if_splits)
qed

theorem refused_peer_changes_nothing_witness:
  "\<exists>sent. read_request tagged sent = Inr (ReqSet 1000 0)
     \<and> (case serve_client plain_kernel 0 tagged asking_env fzero \<lparr>cl_peer = 1, cl_sent = sent, cl_takes = True\<rparr> manual_daemon of
          None \<Rightarrow> False | Some (replies, tm) \<Rightarrow> tm\<lparr>tm_subscribers := tm_subscribers manual_daemon\<rparr> = manual_daemon)"
proof -
  have "length (request_encode tagged (ReqSet 1000 0)) \<le> MAX_MESSAGE_BYTES"
    by (simp add: wire_simps MAX_MESSAGE_BYTES_def)
  then obtain sent where f: "send_frame (request_encode tagged (ReqSet 1000 0)) = Inr sent" by (simp add: send_frame_def)
  have "request_ok (ReqSet 1000 0)" by (simp add: in_i64_def i64_min_def i64_max_def)
  from request_decode_encode [OF lossless_tagged this] have "read_request tagged sent = Inr (ReqSet 1000 0)"
    using recv_send_frame [OF f, of "[]"] by (simp add: read_request_def del: request_encode.simps)
  moreover have "ce_permits asking_env (cf_control_security (tm_config manual_daemon))
      (cl_peer \<lparr>cl_peer = 1, cl_sent = sent, cl_takes = True\<rparr>) TIME_CONTROL = None"
    by (simp add: asking_env_def TIME_CONTROL_def TIME_QUERY_def)
  from refused_peer_changes_nothing [OF this, where K = plain_kernel and build_epoch = 0 and M = tagged and now = fzero]
  have "case serve_client plain_kernel 0 tagged asking_env fzero \<lparr>cl_peer = 1, cl_sent = sent, cl_takes = True\<rparr> manual_daemon of
      None \<Rightarrow> False | Some (replies, tm) \<Rightarrow> tm\<lparr>tm_subscribers := tm_subscribers manual_daemon\<rparr> = manual_daemon"
    by (auto simp: manual_daemon_state split: option.splits)
  ultimately show ?thesis by blast
qed

text \<open>
  C34: the one request that can stop the daemon, exactly: a status asked by a peer that may ask it,
  while the index of the system peer is past the end of the table of sources.
\<close>
theorem only_stale_peer_panics:
  "serve_client K build_epoch M E now c tm = None \<longleftrightarrow>
     length (tm_subscribers tm) < MAX_CLIENTS \<and> read_request M (cl_sent c) = Inr ReqStatus
     \<and> ce_permits E (cf_control_security (tm_config tm)) (cl_peer c) TIME_QUERY \<noteq> None
     \<and> (case tm_system_peer tm of None \<Rightarrow> False | Some i \<Rightarrow> length (tm_entries tm) \<le> i)"
  by (auto simp: serve_client_def serve_request_def status_def
      split: sum.splits option.splits request.splits if_splits prod.splits)

end
