(* ===== verification/AuditRecord.thy ===== *)
theory AuditRecord
  imports ProtocolLaws Daemon
begin

text \<open>
  The record of a step of the clock (\<open>timed/src/audit.rs\<close>): what moved it, its readings before and
  after, and who asked, as one MessagePack map; and that a reader of such maps finds exactly that.
\<close>

section \<open>The record\<close>

fun step_name :: "step_cause \<Rightarrow> string" where
  "step_name StepAutomatic = ''automatic''"
| "step_name StepManual = ''manual''"
| "step_name StepBootFloor = ''boot-floor''"

definition clock_fields :: "nat option \<Rightarrow> nat option \<Rightarrow> nat" where
  "clock_fields previous now = (if previous \<noteq> None then 1 else 0) + (if now \<noteq> None then 1 else 0)"

definition put_uint :: "msgpack \<Rightarrow> nat \<Rightarrow> bytes" where
  "put_uint M n = mp_put M (TInt (int n))"

definition clock_stepped_payload ::
  "msgpack \<Rightarrow> step_cause \<Rightarrow> nat option \<Rightarrow> nat option \<Rightarrow> bytes option \<Rightarrow> bytes" where
  "clock_stepped_payload M step previous now subject =
     (let fields = clock_fields previous now;
          top = 1 + (if 0 < fields then 1 else 0) + (if subject \<noteq> None then 1 else 0)
      in mp_put M (TMap top)
         @ put_str M ''operation'' @ mp_put M (TMap 1) @ put_str M ''name'' @ put_str M (step_name step)
         @ (if 0 < fields
            then put_str M ''clock'' @ mp_put M (TMap fields)
                 @ (case now of None \<Rightarrow> [] | Some n \<Rightarrow> put_str M ''time'' @ put_uint M n)
                 @ (case previous of None \<Rightarrow> [] | Some p \<Rightarrow> put_str M ''time-previous'' @ put_uint M p)
            else [])
         @ (case subject of
              None \<Rightarrow> []
            | Some sid \<Rightarrow> put_str M ''subject'' @ mp_put M (TMap 1) @ put_str M ''token'' @ mp_put M (TMap 1)
                          @ put_str M ''sid'' @ mp_put M (TBin sid)))"

text \<open>\<open>clock_stepped\<close>: without a caller the record names timed itself, if it could read its own user.\<close>

definition stepped_record :: "msgpack \<Rightarrow> bytes option \<Rightarrow> stepped_event \<Rightarrow> bytes" where
  "stepped_record M own_sid ev =
     clock_stepped_payload M (ev_step ev) (ev_previous ev) (ev_now ev)
       (case ev_caller ev of Some sid \<Rightarrow> Some sid | None \<Rightarrow> own_sid)"

section \<open>A reader\<close>

datatype mp_value = VMap "(string \<times> mp_value) list" | VStr string | VInt int | VBin bytes

text \<open>The pairs of a map, read with the reader of its values; and values nested at most \<open>d\<close> deep.\<close>

fun read_pairs ::
  "msgpack \<Rightarrow> (bytes \<Rightarrow> (mp_value \<times> bytes) option) \<Rightarrow> nat \<Rightarrow> bytes \<Rightarrow> ((string \<times> mp_value) list \<times> bytes) option" where
  "read_pairs M rd 0 r = Some ([], r)"
| "read_pairs M rd (Suc n) r =
     (case mp_next M r of
        Some (TStr key, r) \<Rightarrow>
          (case rd r of
             Some (v, r) \<Rightarrow> map_option (\<lambda>(ps, r). ((key, v) # ps, r)) (read_pairs M rd n r)
           | None \<Rightarrow> None)
      | _ \<Rightarrow> None)"

primrec read_value :: "msgpack \<Rightarrow> nat \<Rightarrow> bytes \<Rightarrow> (mp_value \<times> bytes) option" where
  "read_value M 0 r = None"
| "read_value M (Suc d) r =
     (case mp_next M r of
        Some (TMap n, r) \<Rightarrow> map_option (\<lambda>(ps, r). (VMap ps, r)) (read_pairs M (read_value M d) n r)
      | Some (TStr s, r) \<Rightarrow> Some (VStr s, r)
      | Some (TInt i, r) \<Rightarrow> Some (VInt i, r)
      | Some (TBin b, r) \<Rightarrow> Some (VBin b, r)
      | _ \<Rightarrow> None)"

text \<open>What the record is to say.\<close>

definition step_value :: "step_cause \<Rightarrow> nat option \<Rightarrow> nat option \<Rightarrow> bytes option \<Rightarrow> mp_value" where
  "step_value step previous now subject =
     VMap ([(''operation'', VMap [(''name'', VStr (step_name step))])]
       @ (if previous = None \<and> now = None then []
          else [(''clock'', VMap ((case now of None \<Rightarrow> [] | Some n \<Rightarrow> [(''time'', VInt (int n))])
                  @ (case previous of None \<Rightarrow> [] | Some p \<Rightarrow> [(''time-previous'', VInt (int p))])))])
       @ (case subject of None \<Rightarrow> [] | Some sid \<Rightarrow> [(''subject'', VMap [(''token'', VMap [(''sid'', VBin sid)])])]))"

lemma uint_token: "k < 2 ^ 64 \<Longrightarrow> token_ok (TInt (int k))"
  by simp

lemma next_puts:
  assumes "lossless M"
  shows "n < 2 ^ 32 \<Longrightarrow> mp_next M (mp_put M (TMap n) @ r) = Some (TMap n, r)"
    "text_ok s \<Longrightarrow> mp_next M (put_str M s @ r) = Some (TStr s, r)"
    "k < 2 ^ 64 \<Longrightarrow> mp_next M (put_uint M k @ r) = Some (TInt (int k), r)"
    "length b < 2 ^ 32 \<Longrightarrow> mp_next M (mp_put M (TBin b) @ r) = Some (TBin b, r)"
  using next_put [OF assms] uint_token by (auto simp: put_uint_def)

text \<open>The same at the end of the bytes.\<close>

lemmas next_puts_last = next_puts [where r = "[]", unfolded append_Nil2]

lemma step_name_text: "text_ok (step_name step)"
  by (cases step) simp_all

text \<open>A clock can be read as a count of nanoseconds of 64 bits, or not at all; a user's id is short.\<close>

definition readings_ok :: "nat option \<Rightarrow> nat option \<Rightarrow> bytes option \<Rightarrow> bool" where
  "readings_ok previous now subject \<longleftrightarrow>
     (case previous of None \<Rightarrow> True | Some p \<Rightarrow> p < 2 ^ 64) \<and> (case now of None \<Rightarrow> True | Some n \<Rightarrow> n < 2 ^ 64)
     \<and> (case subject of None \<Rightarrow> True | Some sid \<Rightarrow> length sid < 2 ^ 32)"

text \<open>An encoded pair: its key, the bytes of its value, the value.\<close>

type_synonym part = "string \<times> bytes \<times> mp_value"

definition part_bytes :: "msgpack \<Rightarrow> part \<Rightarrow> bytes" where
  "part_bytes M = (\<lambda>(key, b, v). put_str M key @ b)"

definition reads_as :: "msgpack \<Rightarrow> nat \<Rightarrow> bytes \<Rightarrow> mp_value \<Rightarrow> bool" where
  "reads_as M d b v \<longleftrightarrow> (\<forall>r. read_value M d (b @ r) = Some (v, r))"

definition map_bytes :: "msgpack \<Rightarrow> part list \<Rightarrow> bytes" where
  "map_bytes M ps = mp_put M (TMap (length ps)) @ concat (map (part_bytes M) ps)"

definition map_value :: "part list \<Rightarrow> mp_value" where
  "map_value ps = VMap (map (\<lambda>(key, b, v). (key, v)) ps)"

lemma read_parts:
  assumes "lossless M" "list_all (\<lambda>(key, b, v). text_ok key \<and> reads_as M d b v) ps"
  shows "read_pairs M (read_value M d) (length ps) (concat (map (part_bytes M) ps) @ r) =
    Some (map (\<lambda>(key, b, v). (key, v)) ps, r)"
  using assms(2)
  by (induction ps) (auto simp: part_bytes_def reads_as_def next_puts(2) [OF assms(1)])

lemma reads_values:
  assumes "lossless M"
  shows "text_ok s \<Longrightarrow> reads_as M (Suc d) (put_str M s) (VStr s)"
    "k < 2 ^ 64 \<Longrightarrow> reads_as M (Suc d) (put_uint M k) (VInt (int k))"
    "length b < 2 ^ 32 \<Longrightarrow> reads_as M (Suc d) (mp_put M (TBin b)) (VBin b)"
    "length ps < 2 ^ 32 \<Longrightarrow> list_all (\<lambda>(key, b, v). text_ok key \<and> reads_as M d b v) ps \<Longrightarrow>
      reads_as M (Suc d) (map_bytes M ps) (map_value ps)"
  by (simp_all add: reads_as_def map_bytes_def map_value_def next_puts [OF assms] read_parts [OF assms])

section \<open>The record is read back\<close>

text \<open>Its parts, as the code writes them.\<close>

definition operation_parts :: "msgpack \<Rightarrow> step_cause \<Rightarrow> part list" where
  "operation_parts M step = [(''name'', put_str M (step_name step), VStr (step_name step))]"

definition clock_parts :: "msgpack \<Rightarrow> nat option \<Rightarrow> nat option \<Rightarrow> part list" where
  "clock_parts M previous now =
     (case now of None \<Rightarrow> [] | Some n \<Rightarrow> [(''time'', put_uint M n, VInt (int n))])
     @ (case previous of None \<Rightarrow> [] | Some p \<Rightarrow> [(''time-previous'', put_uint M p, VInt (int p))])"

definition token_parts :: "msgpack \<Rightarrow> bytes \<Rightarrow> part list" where
  "token_parts M sid = [(''sid'', mp_put M (TBin sid), VBin sid)]"

definition subject_parts :: "msgpack \<Rightarrow> bytes \<Rightarrow> part list" where
  "subject_parts M sid = [(''token'', map_bytes M (token_parts M sid), map_value (token_parts M sid))]"

definition nested :: "msgpack \<Rightarrow> string \<Rightarrow> part list \<Rightarrow> part" where
  "nested M key ps = (key, map_bytes M ps, map_value ps)"

definition record_parts :: "msgpack \<Rightarrow> step_cause \<Rightarrow> nat option \<Rightarrow> nat option \<Rightarrow> bytes option \<Rightarrow> part list" where
  "record_parts M step previous now subject =
     [nested M ''operation'' (operation_parts M step)]
     @ (if clock_parts M previous now = [] then [] else [nested M ''clock'' (clock_parts M previous now)])
     @ (case subject of None \<Rightarrow> [] | Some sid \<Rightarrow> [nested M ''subject'' (subject_parts M sid)])"

lemmas parts_defs = operation_parts_def clock_parts_def token_parts_def subject_parts_def nested_def record_parts_def

lemma payload_parts:
  "clock_stepped_payload M step previous now subject = map_bytes M (record_parts M step previous now subject)"
  by (cases previous; cases now; cases subject)
    (simp_all add: clock_stepped_payload_def clock_fields_def parts_defs map_bytes_def part_bytes_def Let_def numeral_2_eq_2 numeral_3_eq_3)

lemma value_parts: "map_value (record_parts M step previous now subject) = step_value step previous now subject"
  by (cases previous; cases now; cases subject) (simp_all add: parts_defs map_value_def step_value_def)

lemma parts_ok:
  assumes "lossless M" "readings_ok previous now subject"
  shows "list_all (\<lambda>(key, b, v). text_ok key \<and> reads_as M 3 b v) (record_parts M step previous now subject)"
    and "length (record_parts M step previous now subject) \<le> 3"
proof -
  have three: "(3 :: nat) = Suc (Suc (Suc 0))" by simp
  note maps = reads_values(4) [OF assms(1)]
  have "reads_as M 3 (map_bytes M (operation_parts M step)) (map_value (operation_parts M step))"
    unfolding three by (rule maps) (simp_all add: operation_parts_def reads_values [OF assms(1)] step_name_text [simplified])
  moreover have "reads_as M 3 (map_bytes M (clock_parts M previous now)) (map_value (clock_parts M previous now))"
    unfolding three
    by (rule maps) (use assms(2) in \<open>auto simp: clock_parts_def readings_ok_def reads_values [OF assms(1)] split: option.splits\<close>)
  moreover have "reads_as M 3 (map_bytes M (subject_parts M sid)) (map_value (subject_parts M sid))"
    if "subject = Some sid" for sid
  proof -
    have "reads_as M (Suc (Suc 0)) (map_bytes M (token_parts M sid)) (map_value (token_parts M sid))"
      by (rule maps) (use assms(2) that in \<open>simp_all add: token_parts_def readings_ok_def reads_values [OF assms(1)]\<close>)
    then show ?thesis unfolding three by (intro maps) (simp_all add: subject_parts_def)
  qed
  ultimately show "list_all (\<lambda>(key, b, v). text_ok key \<and> reads_as M 3 b v) (record_parts M step previous now subject)"
    by (auto simp: record_parts_def nested_def split: option.splits)
  show "length (record_parts M step previous now subject) \<le> 3" by (auto simp: record_parts_def split: option.splits)
qed

definition event_subject :: "bytes option \<Rightarrow> stepped_event \<Rightarrow> bytes option" where
  "event_subject own_sid ev = (case ev_caller ev of Some sid \<Rightarrow> Some sid | None \<Rightarrow> own_sid)"

text \<open>
  C21: the record of a step is one complete value that says exactly what happened: a reader of
  MessagePack finds the operation and, of the two readings of the clock and the user who acted, each
  one that is there and nothing for one that is not, no map announcing a field that it does not
  hold; the user is the caller, or timed's own for what it did by itself.
\<close>
theorem step_record_reads_back:
  assumes "lossless M" "readings_ok (ev_previous ev) (ev_now ev) (event_subject own_sid ev)"
  shows "read_value M 4 (stepped_record M own_sid ev) =
    Some (step_value (ev_step ev) (ev_previous ev) (ev_now ev) (event_subject own_sid ev), [])"
proof -
  let ?ps = "record_parts M (ev_step ev) (ev_previous ev) (ev_now ev) (event_subject own_sid ev)"
  have "reads_as M (Suc 3) (map_bytes M ?ps) (map_value ?ps)"
    by (rule reads_values(4) [OF assms(1) _ parts_ok(1) [OF assms]])
      (rule le_less_trans [OF parts_ok(2) [OF assms]], simp)
  then have "read_value M (Suc 3) (map_bytes M ?ps @ []) = Some (map_value ?ps, [])" by (simp only: reads_as_def)
  moreover have "stepped_record M own_sid ev = map_bytes M ?ps"
    unfolding payload_parts [symmetric] by (simp add: stepped_record_def event_subject_def)
  ultimately show ?thesis unfolding value_parts by simp
qed

theorem step_record_reads_back_witness:
  "read_value tagged 4 (stepped_record tagged None
      \<lparr>ev_step = StepManual, ev_previous = Some 1, ev_now = None, ev_caller = Some [1, 1]\<rparr>) =
   Some (VMap [(''operation'', VMap [(''name'', VStr ''manual'')]), (''clock'', VMap [(''time-previous'', VInt 1)]),
     (''subject'', VMap [(''token'', VMap [(''sid'', VBin [1, 1])])])], [])"
  using step_record_reads_back [OF lossless_tagged,
      of "\<lparr>ev_step = StepManual, ev_previous = Some 1, ev_now = None, ev_caller = Some [1, 1]\<rparr>" None]
  by (simp add: readings_ok_def event_subject_def step_value_def)

end
