(* ===== verification/Entropy.thy ===== *)
theory Entropy
  imports Prelude
begin

text \<open>
  Random bytes (\<open>timed/src/random.rs\<close>): the loop that fills a buffer from the kernel. It waits for as
  long as the kernel interrupts it, so it is a function that may not return (None).
\<close>

section \<open>The loop\<close>

text \<open>
  \<open>getrandom(2)\<close> as it is used: at the \<open>i\<close>-th call, asked for that many bytes, it gives some, is
  interrupted by a signal, or refuses.
\<close>

datatype draw = Drew bytes | Interrupted | Refused string

type_synonym entropy = "nat \<Rightarrow> nat \<Rightarrow> draw"

datatype fill_error = DrawRefused string | DrewNothing

text \<open>\<open>fill\<close>: of the buffer, what has been filled; the rest is asked for again.\<close>

partial_function (option) fill_loop :: "entropy \<Rightarrow> nat \<Rightarrow> nat \<Rightarrow> bytes \<Rightarrow> (fill_error + bytes) option" where
  "fill_loop G room i filled =
     (if length filled < room
      then (case G i (room - length filled) of
              Interrupted \<Rightarrow> fill_loop G room (Suc i) filled
            | Refused e \<Rightarrow> Some (Inl (DrawRefused e))
            | Drew bs \<Rightarrow> (if bs = [] then Some (Inl DrewNothing) else fill_loop G room (Suc i) (filled @ bs)))
      else Some (Inr filled))"

definition fill :: "entropy \<Rightarrow> nat \<Rightarrow> (fill_error + bytes) option" where
  "fill G room = fill_loop G room 0 []"

text \<open>\<open>array\<close> and \<open>u64_value\<close>; the order of the machine's bytes is an argument.\<close>

definition random_array :: "entropy \<Rightarrow> nat \<Rightarrow> (fill_error + bytes) option" where
  "random_array G room = fill G room"

definition u64_value :: "(bytes \<Rightarrow> u64) \<Rightarrow> entropy \<Rightarrow> (fill_error + u64) option" where
  "u64_value from_ne_bytes G = map_option (map_sum id from_ne_bytes) (random_array G 8)"

section \<open>What it returns\<close>

text \<open>The kernel writes no more than it is asked for.\<close>

definition keeps_room :: "entropy \<Rightarrow> bool" where
  "keeps_room G \<longleftrightarrow> (\<forall>i n bs. G i n = Drew bs \<longrightarrow> length bs \<le> n)"

text \<open>What the loop may return: a full buffer of the kernel's bytes, or what stopped it.\<close>

fun from_kernel :: "entropy \<Rightarrow> nat \<Rightarrow> fill_error + bytes \<Rightarrow> bool" where
  "from_kernel G room (Inr out) =
     (length out = room \<and> (\<exists>draws. out = concat draws \<and> list_all (\<lambda>bs. \<exists>i n. G i n = Drew bs) draws))"
| "from_kernel G room (Inl (DrawRefused e)) = (\<exists>i n. G i n = Refused e)"
| "from_kernel G room (Inl DrewNothing) = (\<exists>i n. G i n = Drew [])"

lemma fill_loop_ends:
  assumes "keeps_room G" "\<And>i n. m \<le> i \<Longrightarrow> G i n \<noteq> Interrupted"
    and "length filled \<le> room" "filled = concat draws" "list_all (\<lambda>bs. \<exists>i n. G i n = Drew bs) draws"
  shows "\<exists>r. fill_loop G room i filled = Some r \<and> from_kernel G room r"
  using assms(3-5)
proof (induction "(room - length filled) + (m - i)" arbitrary: i filled draws rule: less_induct)
  case less
  show ?case
  proof (cases "length filled < room")
    case False
    then show ?thesis using less.prems by (subst fill_loop.simps) auto
  next
    case True
    let ?n = "room - length filled"
    show ?thesis
    proof (cases "G i ?n")
      case (Drew bs)
      then have n: "length bs \<le> ?n" using assms(1) by (auto simp: keeps_room_def)
      show ?thesis
      proof (cases "bs = []")
        case False
        then have "(room - length (filled @ bs)) + (m - Suc i) < (room - length filled) + (m - i)"
          using True n by (cases bs) auto
        then have "\<exists>r. fill_loop G room (Suc i) (filled @ bs) = Some r \<and> from_kernel G room r"
          using less.prems True Drew n by (intro less.hyps [where draws = "draws @ [bs]"]) auto
        with True Drew False show ?thesis by (subst fill_loop.simps) simp
      qed (use True Drew in \<open>subst fill_loop.simps, auto\<close>)
    next
      case Interrupted
      then have "i < m" using assms(2) not_le by blast
      then have "\<exists>r. fill_loop G room (Suc i) filled = Some r \<and> from_kernel G room r"
        using less.prems by (intro less.hyps) auto
      with True Interrupted show ?thesis by (subst fill_loop.simps) simp
    next
      case (Refused e)
      with True show ?thesis by (subst fill_loop.simps) auto
    qed
  qed
qed

text \<open>
  C32: filling a buffer ends if the kernel is interrupted only finitely often, however it cuts its
  answers: with a buffer that is full and holds nothing but the kernel's bytes (no byte is left as it
  was created), or with an error the kernel gave. Nothing but endless interruption keeps it waiting.
\<close>
theorem fill_ends:
  assumes "keeps_room G" "\<forall>i\<ge>m. \<forall>n. G i n \<noteq> Interrupted"
  shows "\<exists>r. fill G room = Some r \<and> from_kernel G room r"
  unfolding fill_def using assms by (intro fill_loop_ends [where m = m and draws = "[]"]) auto

text \<open>Interrupted three times, then a byte at a time, or what was asked for if that is less.\<close>

definition slow_kernel :: entropy where
  "slow_kernel i n = (if i < 3 then Interrupted else Drew (replicate (min 1 n) (of_nat i)))"

theorem fill_ends_witness: "\<exists>out. fill slow_kernel 2 = Some (Inr out) \<and> out = [3, 4] \<and> length out = 2"
proof -
  have loop: "fill slow_kernel 2 = Some (Inr [3, 4])"
    by (simp add: fill_def fill_loop.simps slow_kernel_def)
  have "keeps_room slow_kernel" by (auto simp: keeps_room_def slow_kernel_def)
  moreover have "\<forall>i\<ge>3. \<forall>n. slow_kernel i n \<noteq> Interrupted" by (simp add: slow_kernel_def)
  ultimately have "\<exists>r. fill slow_kernel 2 = Some r \<and> from_kernel slow_kernel 2 r" by (rule fill_ends)
  with loop show ?thesis by auto
qed

text \<open>Interrupted for ever, it never returns.\<close>

lemma fill_loop_waits:
  assumes "\<And>i n. G i n = Interrupted" "length filled < room"
  shows "fill_loop G room i filled = None"
proof -
  have "(\<forall>i n. G i n = Interrupted) \<longrightarrow> room \<le> length filled" if "fill_loop G room i filled = Some r" for r
    by (rule fill_loop.raw_induct [OF _ that]) (fastforce split: if_splits draw.splits)
  with assms show ?thesis by (cases "fill_loop G room i filled") auto
qed

lemma fill_waits: "(\<And>i n. G i n = Interrupted) \<Longrightarrow> 0 < room \<Longrightarrow> fill G room = None"
  by (simp add: fill_def fill_loop_waits)

end
