(* ===== verification/ControlGate.thy ===== *)
theory ControlGate
  imports Service
begin

text \<open>
  Who may ask and who may control (\<open>ControlObject\<close> of \<open>timed/src/control.rs\<close>): the descriptor that
  guards the socket's requests and the check of a peer against it. Descriptors, tokens and the check
  itself are the operating system's, and parameters.
\<close>

section \<open>The operating system\<close>

datatype trustee = SidSystem | SidAdministrators | SidEveryone

text \<open>The generic rights spelled out in an object's own: read, write, execute, all.\<close>

record generic_mapping =
  gm_read :: u32
  gm_write :: u32
  gm_execute :: u32
  gm_all :: u32

text \<open>
  Reading a descriptor from bytes; building one from an owner, a group and entries that allow; the
  peer's token, the check of a right, and the token's user. \<open>so_read_control\<close> is the standard right
  to read a descriptor.
\<close>

record ('sd, 'tok) security_os =
  so_from_bytes :: "bytes \<Rightarrow> string + 'sd"
  so_build :: "trustee \<Rightarrow> trustee \<Rightarrow> (trustee \<times> u32) list \<Rightarrow> string + 'sd"
  so_read_control :: u32
  so_open_peer :: "nat \<Rightarrow> string + 'tok"
  so_check :: "'sd \<Rightarrow> u32 \<Rightarrow> generic_mapping \<Rightarrow> 'tok \<Rightarrow> string + bool"
  so_user :: "'tok \<Rightarrow> string + bytes"

section \<open>The control object\<close>

definition TIME_ALL_ACCESS :: u32 where "TIME_ALL_ACCESS = TIME_QUERY OR TIME_CONTROL"

definition default_entries :: "u32 \<Rightarrow> (trustee \<times> u32) list" where
  "default_entries read_control =
     [(SidSystem, TIME_ALL_ACCESS), (SidAdministrators, TIME_ALL_ACCESS), (SidEveryone, TIME_QUERY OR read_control)]"

text \<open>The compiled default; None is the panic if it does not build.\<close>

definition default_sd :: "('sd, 'tok) security_os \<Rightarrow> 'sd option" where
  "default_sd S = (case so_build S SidSystem SidSystem (default_entries (so_read_control S)) of
     Inl e \<Rightarrow> None | Inr sd \<Rightarrow> Some sd)"

definition control_object :: "('sd, 'tok) security_os \<Rightarrow> bytes option \<Rightarrow> 'sd option" where
  "control_object S configured =
     (case configured of
        None \<Rightarrow> default_sd S
      | Some bytes \<Rightarrow> (case so_from_bytes S bytes of Inr sd \<Rightarrow> Some sd | Inl e \<Rightarrow> default_sd S))"

definition control_mapping :: "u32 \<Rightarrow> generic_mapping" where
  "control_mapping rc = \<lparr>gm_read = TIME_QUERY OR rc, gm_write = TIME_CONTROL OR rc, gm_execute = TIME_QUERY,
     gm_all = TIME_ALL_ACCESS\<rparr>"

definition permits :: "('sd, 'tok) security_os \<Rightarrow> 'sd \<Rightarrow> nat \<Rightarrow> u32 \<Rightarrow> bytes option" where
  "permits S sd peer right =
     (case so_open_peer S peer of
        Inl e \<Rightarrow> None
      | Inr token \<Rightarrow>
          (case so_check S sd right (control_mapping (so_read_control S)) token of
             Inl e \<Rightarrow> None
           | Inr allowed \<Rightarrow>
               if \<not> allowed then None
               else (case so_user S token of Inl e \<Rightarrow> None | Inr sid \<Rightarrow> Some sid)))"

text \<open>The check the control socket makes, for the settings in force.\<close>

definition gate :: "('sd, 'tok) security_os \<Rightarrow> bytes option \<Rightarrow> nat \<Rightarrow> u32 \<Rightarrow> bytes option" where
  "gate S configured peer right =
     (case control_object S configured of None \<Rightarrow> None | Some sd \<Rightarrow> permits S sd peer right)"

section \<open>Who passes\<close>

text \<open>
  What the operating system documents of a list of entries that only allow: the compiled default
  builds, and one of the object's own rights is granted exactly when an entry for one of the token's
  identities has it.
\<close>

definition allow_lists_work :: "('sd, 'tok) security_os \<Rightarrow> ('tok \<Rightarrow> trustee set) \<Rightarrow> bool" where
  "allow_lists_work S holds \<longleftrightarrow>
     (\<forall>owner group entries. \<exists>sd. so_build S owner group entries = Inr sd
        \<and> (\<forall>right token. right \<in> {TIME_QUERY, TIME_CONTROL} \<longrightarrow>
             so_check S sd right (control_mapping (so_read_control S)) token =
               Inr (\<exists>(t, mask) \<in> set entries. t \<in> holds token \<and> right AND mask = right)))
     \<and> so_read_control S AND TIME_CONTROL = 0"

text \<open>The identities that hold a right by default.\<close>

fun default_holders :: "u32 \<Rightarrow> trustee set" where
  "default_holders right = (if right = TIME_CONTROL then {SidSystem, SidAdministrators} else UNIV)"

lemma bits_of_rights:
  "TIME_QUERY AND TIME_ALL_ACCESS = TIME_QUERY" "TIME_CONTROL AND TIME_ALL_ACCESS = TIME_CONTROL"
  "TIME_QUERY AND (TIME_QUERY OR rc) = TIME_QUERY"
  "rc AND TIME_CONTROL = 0 \<Longrightarrow> TIME_CONTROL AND (TIME_QUERY OR rc) \<noteq> TIME_CONTROL"
proof -
  show "rc AND TIME_CONTROL = 0 \<Longrightarrow> TIME_CONTROL AND (TIME_QUERY OR rc) \<noteq> TIME_CONTROL"
    unfolding bit.conj_disj_distrib
    by (simp add: and.commute TIME_CONTROL_def TIME_QUERY_def)
qed (simp_all add: TIME_QUERY_def TIME_CONTROL_def TIME_ALL_ACCESS_def)

lemma default_object:
  assumes "case configured of None \<Rightarrow> True | Some bytes \<Rightarrow> (case so_from_bytes S bytes of Inl e \<Rightarrow> True | Inr sd \<Rightarrow> False)"
  shows "control_object S configured = default_sd S"
  using assms by (auto simp: control_object_def split: option.splits sum.splits)

lemma default_check:
  assumes "allow_lists_work S holds"
  obtains sd where "default_sd S = Some sd"
    "\<And>q token. so_check S sd (required_right q) (control_mapping (so_read_control S)) token =
       Inr (holds token \<inter> default_holders (required_right q) \<noteq> {})"
proof -
  let ?rc = "so_read_control S"
  have "\<exists>sd. so_build S SidSystem SidSystem (default_entries ?rc) = Inr sd
      \<and> (\<forall>right token. right \<in> {TIME_QUERY, TIME_CONTROL} \<longrightarrow> so_check S sd right (control_mapping ?rc) token =
          Inr (\<exists>(t, mask) \<in> set (default_entries ?rc). t \<in> holds token \<and> right AND mask = right))"
    using conjunct1 [OF assms [unfolded allow_lists_work_def]] by (elim allE)
  then obtain sd where sd: "so_build S SidSystem SidSystem (default_entries ?rc) = Inr sd"
    and check: "\<And>right token. right \<in> {TIME_QUERY, TIME_CONTROL} \<Longrightarrow>
      so_check S sd right (control_mapping ?rc) token =
        Inr (\<exists>(t, mask) \<in> set (default_entries ?rc). t \<in> holds token \<and> right AND mask = right)" by blast
  have rc: "?rc AND TIME_CONTROL = 0" using assms by (simp add: allow_lists_work_def)
  have all: "UNIV = {SidSystem, SidAdministrators, SidEveryone}" using trustee.exhaust by auto
  have distinct_rights: "TIME_QUERY \<noteq> TIME_CONTROL" by (simp add: TIME_QUERY_def TIME_CONTROL_def)
  have "so_check S sd (required_right q) (control_mapping ?rc) token =
      Inr (holds token \<inter> default_holders (required_right q) \<noteq> {})" for q token
  proof (cases "required_right q = TIME_CONTROL")
    case True
    then show ?thesis using check [of TIME_CONTROL token] bits_of_rights(2) bits_of_rights(4) [OF rc]
      by (auto simp: default_entries_def)
  next
    case False
    then have "required_right q = TIME_QUERY" by (cases q) simp_all
    then show ?thesis using check [of TIME_QUERY token] bits_of_rights(1,3) distinct_rights
      by (auto simp: default_entries_def all)
  qed
  then show thesis using that [of sd] sd by (simp add: default_sd_def)
qed

lemma default_gate:
  assumes "allow_lists_work S holds"
    and "case configured of None \<Rightarrow> True | Some bytes \<Rightarrow> (case so_from_bytes S bytes of Inl e \<Rightarrow> True | Inr sd \<Rightarrow> False)"
  shows "gate S configured peer (required_right q) = Some user \<longleftrightarrow>
    (\<exists>token. so_open_peer S peer = Inr token \<and> so_user S token = Inr user
       \<and> (\<exists>t \<in> holds token. required_right q = TIME_CONTROL \<longrightarrow> t = SidSystem \<or> t = SidAdministrators))"
proof -
  obtain sd where "default_sd S = Some sd"
    and c: "\<And>q token. so_check S sd (required_right q) (control_mapping (so_read_control S)) token =
       Inr (holds token \<inter> default_holders (required_right q) \<noteq> {})"
    using default_check [OF assms(1)] by blast
  then have "gate S configured peer (required_right q) = permits S sd peer (required_right q)"
    by (simp add: gate_def default_object [OF assms(2)])
  then show ?thesis by (auto simp: permits_def c split: sum.splits if_splits)
qed

text \<open>
  C26: by default, and whenever the configured descriptor cannot be read, everyone the system knows
  may ask for the time, and only the system and its administrators may set the clock or have the
  settings read again; a peer whose token or user cannot be read may do neither, and a peer that is
  admitted is known by its own user. A bad descriptor never opens the gate wider.
\<close>
theorem default_gate_admits:
  assumes "allow_lists_work S holds"
    and "case configured of None \<Rightarrow> True | Some bytes \<Rightarrow> (case so_from_bytes S bytes of Inl e \<Rightarrow> True | Inr sd \<Rightarrow> False)"
  shows "gate S configured peer (required_right q) = Some user \<longleftrightarrow>
    (\<exists>token. so_open_peer S peer = Inr token \<and> so_user S token = Inr user
       \<and> (\<exists>t \<in> holds token. required_right q = TIME_CONTROL \<longrightarrow> t = SidSystem \<or> t = SidAdministrators))"
  using assms by (rule default_gate)

text \<open>A system of three users for the witness: a token is the set of its identities.\<close>

definition toy_security :: "((trustee \<times> u32) list, trustee set) security_os" where
  "toy_security = \<lparr>so_from_bytes = (\<lambda>b. Inl ''not a descriptor''), so_build = (\<lambda>owner group entries. Inr entries),
     so_read_control = 0x20000,
     so_open_peer = (\<lambda>peer. if peer = 0 then Inr {SidSystem, SidEveryone} else if peer = 1 then Inr {SidEveryone} else Inl ''gone''),
     so_check = (\<lambda>entries right mapping token. Inr (\<exists>(t, mask) \<in> set entries. t \<in> token \<and> right AND mask = right)),
     so_user = (\<lambda>token. Inr (if SidSystem \<in> token then [18] else [7]))\<rparr>"

theorem default_gate_admits_witness:
  "gate toy_security (Some [1, 2, 3]) 0 TIME_CONTROL = Some [18] \<and> gate toy_security (Some [1, 2, 3]) 1 TIME_CONTROL \<noteq> Some [7]
   \<and> gate toy_security None 1 TIME_QUERY = Some [7]"
proof -
  have works: "allow_lists_work toy_security id"
    by (simp add: allow_lists_work_def toy_security_def TIME_CONTROL_def)
  have bad: "case Some [1, 2, 3] of None \<Rightarrow> True | Some bytes \<Rightarrow> (case so_from_bytes toy_security bytes of Inl e \<Rightarrow> True | Inr sd \<Rightarrow> False)"
    by (simp add: toy_security_def)
  note configured = default_gate_admits [OF works bad]
  note unset = default_gate_admits [OF works, of None]
  have "TIME_QUERY \<noteq> TIME_CONTROL" by (simp add: TIME_QUERY_def TIME_CONTROL_def)
  then show ?thesis
    using configured [of 0 ReqReload "[18]"] configured [of 1 ReqReload "[7]"] unset [of 1 ReqStatus "[7]"]
    by (simp add: toy_security_def)
qed

end
