(* ===== verification/CommandText.thy ===== *)
theory CommandText
  imports FloatText
begin

text \<open>
  The texts of the operator's command (\<open>clock/src/main.rs\<close>): reading the time \<open>clock set\<close> is given, and
  printing durations, ages and names. The zone's calendar (\<open>mktime\<close>) is a parameter.
\<close>

section \<open>Printing numbers\<close>

text \<open>The last \<open>d\<close> decimal digits of a number.\<close>

fun low_digits :: "nat \<Rightarrow> nat \<Rightarrow> string" where
  "low_digits 0 n = []"
| "low_digits (Suc d) n = low_digits d (n div 10) @ [digit_char (n mod 10)]"

text \<open>\<open>{:.d}\<close>: a count of units of \<open>10\<close> to the minus \<open>d\<close>, with \<open>d\<close> places.\<close>

definition show_places :: "nat \<Rightarrow> nat \<Rightarrow> string" where
  "show_places d n = (if d = 0 then show_nat n else show_nat (n div 10 ^ d) @ ''.'' @ low_digits d n)"

fun show_fixed :: "nat \<Rightarrow> f64 \<Rightarrow> string" where
  "show_fixed d NaN = ''NaN''"
| "show_fixed d (Inf s) = (if s then ''-inf'' else ''inf'')"
| "show_fixed d (Fin s m) = (if s then ''-'' else []) @ show_places d (nat (rhe (m * 10 ^ d)))"

text \<open>\<open>{:+.d}\<close>.\<close>

fun show_signed :: "nat \<Rightarrow> f64 \<Rightarrow> string" where
  "show_signed d NaN = ''NaN''"
| "show_signed d (Inf s) = (if s then ''-inf'' else ''+inf'')"
| "show_signed d (Fin s m) = (if s then [] else ''+'') @ show_fixed d (Fin s m)"

lemma show_fixed_3: "show_fixed 3 x = show_f64_3 x"
proof (cases x)
  case (Fin s m)
  have "n div 10 div 10 mod 10 = n div 100 mod 10" for n :: nat by (simp flip: div_mult2_eq)
  then show ?thesis by (simp add: Fin show_places_def show_thousandths_def numeral_3_eq_3)
qed simp_all

definition show_int :: "int \<Rightarrow> string" where
  "show_int i = (if i < 0 then ''-'' @ show_nat (nat (- i)) else show_nat (nat i))"

fun show_octal :: "nat \<Rightarrow> string" where
  "show_octal n = (if n < 8 then [digit_char n] else show_octal (n div 8) @ [digit_char (n mod 8)])"

declare show_octal.simps [simp del]

section \<open>Durations and ages\<close>

definition duration :: "f64 \<Rightarrow> string" where
  "duration seconds =
     (let magnitude = fabs seconds in
      if flt magnitude (lit (1 / 1000000)) then show_signed 0 (fmul seconds (lit 1000000000)) @ ''ns''
      else if flt magnitude (lit (1 / 1000)) then show_signed 1 (fmul seconds (lit 1000000)) @ ''us''
      else if flt magnitude (lit 1) then show_signed 3 (fmul seconds (lit 1000)) @ ''ms''
      else if flt magnitude (lit 300) then show_signed 3 seconds @ ''s''
      else if flt magnitude (lit 86400) then show_signed 1 (fdiv seconds (lit 3600)) @ ''h''
      else show_signed 1 (fdiv seconds (lit 86400)) @ ''d'')"

definition age :: "f64 \<Rightarrow> string" where
  "age seconds =
     (if flt seconds fzero then ''-''
      else if flt seconds (lit 60) then show_fixed 0 seconds @ ''s''
      else if flt seconds (lit 3600) then show_fixed 0 (fdiv seconds (lit 60)) @ ''m''
      else if flt seconds (lit 86400) then show_fixed 1 (fdiv seconds (lit 3600)) @ ''h''
      else show_fixed 1 (fdiv seconds (lit 86400)) @ ''d'')"

text \<open>\<open>trim_start_matches('+')\<close>.\<close>

definition unsigned_text :: "string \<Rightarrow> string" where
  "unsigned_text s = dropWhile (\<lambda>c. c = CHR ''+'') s"

section \<open>Characters and widths\<close>

text \<open>A text is its UTF-8 bytes; a character is a first byte and the continuation bytes after it.\<close>

definition continues :: "char \<Rightarrow> bool" where
  "continues c \<longleftrightarrow> 128 \<le> char_code c \<and> char_code c < 192"

function chars :: "string \<Rightarrow> string list" where
  "chars [] = []"
| "chars (c # s) = (c # takeWhile continues s) # chars (dropWhile continues s)"
  by pat_completeness auto
termination by (relation "measure length") (auto simp: length_dropWhile_le le_imp_less_Suc)

definition ellipsis :: string where
  "ellipsis = [CHR 0xE2, CHR 0x80, CHR 0xA6]"

definition truncate_text :: "string \<Rightarrow> nat \<Rightarrow> string" where
  "truncate_text s width =
     (let cs = chars s
      in if length cs \<le> width then s else ellipsis @ concat (drop (length cs - (width - 1)) cs))"

definition pad_right :: "nat \<Rightarrow> string \<Rightarrow> string" where
  "pad_right width s = s @ replicate (width - length (chars s)) CHR '' ''"

definition pad_left :: "nat \<Rightarrow> string \<Rightarrow> string" where
  "pad_left width s = replicate (width - length (chars s)) CHR '' '' @ s"

section \<open>Reading a time\<close>

text \<open>The broken-down time of the C library, its fields \<open>i32\<close>; \<open>mktime\<close> normalises it.\<close>

record broken_time =
  bt_year :: int
  bt_mon :: int
  bt_mday :: int
  bt_hour :: int
  bt_min :: int
  bt_sec :: int
  bt_isdst :: int

type_synonym calendar = "broken_time \<Rightarrow> int \<times> broken_time"

datatype time_error = NotSeconds string | NotATime string

definition i32_max :: int where "i32_max = 2 ^ 31 - 1"
definition i32_min :: int where "i32_min = - (2 ^ 31)"

text \<open>Arithmetic of \<open>i32\<close> as released: it wraps.\<close>

definition wrap_i32 :: "int \<Rightarrow> int" where
  "wrap_i32 z = (z + 2 ^ 31) mod 2 ^ 32 - 2 ^ 31"

definition parse_i32 :: "string \<Rightarrow> int option" where
  "parse_i32 = parse_signed i32_min i32_max"

text \<open>\<open>split_once\<close> at the first of two characters.\<close>

fun split_at_either :: "char \<Rightarrow> char \<Rightarrow> string \<Rightarrow> (string \<times> string) option" where
  "split_at_either a b [] = None"
| "split_at_either a b (x # xs) =
     (if x = a \<or> x = b then Some ([], xs) else map_option (\<lambda>(p, q). (x # p, q)) (split_at_either a b xs))"

definition read_fields :: "string list \<Rightarrow> string list \<Rightarrow> (int \<times> int \<times> int \<times> int \<times> int \<times> int) option" where
  "read_fields date clock =
     (case (parse_i32 (date ! 0), parse_i32 (date ! 1), parse_i32 (date ! 2), parse_i32 (clock ! 0), parse_i32 (clock ! 1),
            if length clock = 3 then parse_i32 (clock ! 2) else Some 0) of
        (Some year, Some month, Some day, Some hour, Some minute, Some second) \<Rightarrow> Some (year, month, day, hour, minute, second)
      | _ \<Rightarrow> None)"

definition fields_in_range :: "int \<times> int \<times> int \<times> int \<times> int \<times> int \<Rightarrow> bool" where
  "fields_in_range = (\<lambda>(year, month, day, hour, minute, second).
     1 \<le> month \<and> month \<le> 12 \<and> 1 \<le> day \<and> day \<le> 31 \<and> 0 \<le> hour \<and> hour \<le> 23
     \<and> 0 \<le> minute \<and> minute \<le> 59 \<and> 0 \<le> second \<and> second \<le> 60)"

definition broken_down :: "int \<times> int \<times> int \<times> int \<times> int \<times> int \<Rightarrow> broken_time" where
  "broken_down = (\<lambda>(year, month, day, hour, minute, second).
     \<lparr>bt_year = wrap_i32 (year - 1900), bt_mon = month - 1, bt_mday = day, bt_hour = hour, bt_min = minute,
      bt_sec = second, bt_isdst = - 1\<rparr>)"

text \<open>The fields, checked and given to the calendar, which must not have moved the day.\<close>

definition checked_time :: "calendar \<Rightarrow> string \<Rightarrow> int \<times> int \<times> int \<times> int \<times> int \<times> int \<Rightarrow> time_error + int \<times> u32" where
  "checked_time mktime text fs =
     (if \<not> fields_in_range fs then Inl (NotATime text)
      else case mktime (broken_down fs) of (seconds, normal) \<Rightarrow>
        (if seconds = - 1 \<or> bt_mday normal \<noteq> bt_mday (broken_down fs) \<or> bt_mon normal \<noteq> bt_mon (broken_down fs)
         then Inl (NotATime text) else Inr (seconds, 0)))"

definition parse_time :: "calendar \<Rightarrow> string \<Rightarrow> time_error + int \<times> u32" where
  "parse_time mktime text =
     (case strip_prefix CHR ''@'' text of
        Some seconds \<Rightarrow>
          (case parse_signed i64_min i64_max seconds of None \<Rightarrow> Inl (NotSeconds text) | Some s \<Rightarrow> Inr (s, 0))
      | None \<Rightarrow>
          (case split_at_either CHR '' '' CHR ''T'' text of
             None \<Rightarrow> Inl (NotATime text)
           | Some (date, clock) \<Rightarrow>
               (let date = split_on CHR ''-'' date; clock = split_on CHR '':'' (trim clock) in
                if length date \<noteq> 3 \<or> \<not> (2 \<le> length clock \<and> length clock \<le> 3) then Inl (NotATime text)
                else case read_fields date clock of
                  None \<Rightarrow> Inl (NotATime text) | Some fs \<Rightarrow> checked_time mktime text fs)))"

section \<open>A time that was written is read\<close>

text \<open>Two and four digits, and the time as people write it, with or without its seconds.\<close>

definition two :: "nat \<Rightarrow> string" where "two n = low_digits 2 n"
definition four :: "nat \<Rightarrow> string" where "four n = low_digits 4 n"

definition written_time :: "char \<Rightarrow> bool \<Rightarrow> nat \<times> nat \<times> nat \<times> nat \<times> nat \<times> nat \<Rightarrow> string" where
  "written_time sep with_seconds = (\<lambda>(year, month, day, hour, minute, second).
     four year @ ''-'' @ two month @ ''-'' @ two day @ sep # two hour @ '':'' @ two minute
     @ (if with_seconds then '':'' @ two second else []))"

definition as_fields :: "nat \<times> nat \<times> nat \<times> nat \<times> nat \<times> nat \<Rightarrow> int \<times> int \<times> int \<times> int \<times> int \<times> int" where
  "as_fields = (\<lambda>(year, month, day, hour, minute, second). (int year, int month, int day, int hour, int minute, int second))"

lemma to_digit_char: "d < 10 \<Longrightarrow> to_digit 10 (digit_char d) = Some d"
  by (simp add: to_digit_def is_ascii_digit_def Let_def)

lemma digits_value_append: "digits_value acc (a @ b) = Option.bind (digits_value acc a) (\<lambda>n. digits_value n b)"
  by (induction a arbitrary: acc) (auto split: option.splits)

lemma digits_value_low: "digits_value acc (low_digits d n) = Some (acc * 10 ^ d + n mod 10 ^ d)"
proof (induction d arbitrary: n acc)
  case (Suc d)
  have "n mod (10 * 10 ^ d) = 10 * (n div 10 mod 10 ^ d) + n mod 10" by (simp add: mod_mult2_eq)
  then show ?case by (simp add: digits_value_append Suc to_digit_char algebra_simps)
qed simp

lemma length_low [simp]: "length (low_digits d n) = d"
  by (induction d arbitrary: n) simp_all

lemma low_digits_digits: "list_all is_ascii_digit (low_digits d n)"
  by (induction d arbitrary: n) simp_all

lemma split_on_one: "c \<notin> set a \<Longrightarrow> split_on c a = [a]"
  by (induction a) auto

lemma split_on_append: "c \<notin> set a \<Longrightarrow> split_on c (a @ c # b) = a # split_on c b"
  by (induction a) auto

lemma split_at_either_append:
  "a \<notin> set p \<Longrightarrow> b \<notin> set p \<Longrightarrow> x = a \<or> x = b \<Longrightarrow> split_at_either a b (p @ x # q) = Some (p, q)"
  by (induction p) auto

text \<open>No digit is one of the separators.\<close>

lemma digits_exclude:
  assumes "list_all is_ascii_digit s" "char_code c < 48 \<or> 57 < char_code c"
  shows "c \<notin> set s"
  using assms by (auto simp: list_all_iff is_ascii_digit_def)

lemma low_excludes: "CHR ''-'' \<notin> set (low_digits d n)" "CHR '':'' \<notin> set (low_digits d n)"
    "CHR '' '' \<notin> set (low_digits d n)" "CHR ''T'' \<notin> set (low_digits d n)"
  by (rule digits_exclude [OF low_digits_digits], simp add: char_code_def)+

lemma low_digits_head: "0 < d \<Longrightarrow> \<exists>c r. low_digits d n = c # r \<and> is_ascii_digit c"
  using low_digits_digits [of d n] by (cases "low_digits d n") (auto dest: arg_cong [of _ _ length])

lemma case_minus: "(case c # r of CHR ''-'' # r' \<Rightarrow> a r' | _ \<Rightarrow> b) = (if c = CHR ''-'' then a r else b)"
  by (cases c) (auto split: bool.splits)

lemma case_sign: "(case c # r of CHR ''-'' # r' \<Rightarrow> r' | CHR ''+'' # r' \<Rightarrow> r' | _ \<Rightarrow> c # r) =
    (if c = CHR ''-'' \<or> c = CHR ''+'' then r else c # r)"
  by (cases c) (auto split: bool.splits)

lemma parse_low:
  assumes "0 < d" "n < 10 ^ d" "lo \<le> int n" "int n \<le> hi"
  shows "parse_signed lo hi (low_digits d n) = Some (int n)"
proof -
  obtain c r where c: "low_digits d n = c # r" "is_ascii_digit c" using low_digits_head [OF assms(1)] by blast
  have "c \<noteq> CHR ''-''" "c \<noteq> CHR ''+''" using c(2) by (auto simp: is_ascii_digit_def char_code_def)
  then have "parse_signed lo hi (low_digits d n) = (case digits_value 0 (low_digits d n) of None \<Rightarrow> None
      | Some n \<Rightarrow> if lo \<le> int n \<and> int n \<le> hi then Some (int n) else None)"
    unfolding c(1) parse_signed_def case_minus case_sign by (simp add: Let_def split: option.split)
  then show ?thesis using assms by (simp add: digits_value_low)
qed

lemma plain_low: "list_all plain_char (low_digits d n)"
  using low_digits_digits [of d n] by (auto simp: list_all_iff is_ascii_digit_def plain_char_def)

lemma parse_two: "n < 100 \<Longrightarrow> parse_i32 (two n) = Some (int n)"
  unfolding parse_i32_def two_def by (rule parse_low) (simp_all add: i32_min_def i32_max_def)

lemma parse_four: "n < 10000 \<Longrightarrow> parse_i32 (four n) = Some (int n)"
  unfolding parse_i32_def four_def by (rule parse_low) (simp_all add: i32_min_def i32_max_def)

text \<open>The fields of a written time have at most the digits they are written with.\<close>

fun writable :: "nat \<times> nat \<times> nat \<times> nat \<times> nat \<times> nat \<Rightarrow> bool" where
  "writable (year, month, day, hour, minute, second) \<longleftrightarrow>
     year < 10000 \<and> month < 100 \<and> day < 100 \<and> hour < 100 \<and> minute < 100 \<and> second < 100"

fun without_seconds :: "nat \<times> nat \<times> nat \<times> nat \<times> nat \<times> nat \<Rightarrow> nat \<times> nat \<times> nat \<times> nat \<times> nat \<times> nat" where
  "without_seconds (year, month, day, hour, minute, second) = (year, month, day, hour, minute, 0)"

lemma parse_written:
  assumes "writable t" "sep = CHR '' '' \<or> sep = CHR ''T''"
  shows "parse_time mktime (written_time sep with_seconds t) =
    checked_time mktime (written_time sep with_seconds t) (as_fields (if with_seconds then t else without_seconds t))"
proof -
  obtain y mo d h mi s where t: "t = (y, mo, d, h, mi, s)" by (cases t) auto
  let ?date = "four y @ ''-'' @ two mo @ ''-'' @ two d"
  let ?clock = "two h @ '':'' @ two mi @ (if with_seconds then '':'' @ two s else [])"
  let ?text = "written_time sep with_seconds t"
  have tx: "?text = ?date @ sep # ?clock" by (simp add: t written_time_def)
  obtain c r where c: "four y = c # r" "is_ascii_digit c" using low_digits_head [of 4 y] by (auto simp: four_def)
  have "c \<noteq> CHR ''@''" using c(2) by (auto simp: is_ascii_digit_def char_code_def)
  then have at: "strip_prefix CHR ''@'' ?text = None" by (simp add: tx c(1))
  have split: "split_at_either CHR '' '' CHR ''T'' ?text = Some (?date, ?clock)"
    unfolding tx by (rule split_at_either_append) (use assms(2) in \<open>auto simp: four_def two_def low_excludes\<close>)
  have date: "split_on CHR ''-'' ?date = [four y, two mo, two d]"
    using split_on_append [of "CHR ''-''" "four y" "two mo @ ''-'' @ two d"] split_on_append [of "CHR ''-''" "two mo" "two d"]
    by (simp add: four_def two_def low_excludes split_on_one)
  have "list_all plain_char ?clock" "?clock \<noteq> []" using plain_low by (auto simp: two_def plain_char_def char_code_def)
  from trim_plain [OF this, of "[]"] have trim: "trim ?clock = ?clock" by simp
  have clock: "split_on CHR '':'' ?clock = (if with_seconds then [two h, two mi, two s] else [two h, two mi])"
    using split_on_append [of "CHR '':''" "two h"] split_on_append [of "CHR '':''" "two mi" "two s"]
    by (cases with_seconds) (simp_all add: two_def low_excludes split_on_one)
  have "read_fields [four y, two mo, two d] (if with_seconds then [two h, two mi, two s] else [two h, two mi]) =
      Some (as_fields (if with_seconds then t else without_seconds t))"
    using assms(1) by (simp add: t read_fields_def as_fields_def parse_two parse_four)
  then show ?thesis unfolding parse_time_def at split option.case prod.case Let_def date trim clock by simp
qed

text \<open>
  A time written with its date and its hour, with or without seconds, with a space or a \<open>T\<close>
  between, is read as the fields it was written from, which the calendar of the zone then decides
  on; without seconds they are zero.
\<close>
theorem written_time_is_read:
  assumes "writable t" "sep = CHR '' '' \<or> sep = CHR ''T''"
  shows "parse_time mktime (written_time sep with_seconds t) =
    checked_time mktime (written_time sep with_seconds t) (as_fields (if with_seconds then t else without_seconds t))"
  using assms by (rule parse_written)

text \<open>A calendar for the witnesses: seconds of a year of months of thirty-one days.\<close>

definition plain_calendar :: calendar where
  "plain_calendar bt = (((((bt_year bt * 12 + bt_mon bt) * 31 + bt_mday bt) * 24 + bt_hour bt) * 60 + bt_min bt) * 60 + bt_sec bt, bt)"

lemma digit_chars:
  "digit_char 0 = CHR ''0''" "digit_char 1 = CHR ''1''" "digit_char 2 = CHR ''2''" "digit_char 3 = CHR ''3''"
  "digit_char 4 = CHR ''4''" "digit_char 5 = CHR ''5''" "digit_char 6 = CHR ''6''" "digit_char 7 = CHR ''7''"
  "digit_char 8 = CHR ''8''" "digit_char 9 = CHR ''9''" "digit_char (Suc 0) = CHR ''1''"
  by code_simp+

lemma few_digits:
  "low_digits 2 n = [digit_char (n div 10 mod 10), digit_char (n mod 10)]"
  "low_digits 4 n = [digit_char (n div 10 div 10 div 10 mod 10), digit_char (n div 10 div 10 mod 10),
     digit_char (n div 10 mod 10), digit_char (n mod 10)]"
proof -
  have "(2 :: nat) = Suc (Suc 0)" "(4 :: nat) = Suc (Suc (Suc (Suc 0)))" by simp_all
  then show "low_digits 2 n = [digit_char (n div 10 mod 10), digit_char (n mod 10)]"
    "low_digits 4 n = [digit_char (n div 10 div 10 div 10 mod 10), digit_char (n div 10 div 10 mod 10),
       digit_char (n div 10 mod 10), digit_char (n mod 10)]"
    by (simp_all only: low_digits.simps append_Nil append_Cons append.simps)
qed

theorem written_time_is_read_witness:
  "written_time CHR ''T'' False (1900, 2, 1, 0, 1, 0) = ''1900-02-01T00:01''
   \<and> parse_time plain_calendar ''1900-02-01T00:01'' = Inr (2764860, 0)"
proof -
  have w: "written_time CHR ''T'' False (1900, 2, 1, 0, 1, 0) = ''1900-02-01T00:01''"
    by (simp add: written_time_def four_def two_def few_digits digit_chars)
  have "parse_time plain_calendar (written_time CHR ''T'' False (1900, 2, 1, 0, 1, 0)) =
      checked_time plain_calendar (written_time CHR ''T'' False (1900, 2, 1, 0, 1, 0)) (1900, 2, 1, 0, 1, 0)"
    using written_time_is_read [of "(1900, 2, 1, 0, 1, 0)" "CHR ''T''" plain_calendar False] by (simp add: as_fields_def)
  also have "\<dots> = Inr (2764860, 0)"
    by (simp add: checked_time_def fields_in_range_def broken_down_def plain_calendar_def wrap_i32_def)
  finally show ?thesis using w by simp
qed

section \<open>A time that is accepted\<close>






end
