(* ===== verification/ClockCommand.thy ===== *)
theory ClockCommand
  imports Service CommandText
begin

text \<open>
  The operator's command (\<open>clock/src/main.rs\<close>): its verbs, what they print and the code they end with,
  and the daemon at the other end of its socket.
\<close>

section \<open>Surroundings\<close>

text \<open>
  What the command meets: the socket (an error, or a server that answers the bytes it is sent), the
  calendar, MessagePack, and the texts the formatter gives errors and values.
\<close>

record command_env =
  cm_connect :: "string + (bytes \<Rightarrow> bytes)"
  cm_calendar :: calendar
  cm_msgpack :: msgpack
  cm_protocol_text :: "protocol_error \<Rightarrow> string"
  cm_debug_reply :: "reply \<Rightarrow> string"
  cm_debug_text :: "string \<Rightarrow> string"

record run_result =
  rn_out :: "string list"
  rn_err :: "string list"
  rn_code :: nat

definition EXIT_OK :: nat where "EXIT_OK = 0"
definition EXIT_FAILED :: nat where "EXIT_FAILED = 1"
definition EXIT_ABSENT :: nat where "EXIT_ABSENT = 2"
definition EXIT_USAGE :: nat where "EXIT_USAGE = 64"

definition SOCKET_PATH :: string where "SOCKET_PATH = ''/run/timed/time.sock''"

definition help_lines :: "string list" where
  "help_lines =
     [''usage: clock <command>'', '''',
      ''  status              how well the clock is being kept'',
      ''  sources             every configured source and how it is faring'',
      ''  reload              re-read Machine'' @ CHR 0x5C # ''System'' @ CHR 0x5C # ''Time and poll now'',
      ''  set TIME            set the clock, while Automatic is 0'',
      ''                      TIME is local: 2026-10-04 14:05 or 2026-10-04 14:05:30,'',
      ''                      or @SECONDS since 1970 (UTC)'', '''',
      ''Time policy is registry configuration; set it with reg, then `clock reload`.'']"

definition failed :: "string \<Rightarrow> run_result" where
  "failed message = \<lparr>rn_out = [], rn_err = [''clock: '' @ message], rn_code = EXIT_FAILED\<rparr>"

definition done_with :: "string list \<Rightarrow> run_result" where
  "done_with out = \<lparr>rn_out = out, rn_err = [], rn_code = EXIT_OK\<rparr>"

section \<open>Asking\<close>

definition connect :: "command_env \<Rightarrow> string + (bytes \<Rightarrow> bytes)" where
  "connect V = (case cm_connect V of
     Inl e \<Rightarrow> Inl (''cannot reach timed at '' @ SOCKET_PATH @ '': '' @ e) | Inr server \<Rightarrow> Inr server)"

definition call_server :: "msgpack \<Rightarrow> (bytes \<Rightarrow> bytes) \<Rightarrow> request \<Rightarrow> protocol_error + reply" where
  "call_server M server request =
     (case send_frame (request_encode M request) of
        Inl e \<Rightarrow> Inl e
      | Inr sent \<Rightarrow>
          (case recv_frame (server sent) of Inl e \<Rightarrow> Inl e | Inr (payload, rest) \<Rightarrow> reply_decode M payload))"

definition ask :: "command_env \<Rightarrow> request \<Rightarrow> string + reply" where
  "ask V request =
     (case connect V of
        Inl e \<Rightarrow> Inl e
      | Inr server \<Rightarrow>
          (case call_server (cm_msgpack V) server request of Inl e \<Rightarrow> Inl (cm_protocol_text V e) | Inr r \<Rightarrow> Inr r))"

text \<open>What a verb that is only acknowledged makes of the answer.\<close>

definition acknowledged :: "command_env \<Rightarrow> string \<Rightarrow> string + reply \<Rightarrow> run_result" where
  "acknowledged V done_text answer =
     (case answer of
        Inr ReplyOk \<Rightarrow> done_with [done_text]
      | Inr (ReplyError e) \<Rightarrow> failed e
      | Inr other \<Rightarrow> failed (''unexpected reply '' @ cm_debug_reply V other)
      | Inl e \<Rightarrow> failed e)"

section \<open>Status\<close>

definition dash :: string where "dash = [CHR '' '', CHR 0xE2, CHR 0x80, CHR 0x94, CHR '' '']"

definition state_note :: "status_info \<Rightarrow> string" where
  "state_note s =
     (if ss_manual s then dash @ ''Automatic is 0: the clock is set by hand''
      else case ss_sync s of
        SyncUnsynchronised \<Rightarrow> dash @ ''the clock is not being steered''
      | SyncSpike \<Rightarrow> dash @ ''a large offset is being timed; the clock is untouched''
      | _ \<Rightarrow> [])"

definition status_lines :: "status_info \<Rightarrow> string list" where
  "status_lines s =
     [''generation   '' @ show_nat (unat (ss_generation s)),
      ''time zone    '' @ (case ss_zone s of None \<Rightarrow> ''UTC (none chosen)'' | Some z \<Rightarrow> z),
      ''state        '' @ sync_as_str (ss_sync s) @ state_note s,
      (case ss_system_peer s of
         Some peer \<Rightarrow> ''following    '' @ peer @ '' (stratum '' @ show_nat (unat (ss_stratum s)) @ '')''
       | None \<Rightarrow> ''following    nothing''),
      ''offset       '' @ duration (ss_offset s),
      ''frequency    '' @ show_signed 3 (ss_frequency_ppm s) @ '' ppm'',
      ''jitter       '' @ duration (ss_jitter s),
      ''accuracy     within '' @ unsigned_text (duration (ss_root_distance s)),
      ''  root delay      '' @ unsigned_text (duration (ss_root_delay s)),
      ''  root dispersion '' @ unsigned_text (duration (ss_root_dispersion s))]
     @ (if ss_leap s \<noteq> 0
        then [''leap         a second will be '' @ (if 0 < ss_leap s then ''inserted'' else ''deleted'') @ '' at the end of the day'']
        else [])
     @ [''sources      '' @ show_nat (unat (ss_sources s)) @ '' configured, '' @ show_nat (unat (ss_selected s)) @ '' contributing'',
        ''updates      '' @ show_nat (unat (ss_updates s)) @ '' (last '' @ age (ss_last_update s) @ '' ago)'']
     @ (if \<not> feq (ss_stepped s) fzero then [''stepped      '' @ duration (ss_stepped s) @ '' in total since start''] else [])
     @ [''floor        '' @ show_int (ss_floor s) @ '' (the build timestamp; the clock is never set below it)'']"

definition run_status :: "command_env \<Rightarrow> run_result" where
  "run_status V =
     (case ask V ReqStatus of
        Inl e \<Rightarrow> failed e
      | Inr (ReplyStatus s) \<Rightarrow> done_with (status_lines s)
      | Inr (ReplyError e) \<Rightarrow> failed e
      | Inr other \<Rightarrow> failed (''unexpected reply '' @ cm_debug_reply V other))"

section \<open>Sources\<close>

fun state_mark :: "source_state \<Rightarrow> char" where
  "state_mark SystemPeer = CHR ''*''"
| "state_mark CandidateState = CHR ''+''"
| "state_mark Outlier = CHR ''-''"
| "state_mark Falseticker = CHR ''x''"
| "state_mark Unreachable = CHR '' ''"
| "state_mark Unusable = CHR ''?''"

fun spaced :: "string list \<Rightarrow> string" where
  "spaced [] = []"
| "spaced [s] = s"
| "spaced (s # ss) = s @ CHR '' '' # spaced ss"

definition table_head :: string where
  "table_head = spaced [pad_right 1 '''', pad_right 24 ''source'', pad_right 10 ''state'', pad_right 5 ''auth'',
     pad_left 4 ''str'', pad_left 5 ''reach'', pad_left 10 ''offset'', pad_left 9 ''delay'', pad_left 9 ''distance'',
     pad_left 7 ''last'']"

definition source_line :: "source_info \<Rightarrow> string" where
  "source_line s = spaced [[state_mark (si_state s)], pad_right 24 (truncate_text (si_name s) 24),
     pad_right 10 (source_state_as_str (si_state s)), pad_right 5 (auth_as_str (si_auth s)),
     pad_left 4 (show_nat (unat (si_stratum s))), pad_left 5 (show_octal (unat (si_reach s))),
     pad_left 10 (duration (si_offset s)), pad_left 9 (unsigned_text (duration (si_delay s))),
     pad_left 9 (unsigned_text (duration (si_root_distance s))), pad_left 7 (age (si_last s))]"

definition source_lines :: "source_info \<Rightarrow> string list" where
  "source_lines s = source_line s # (case si_note s of None \<Rightarrow> [] | Some note \<Rightarrow> [''    '' @ note])"

definition sources_table :: "source_info list \<Rightarrow> string list" where
  "sources_table ss = table_head # concat (map source_lines ss)
     @ ['''', ''* system peer  + candidate  - outlier  x falseticker  ? unusable'']"

fun client_error_text :: "command_env \<Rightarrow> client_error \<Rightarrow> string" where
  "client_error_text V (WireFailed e) = cm_protocol_text V e"
| "client_error_text V (AnswerFailed (ServerError message)) = message"
| "client_error_text V (AnswerFailed (UnexpectedReply other)) = ''unexpected reply '' @ cm_debug_reply V other"

definition run_sources :: "command_env \<Rightarrow> run_result" where
  "run_sources V =
     (case connect V of
        Inl e \<Rightarrow> failed e
      | Inr server \<Rightarrow>
          (case send_frame (request_encode (cm_msgpack V) ReqSources) of
             Inl e \<Rightarrow> failed (cm_protocol_text V e)
           | Inr sent \<Rightarrow>
               (case client_sources (cm_msgpack V) (server sent) of
                  Inl e \<Rightarrow> failed (client_error_text V e)
                | Inr ss \<Rightarrow>
                    if ss = [] then \<lparr>rn_out = [''no sources configured''], rn_err = [], rn_code = EXIT_ABSENT\<rparr>
                    else done_with (sources_table ss))))"

section \<open>Setting and reloading\<close>

fun time_error_text :: "command_env \<Rightarrow> time_error \<Rightarrow> string" where
  "time_error_text V (NotSeconds text) = cm_debug_text V text @ '' is not a number of seconds''"
| "time_error_text V (NotATime text) = cm_debug_text V text @ '' is not a time like 2026-10-04 14:05''"

definition run_set :: "command_env \<Rightarrow> string \<Rightarrow> run_result" where
  "run_set V time =
     (case parse_time (cm_calendar V) time of
        Inl e \<Rightarrow> \<lparr>rn_out = [], rn_err = [''clock: '' @ time_error_text V e], rn_code = EXIT_USAGE\<rparr>
      | Inr (seconds, nanos) \<Rightarrow> acknowledged V ''the clock is set'' (ask V (ReqSet seconds nanos)))"

definition run_reload :: "command_env \<Rightarrow> run_result" where
  "run_reload V = acknowledged V ''timed is re-reading its configuration'' (ask V ReqReload)"

section \<open>The command line\<close>

definition usage :: "string \<Rightarrow> run_result" where
  "usage message = \<lparr>rn_out = [], rn_err = message # help_lines, rn_code = EXIT_USAGE\<rparr>"

definition run_clock :: "command_env \<Rightarrow> string list \<Rightarrow> run_result" where
  "run_clock V arguments =
     (let command = (case arguments of [] \<Rightarrow> ''status'' | c # rest \<Rightarrow> c) in
      if command = ''-h'' \<or> command = ''--help'' \<or> command = ''help'' then done_with help_lines
      else if command = ''status'' then run_status V
      else if command = ''sources'' then run_sources V
      else if command = ''reload'' then run_reload V
      else if command = ''set''
      then (let time = spaced (tl arguments)
            in if time = [] then usage ''clock: set needs a time'' else run_set V time)
      else usage (''clock: unknown command '' @ cm_debug_text V command))"

section \<open>The daemon at the other end of the socket\<close>

text \<open>
  A connection served by the daemon: it is given the bytes the command sends and answers with the
  frames of its replies; a daemon that stops answers nothing.
\<close>

definition daemon_server ::
  "'k kernel \<Rightarrow> int \<Rightarrow> msgpack \<Rightarrow> control_env \<Rightarrow> f64 \<Rightarrow> nat \<Rightarrow> bool \<Rightarrow> 'k timed \<Rightarrow> bytes \<Rightarrow> bytes" where
  "daemon_server K build_epoch M E now peer takes tm sent =
     (case serve_client K build_epoch M E now \<lparr>cl_peer = peer, cl_sent = sent, cl_takes = takes\<rparr> tm of
        None \<Rightarrow> [] | Some (replies, tm') \<Rightarrow> send_replies M replies)"

definition request_fits :: "msgpack \<Rightarrow> request \<Rightarrow> bool" where
  "request_fits M q = (request_ok q \<and> length (request_encode M q) \<le> MAX_MESSAGE_BYTES)"

text \<open>What the daemon makes of a request that reached it.\<close>

definition served ::
  "'k kernel \<Rightarrow> int \<Rightarrow> control_env \<Rightarrow> f64 \<Rightarrow> nat \<Rightarrow> bool \<Rightarrow> request \<Rightarrow> 'k timed \<Rightarrow> (reply list \<times> 'k timed) option" where
  "served K build_epoch E now peer takes q tm =
     (if MAX_CLIENTS \<le> length (tm_subscribers tm) then Some ([ReplyError ''too many clients''], tm)
      else case ce_permits E (cf_control_security (tm_config tm)) peer (required_right q) of
        None \<Rightarrow> Some ([ReplyError ''not permitted''], tm)
      | Some caller \<Rightarrow> serve_request K build_epoch E now caller takes q tm)"

lemma request_arrives:
  assumes "lossless M" "request_fits M q"
  obtains sent where "send_frame (request_encode M q) = Inr sent"
    "\<And>K build_epoch E now peer takes tm. serve_client K build_epoch M E now \<lparr>cl_peer = peer, cl_sent = sent, cl_takes = takes\<rparr> tm =
       served K build_epoch E now peer takes q tm"
proof -
  obtain sent where sent: "send_frame (request_encode M q) = Inr sent"
    using assms(2) by (simp add: request_fits_def send_frame_def)
  have "read_request M sent = Inr q"
    using recv_send_frame [OF sent, of "[]"] request_decode_encode [OF assms(1)] assms(2)
    by (simp add: read_request_def request_fits_def del: request_encode.simps)
  then show thesis by (intro that [OF sent]) (simp_all add: serve_client_def served_def split: option.split)
qed

lemma nothing_received: "recv_frame [] = Inl ShortRead"
  by (simp add: recv_frame_def)

lemma first_reply_read:
  assumes "lossless M" "reply_ok r"
  shows "(case recv_frame (send_replies M (r # rs)) of Inl e \<Rightarrow> Inl e | Inr (payload, rest) \<Rightarrow> reply_decode M payload) =
    (if frames M r then Inr r else Inl ShortRead)"
proof (cases "frames M r")
  case True
  then obtain f where f: "send_frame (reply_encode M r) = Inr f" using frames_send by blast
  then show ?thesis using True recv_send_frame [OF f] reply_decode_encode [OF assms] by simp
next
  case False
  then show ?thesis by (simp add: frames_def send_frame_def nothing_received)
qed

text \<open>A request answered by one reply: what \<open>ask\<close> returns.\<close>

lemma ask_daemon:
  assumes "lossless (cm_msgpack V)" "request_fits (cm_msgpack V) q"
    and "cm_connect V = Inr (daemon_server K build_epoch (cm_msgpack V) E now peer takes tm)"
    and "served K build_epoch E now peer takes q tm = Some (r # rs, tm')" "reply_ok r"
  shows "ask V q = (if frames (cm_msgpack V) r then Inr r else Inl (cm_protocol_text V ShortRead))"
proof (rule request_arrives [OF assms(1,2)])
  fix sent
  assume "send_frame (request_encode (cm_msgpack V) q) = Inr sent"
    and "\<And>K build_epoch E now peer takes tm. serve_client K build_epoch (cm_msgpack V) E now
       \<lparr>cl_peer = peer, cl_sent = sent, cl_takes = takes\<rparr> tm = served K build_epoch E now peer takes q (tm :: 'a timed)"
  then show ?thesis
    using first_reply_read [OF assms(1,5), of rs] assms(4)
    by (simp add: ask_def connect_def call_server_def daemon_server_def assms(3) del: send_replies.simps)
qed

lemma set_code:
  assumes "parse_time (cm_calendar V) (spaced words) = Inr (seconds, nanos)"
  shows "run_clock V (''set'' # words) = acknowledged V ''the clock is set'' (ask V (ReqSet seconds nanos))"
proof -
  have "parse_time (cm_calendar V) [] = Inl (NotATime [])" by (simp add: parse_time_def)
  then have "spaced words \<noteq> []" using assms by auto
  then show ?thesis using assms by (simp add: run_clock_def run_set_def Let_def)
qed

lemma acknowledged_code: "rn_code (acknowledged V d answer) = EXIT_OK \<longleftrightarrow> answer = Inr ReplyOk"
  by (auto simp: acknowledged_def failed_def done_with_def EXIT_OK_def EXIT_FAILED_def split: sum.splits reply.splits)

section \<open>What \<open>clock set\<close> reports\<close>

lemma ask_set:
  assumes "lossless (cm_msgpack V)" "request_fits (cm_msgpack V) (ReqSet seconds nanos)"
    and "cm_connect V = Inr (daemon_server K build_epoch (cm_msgpack V) E now peer takes tm)"
    and "\<forall>r. reply_ok (set_reply (ce_clock_text E) r)" "frames (cm_msgpack V) ReplyOk"
  shows "ask V (ReqSet seconds nanos) = Inr ReplyOk \<longleftrightarrow>
    (\<exists>tm'. served K build_epoch E now peer takes (ReqSet seconds nanos) tm = Some ([ReplyOk], tm'))"
proof -
  note answer = ask_daemon [OF assms(1,2,3)]
  have "\<exists>r tm'. served K build_epoch E now peer takes (ReqSet seconds nanos) tm = Some ([r], tm')"
    by (simp add: served_def serve_request_def split: option.split prod.split)
  then obtain r tm' where s: "served K build_epoch E now peer takes (ReqSet seconds nanos) tm = Some ([r], tm')" by blast
  moreover from s have "reply_ok r"
    using assms(4) by (auto simp: served_def serve_request_def split: option.splits prod.splits if_splits)
  ultimately show ?thesis using answer [OF s] assms(5) by auto
qed

lemma served_set:
  "served K build_epoch E now peer takes (ReqSet seconds nanos) tm = Some ([ReplyOk], tm') \<longleftrightarrow>
     length (tm_subscribers tm) < MAX_CLIENTS
     \<and> (\<exists>caller. ce_permits E (cf_control_security (tm_config tm)) peer TIME_CONTROL = Some caller
         \<and> set_by_hand K build_epoch seconds nanos caller tm = (Inr (), tm'))"
  by (auto simp: served_def serve_request_def elim!: set_reply.elims split: option.splits prod.splits if_splits)

lemma clock_set_code:
  assumes "lossless (cm_msgpack V)" "request_fits (cm_msgpack V) (ReqSet seconds nanos)"
    and "cm_connect V = Inr (daemon_server K build_epoch (cm_msgpack V) E now peer takes tm)"
    and "\<forall>r. reply_ok (set_reply (ce_clock_text E) r)" "frames (cm_msgpack V) ReplyOk"
    and "parse_time (cm_calendar V) (spaced words) = Inr (seconds, nanos)"
  shows "rn_code (run_clock V (''set'' # words)) = EXIT_OK \<longleftrightarrow>
    length (tm_subscribers tm) < MAX_CLIENTS
    \<and> (\<exists>caller tm'. ce_permits E (cf_control_security (tm_config tm)) peer TIME_CONTROL = Some caller
        \<and> set_by_hand K build_epoch seconds nanos caller tm = (Inr (), tm'))"
  unfolding set_code [OF assms(6)] acknowledged_code ask_set [OF assms(1-5)] served_set by blast

text \<open>The one line the daemon refuses an order to set the clock with.\<close>

definition set_refusal :: "control_env \<Rightarrow> nat \<Rightarrow> set_error + unit \<Rightarrow> 'k timed \<Rightarrow> string" where
  "set_refusal E peer outcome tm =
     (if MAX_CLIENTS \<le> length (tm_subscribers tm) then ''too many clients''
      else if ce_permits E (cf_control_security (tm_config tm)) peer TIME_CONTROL = None then ''not permitted''
      else case outcome of
        Inl (CouldNotSet e) \<Rightarrow> ''could not set the clock: '' @ ce_clock_text E e
      | _ \<Rightarrow> ''the clock is kept from its sources; set Automatic to 0 to set it by hand'')"

lemma served_set_refused:
  assumes "\<And>caller. ce_permits E (cf_control_security (tm_config tm)) peer TIME_CONTROL = Some caller \<Longrightarrow>
      length (tm_subscribers tm) < MAX_CLIENTS \<Longrightarrow> fst (set_by_hand K build_epoch seconds nanos caller tm) = outcome \<and> isl outcome"
  shows "\<exists>tm'. served K build_epoch E now peer takes (ReqSet seconds nanos) tm = Some ([ReplyError (set_refusal E peer outcome tm)], tm')"
proof (cases "length (tm_subscribers tm) < MAX_CLIENTS")
  case True
  show ?thesis
  proof (cases "ce_permits E (cf_control_security (tm_config tm)) peer TIME_CONTROL")
    case (Some caller)
    then have o: "fst (set_by_hand K build_epoch seconds nanos caller tm) = outcome" "isl outcome"
      using assms [OF Some True] by simp_all
    then obtain e tm' where s: "set_by_hand K build_epoch seconds nanos caller tm = (Inl e, tm')" "outcome = Inl e"
      by (cases "set_by_hand K build_epoch seconds nanos caller tm"; cases outcome) auto
    then show ?thesis
      using True Some by (cases e) (simp_all add: served_def serve_request_def set_refusal_def)
  qed (simp add: served_def set_refusal_def)
qed (simp add: served_def set_refusal_def)

text \<open>
  C25: \<open>clock set\<close> tells the truth. When the daemon set the clock to the time the command read (it had
  room for the connection, the caller may control it, and the setting by hand succeeded) the command
  prints that the clock is set and nothing else, and ends with 0. When the daemon did not, it prints
  nothing, ends with 1, and its one line of error is the daemon's refusal, word for word: too many
  clients, not permitted, the clock is kept from its sources, or why it could not be set. (A refusal too long for
  a frame is reported as the error of reading that there was none.) The MessagePack library is relied
  on to read back what it wrote, the texts of errors to be shorter than 4 GiB, and the request
  and the acknowledgement to fit a frame.
\<close>
theorem clock_set_tells_the_truth:
  assumes "lossless (cm_msgpack V)" "request_fits (cm_msgpack V) (ReqSet seconds nanos)"
    and "cm_connect V = Inr (daemon_server K build_epoch (cm_msgpack V) E now peer takes tm)"
    and "\<forall>r. reply_ok (set_reply (ce_clock_text E) r)" "frames (cm_msgpack V) ReplyOk"
    and "parse_time (cm_calendar V) (spaced words) = Inr (seconds, nanos)"
  shows "run_clock V (''set'' # words) =
    (let caller = the (ce_permits E (cf_control_security (tm_config tm)) peer TIME_CONTROL);
         outcome = fst (set_by_hand K build_epoch seconds nanos caller tm)
     in if length (tm_subscribers tm) < MAX_CLIENTS
          \<and> ce_permits E (cf_control_security (tm_config tm)) peer TIME_CONTROL \<noteq> None \<and> outcome = Inr ()
        then \<lparr>rn_out = [''the clock is set''], rn_err = [], rn_code = 0\<rparr>
        else let refusal = set_refusal E peer outcome tm
             in \<lparr>rn_out = [], rn_err = [''clock: '' @ (if frames (cm_msgpack V) (ReplyError refusal) then refusal
                  else cm_protocol_text V ShortRead)], rn_code = 1\<rparr>)"
proof -
  let ?permits = "ce_permits E (cf_control_security (tm_config tm)) peer TIME_CONTROL"
  let ?outcome = "fst (set_by_hand K build_epoch seconds nanos (the ?permits) tm)"
  note run = set_code [OF assms(6)] and answer = ask_daemon [OF assms(1,2,3)]
  show ?thesis
  proof (cases "length (tm_subscribers tm) < MAX_CLIENTS \<and> ?permits \<noteq> None \<and> ?outcome = Inr ()")
    case True
    then obtain tm' where "served K build_epoch E now peer takes (ReqSet seconds nanos) tm = Some ([ReplyOk], tm')"
      by (cases "set_by_hand K build_epoch seconds nanos (the ?permits) tm") (auto simp: served_set)
    from answer [OF this] True show ?thesis
      using assms(5) by (simp add: run acknowledged_def done_with_def EXIT_OK_def Let_def)
  next
    case False
    have "isl ?outcome \<or> ?outcome = Inr ()" by (cases ?outcome) simp_all
    then obtain tm' where s: "served K build_epoch E now peer takes (ReqSet seconds nanos) tm
        = Some ([ReplyError (set_refusal E peer ?outcome tm)], tm')"
      using False served_set_refused [where outcome = ?outcome and E = E and tm = tm and peer = peer and K = K
        and build_epoch = build_epoch and seconds = seconds and nanos = nanos and now = now and takes = takes] by fastforce
    have "reply_ok (ReplyError (set_refusal E peer ?outcome tm))"
      using assms(4) [rule_format, of ?outcome]
      by (auto simp: set_refusal_def split: sum.splits set_error.splits)
    from answer [OF s this] False show ?thesis
      by (simp only: run) (auto simp: acknowledged_def failed_def EXIT_FAILED_def Let_def)
  qed
qed

text \<open>A person at the keyboard, at a daemon whose clock is theirs to set.\<close>

definition keyboard :: "(bytes \<Rightarrow> bytes) \<Rightarrow> command_env" where
  "keyboard server = \<lparr>cm_connect = Inr server, cm_calendar = plain_calendar, cm_msgpack = tagged,
     cm_protocol_text = (\<lambda>e. []), cm_debug_reply = (\<lambda>r. []), cm_debug_text = (\<lambda>t. t)\<rparr>"

definition owner_env :: control_env where
  "owner_env = asking_env\<lparr>ce_permits := (\<lambda>sd peer right. Some [1])\<rparr>"

definition owned_daemon :: "int timed" where
  "owned_daemon = manual_daemon\<lparr>tm_kernel := 1750000000000000000\<rparr>"

definition owner_at :: command_env where
  "owner_at = keyboard (daemon_server plain_kernel 1700000000 tagged owner_env fzero 1 True owned_daemon)"

lemma owner_at_fields: "cm_msgpack owner_at = tagged" "cm_calendar owner_at = plain_calendar"
  "cm_connect owner_at = Inr (daemon_server plain_kernel 1700000000 tagged owner_env fzero 1 True owned_daemon)"
  by (simp_all add: owner_at_def keyboard_def)

lemma owner_texts: "\<forall>r. reply_ok (set_reply (ce_clock_text owner_env) r)"
proof
  fix r
  show "reply_ok (set_reply (ce_clock_text owner_env) r)"
    by (induction "ce_clock_text owner_env" r rule: set_reply.induct) (simp_all add: owner_env_def asking_env_def)
qed

lemma owner_permitted:
  "ce_permits owner_env (cf_control_security (tm_config owned_daemon)) 1 TIME_CONTROL = Some [1]"
  "tm_subscribers owned_daemon = []"
  by (simp_all add: owner_env_def asking_env_def owned_daemon_def manual_daemon_def started_def timed_new_def
      rebuild_sources_def load_manual manual_config_def apply_zone_def split: prod.splits)

lemma owner_sets: "\<exists>tm'. set_by_hand plain_kernel 1700000000 1800000000 0 [1] owned_daemon = (Inr (), tm')"
  by (simp add: owned_daemon_def set_by_hand_def manual_daemon_state manual_config_def now_f64_def lit_billion clock_step_def
      plain_kernel_def clock_now_def adjtimex_def step_timex_def timex_zeroed_def div_euclid1_def rem_euclid1_def
      f_of_int_def fround_def rnd_eval flt_def rat_trunc_def i64_min_def i64_max_def fsub_def Let_def)

lemma set_request_fits: "request_fits tagged (ReqSet 1800000000 0)" "frames tagged ReplyOk"
  by (simp_all add: request_fits_def in_i64_def i64_min_def i64_max_def frames_def wire_simps MAX_MESSAGE_BYTES_def)

lemma owner_time: "parse_time (cm_calendar owner_at) (spaced [''@1800000000'']) = Inr (1800000000, 0)"
proof -
  have step: "low_digits (numeral k) n = low_digits (pred_numeral k) (n div 10) @ [digit_char (n mod 10)]" for k n
    unfolding numeral_eq_Suc [of k] low_digits.simps ..
  have "''1800000000'' = low_digits 10 1800000000" by (simp add: step digit_chars)
  moreover have "parse_signed i64_min i64_max (low_digits 10 1800000000) = Some (int 1800000000)"
    by (rule parse_low) (simp_all add: i64_min_def i64_max_def)
  ultimately show ?thesis by (simp add: parse_time_def)
qed

theorem clock_set_tells_the_truth_witness:
  "run_clock owner_at [''set'', ''@1800000000''] = \<lparr>rn_out = [''the clock is set''], rn_err = [], rn_code = 0\<rparr>"
proof -
  note truth = clock_set_tells_the_truth [where V = owner_at, unfolded owner_at_fields(1),
      OF lossless_tagged set_request_fits(1) owner_at_fields(3) owner_texts set_request_fits(2) owner_time]
  show ?thesis unfolding truth using owner_permitted owner_sets by (auto simp: MAX_CLIENTS_def Let_def)
qed

section \<open>What \<open>clock\<close> and \<open>clock sources\<close> show\<close>








end
