(* ===== verification/Accuracy.thy ===== *)
theory Accuracy
  imports Selection
begin

text \<open>
  How wrong the selected offset can be: the weighted average of \<open>combine\<close> (\<open>timed/src/select.rs\<close>), its
  rounding included, and what a majority of honest sources guarantees whatever the others say.
\<close>

section \<open>Relative errors\<close>

text \<open>Rounding a number bounded by \<open>y\<close>, at least one half, moves it by at most \<open>y\<close> in \<open>2\<close> to the 52.\<close>

lemma quantum_relative:
  assumes "1 / 2 \<le> y"
  shows "quantum y \<le> y / 2 ^ 52"
proof -
  have y: "0 < y" using assms by simp
  have b: "2 powi ilog2 y \<le> y" using ilog2_bounds [OF y] by simp
  have "ilog2 (1 / 2) \<le> ilog2 y" using assms by (intro ilog2_mono) simp_all
  moreover have "ilog2 (1 / 2) = - 1" by (rule ilog2_eqI) simp_all
  ultimately have "quantum y = 2 powi (ilog2 y - 52)" by (simp add: quantum_def)
  also have "\<dots> = 2 powi ilog2 y / 2 ^ 52" by (simp add: power_int_diff)
  also have "\<dots> \<le> y / 2 ^ 52" using b by (intro divide_right_mono) simp_all
  finally show ?thesis .
qed

lemma fround_relative:
  assumes "\<bar>v\<bar> \<le> y" "1 / 2 \<le> y" "y \<le> 2 ^ 1023"
  shows "is_finite (fround z v)" "\<bar>val (fround z v) - v\<bar> \<le> y / 2 ^ 52"
  using fround_error [of v y z] quantum_relative [OF assms(2)] assms by auto

lemma fadd_relative:
  assumes "is_finite a" "is_finite b" "\<bar>val a + val b\<bar> \<le> y" "1 / 2 \<le> y" "y \<le> 2 ^ 1023"
  shows "is_finite (fadd a b)" "\<bar>val (fadd a b) - (val a + val b)\<bar> \<le> y / 2 ^ 52"
  using fadd_fin [OF assms(1,2)] fround_relative [OF assms(3-5)] by auto

text \<open>A positive double.\<close>

lemma positive_form:
  assumes "f64_ok d" "is_finite d" "0 < val d"
  shows "d = Fin False (val d)"
  using assms by (cases d) (auto simp: rep_def split: if_splits)

lemma fdiv_relative:
  assumes "is_finite a" "f64_ok a" "f64_ok d" "is_finite d" "0 < val d"
    and "\<bar>val a / val d\<bar> \<le> y" "1 / 2 \<le> y" "y \<le> 2 ^ 1023"
  shows "is_finite (fdiv a d)" "\<bar>val (fdiv a d) - val a / val d\<bar> \<le> y / 2 ^ 52"
proof -
  obtain z where "fdiv a (Fin False (val d)) = fround z (val a / val d)" using fdiv_fin [OF assms(1,2,5)] by blast
  then have "fdiv a d = fround z (val a / val d)" using positive_form [OF assms(3-5)] by simp
  then show "is_finite (fdiv a d)" "\<bar>val (fdiv a d) - val a / val d\<bar> \<le> y / 2 ^ 52"
    using fround_relative [OF assms(6-8)] by simp_all
qed

section \<open>The weighted average\<close>

text \<open>The distance an offset is weighted by, the exact sums, and one step of the loop of \<open>combine\<close>.\<close>

definition weight_distance :: "f64 \<Rightarrow> candidate \<Rightarrow> f64" where
  "weight_distance now c = fmax (c_distance c now) (lit (1 / 1000000000))"

definition weight :: "f64 \<Rightarrow> candidate \<Rightarrow> rat" where
  "weight now c = 1 / val (weight_distance now c)"

definition exact_weight :: "f64 \<Rightarrow> candidate list \<Rightarrow> rat" where
  "exact_weight now cs = sum_list (map (weight now) cs)"

definition exact_sum :: "f64 \<Rightarrow> candidate list \<Rightarrow> rat" where
  "exact_sum now cs = sum_list (map (\<lambda>c. val (c_offset c) * weight now c) cs)"

definition sum_step :: "f64 \<Rightarrow> f64 \<times> f64 \<Rightarrow> candidate \<Rightarrow> f64 \<times> f64" where
  "sum_step now p c = (fadd (fst p) (fdiv (lit 1) (weight_distance now c)),
     fadd (snd p) (fdiv (c_offset c) (weight_distance now c)))"

lemma combine_offset:
  "fst (combine cs now) = (case foldl (sum_step now) (fzero, fzero) cs of
     (w, s) \<Rightarrow> if flt fzero w then fdiv s w else fzero)"
proof -
  have "(\<lambda>(w, s) c. let distance = fmax (c_distance c now) (lit (1 / 1000000000))
      in (fadd w (fdiv (lit 1) distance), fadd s (fdiv (c_offset c) distance))) = sum_step now"
    by (auto simp: sum_step_def weight_distance_def Let_def fun_eq_iff)
  then show ?thesis by (simp add: combine_def Let_def split: prod.split)
qed

text \<open>A survivor whose numbers are those of a working source, its offset bounded by \<open>B\<close>.\<close>

definition sound :: "rat \<Rightarrow> f64 \<Rightarrow> candidate \<Rightarrow> bool" where
  "sound B now c \<longleftrightarrow> f64_ok (c_offset c) \<and> is_finite (c_offset c) \<and> \<bar>val (c_offset c)\<bar> \<le> B
     \<and> is_finite (c_distance c now) \<and> 0 < val (c_distance c now) \<and> val (c_distance c now) \<le> 2"

lemma nanosecond: "is_finite (lit (1 / 1000000000))" "1 / 2 ^ 30 \<le> val (lit (1 / 1000000000))" "val (lit (1 / 1000000000)) \<le> 2"
  by (simp_all add: rnd_eval)

lemma distance_ok [simp]: "f64_ok (c_distance c now)"
  by (simp add: c_distance_def root_distance_def)

lemma weight_distance_bounds:
  assumes "sound B now c"
  shows "is_finite (weight_distance now c)" "f64_ok (weight_distance now c)"
    "1 / 2 ^ 30 \<le> val (weight_distance now c)" "val (weight_distance now c) \<le> 2" "0 < val (weight_distance now c)"
    "val (weight_distance now c) = max (val (c_distance c now)) (val (lit (1 / 1000000000)))"
proof -
  have fin: "is_finite (c_distance c now)" using assms by (simp add: sound_def)
  then show "is_finite (weight_distance now c)" using nanosecond by (simp add: weight_distance_def fmax_finite)
  show "f64_ok (weight_distance now c)" by (simp add: weight_distance_def)
  show v: "val (weight_distance now c) = max (val (c_distance c now)) (val (lit (1 / 1000000000)))"
    using fin nanosecond(1) flt_val [OF fin nanosecond(1)] flt_val [OF nanosecond(1) fin]
    by (auto simp: weight_distance_def fmax_def max_def)
  show "1 / 2 ^ 30 \<le> val (weight_distance now c)" "val (weight_distance now c) \<le> 2"
    using v nanosecond assms by (auto simp: sound_def)
  then show "0 < val (weight_distance now c)" by (simp add: less_le_trans [of 0 "1 / 2 ^ 30"])
qed

lemma weight_bounds:
  assumes "sound B now c"
  shows "1 / 2 \<le> weight now c" "weight now c \<le> 2 ^ 30"
proof -
  note d = weight_distance_bounds [OF assms]
  show "1 / 2 \<le> weight now c" using d(4,5) by (simp add: weight_def field_simps)
  show "weight now c \<le> 2 ^ 30" using d(3,5) by (simp add: weight_def field_simps)
qed

lemma exact_bounds:
  assumes "\<forall>c\<in>set cs. sound B now c" "0 \<le> B"
  shows "0 \<le> exact_weight now cs" "exact_weight now cs \<le> of_nat (length cs) * 2 ^ 30"
    "of_nat (length cs) / 2 \<le> exact_weight now cs" "\<bar>exact_sum now cs\<bar> \<le> B * exact_weight now cs"
proof -
  have "0 \<le> exact_weight now cs \<and> exact_weight now cs \<le> of_nat (length cs) * 2 ^ 30
      \<and> of_nat (length cs) / 2 \<le> exact_weight now cs \<and> \<bar>exact_sum now cs\<bar> \<le> B * exact_weight now cs"
    using assms(1)
  proof (induction cs)
    case (Cons c cs)
    then have s: "sound B now c" by simp
    note w = weight_bounds [OF s]
    have "\<bar>val (c_offset c) * weight now c\<bar> \<le> B * weight now c"
      unfolding abs_mult using s w by (intro mult_mono) (auto simp: sound_def)
    with Cons w show ?case
      by (auto simp: exact_weight_def exact_sum_def algebra_simps add_divide_distrib)
  qed (simp add: exact_weight_def exact_sum_def)
  then show "0 \<le> exact_weight now cs" "exact_weight now cs \<le> of_nat (length cs) * 2 ^ 30"
    "of_nat (length cs) / 2 \<le> exact_weight now cs" "\<bar>exact_sum now cs\<bar> \<le> B * exact_weight now cs"
    by blast+
qed

lemma weighted_term:
  assumes "sound B now c" "is_finite x" "f64_ok x" "\<bar>val x\<bar> \<le> M" "1 \<le> M" "M \<le> 2 ^ 900"
  shows "is_finite (fdiv x (weight_distance now c))"
    "\<bar>val (fdiv x (weight_distance now c)) - val x * weight now c\<bar> \<le> (M * weight now c) * (1 / 2 ^ 52)"
    "\<bar>val x * weight now c\<bar> \<le> M * weight now c" "M * weight now c \<le> 2 ^ 930"
proof -
  note d = weight_distance_bounds [OF assms(1)] and q = weight_bounds [OF assms(1)]
  show t: "\<bar>val x * weight now c\<bar> \<le> M * weight now c"
    unfolding abs_mult using assms q by (intro mult_mono) auto
  have "1 * (1 / 2) \<le> M * weight now c" using assms(5) q(1) by (intro mult_mono) simp_all
  then have half: "1 / 2 \<le> M * weight now c" by simp
  have "M * weight now c \<le> 2 ^ 900 * 2 ^ 30" using assms(6) q by (intro mult_mono) simp_all
  then show big: "M * weight now c \<le> 2 ^ 930" by simp
  have "M * weight now c \<le> 2 ^ 1023" by (rule order_trans [OF big]) simp
  moreover have "val x / val (weight_distance now c) = val x * weight now c" by (simp add: weight_def)
  ultimately show "is_finite (fdiv x (weight_distance now c))"
    "\<bar>val (fdiv x (weight_distance now c)) - val x * weight now c\<bar> \<le> (M * weight now c) * (1 / 2 ^ 52)"
    using fdiv_relative [OF assms(2,3) d(2,1,5) _ half] t by simp_all
qed

text \<open>One more term added to a sum that is within \<open>e\<close> of the exact one: three roundings more.\<close>

lemma accumulate:
  fixes X Y T t s b e V :: rat
  assumes "0 \<le> X" "0 \<le> Y" "0 \<le> e" "e \<le> 1 / 2" "0 \<le> V" "V \<le> 1 / 2"
    and "\<bar>s - T\<bar> \<le> e * X" "\<bar>T\<bar> \<le> X" "\<bar>b - t\<bar> \<le> Y * V" "\<bar>t\<bar> \<le> Y"
  shows "\<bar>s + b\<bar> \<le> 2 * (X + Y)"
    and "\<bar>x - (s + b)\<bar> \<le> 2 * (X + Y) * V \<Longrightarrow> \<bar>x - (T + t)\<bar> \<le> (e + 3 * V) * (X + Y)"
proof -
  have p: "0 \<le> e * Y" "0 \<le> V * X" "0 \<le> e * X" "0 \<le> Y * V" using assms by simp_all
  have h: "e * X \<le> X / 2" "Y * V \<le> Y / 2"
    using mult_right_mono [OF assms(4,1)] mult_left_mono [OF assms(6,2)] by simp_all
  show "\<bar>s + b\<bar> \<le> 2 * (X + Y)" using assms h by (simp add: abs_le_iff)
  assume "\<bar>x - (s + b)\<bar> \<le> 2 * (X + Y) * V"
  moreover have "2 * (X + Y) * V = 2 * (V * X) + 2 * (Y * V)"
    and "(e + 3 * V) * (X + Y) = e * X + e * Y + 3 * (V * X) + 3 * (Y * V)" by (simp_all add: algebra_simps)
  ultimately show "\<bar>x - (T + t)\<bar> \<le> (e + 3 * V) * (X + Y)" using assms p by linarith
qed

definition drift_of :: "nat \<Rightarrow> rat" where
  "drift_of n = 3 * of_nat n / 2 ^ 52"

lemma drift_small: "n \<le> 2 ^ 40 \<Longrightarrow> drift_of n \<le> 1 / 2" "0 \<le> drift_of n"
  "drift_of (Suc n) = drift_of n + 3 * (1 / 2 ^ 52)"
proof -
  assume "n \<le> 2 ^ 40"
  then have "rat_of_nat n \<le> 2 ^ 40" by (simp only: of_nat_le_iff [symmetric, where ?'a = rat] of_nat_power of_nat_numeral)
  then show "drift_of n \<le> 1 / 2" by (simp add: drift_of_def)
qed (simp_all add: drift_of_def add_divide_distrib algebra_simps)

lemma sums_close:
  assumes "\<forall>c\<in>set cs. sound B now c" "1 \<le> B" "B \<le> 2 ^ 900" "length cs \<le> 2 ^ 40"
  shows "case foldl (sum_step now) (fzero, fzero) cs of (w, s) \<Rightarrow>
    is_finite w \<and> is_finite s \<and> f64_ok w \<and> f64_ok s
    \<and> \<bar>val w - exact_weight now cs\<bar> \<le> drift_of (length cs) * exact_weight now cs
    \<and> \<bar>val s - exact_sum now cs\<bar> \<le> drift_of (length cs) * (B * exact_weight now cs)"
  using assms(1,4)
proof (induction cs rule: rev_induct)
  case Nil
  then show ?case by (simp add: exact_weight_def exact_sum_def drift_of_def)
next
  case (snoc c cs)
  obtain w s where ws: "foldl (sum_step now) (fzero, fzero) cs = (w, s)" by fastforce
  let ?P = "exact_weight now cs" and ?T = "exact_sum now cs" and ?q = "weight now c"
  let ?t = "val (c_offset c) * ?q" and ?V = "1 / 2 ^ 52 :: rat" and ?e = "drift_of (length cs)"
  let ?d = "weight_distance now c" and ?o = "c_offset c"
  from snoc have IH: "is_finite w" "is_finite s" "\<bar>val w - ?P\<bar> \<le> ?e * ?P" "\<bar>val s - ?T\<bar> \<le> ?e * (B * ?P)"
    by (simp_all add: ws)
  have sc: "sound B now c" and all: "\<forall>c\<in>set cs. sound B now c" and n: "length cs \<le> 2 ^ 40" using snoc.prems by simp_all
  note q = weight_bounds [OF sc] and e = drift_small [of "length cs"]
  have B: "0 \<le> B" using assms(2) by simp
  note x = exact_bounds [OF all B]
  have one: "is_finite (lit 1)" "val (lit 1) = 1" by (simp_all add: rnd_eval)
  have "(1 :: rat) \<le> 2 ^ 900" by simp
  note a = weighted_term [OF sc one(1) lit_ok _ order_refl this, unfolded one(2) abs_one mult_1, OF order_refl]
  have o: "is_finite ?o" "f64_ok ?o" "\<bar>val ?o\<bar> \<le> B" using sc by (simp_all add: sound_def)
  note b = weighted_term [OF sc o assms(2,3)]
  have sums: "exact_weight now (cs @ [c]) = ?P + ?q" "exact_sum now (cs @ [c]) = ?T + ?t"
    by (simp_all add: exact_weight_def exact_sum_def)
  have P: "0 \<le> ?P" "0 \<le> B * ?P" using x(1) B by simp_all
  have "rat_of_nat (length cs) \<le> 2 ^ 40"
    using n by (simp only: of_nat_le_iff [symmetric, where ?'a = rat] of_nat_power of_nat_numeral)
  then have P70: "?P \<le> 2 ^ 70" using x(2) by simp
  have "B * ?P \<le> 2 ^ 900 * 2 ^ 70" using assms(3) P70 P(1) by (intro mult_mono) simp_all
  with P70 b(4) q have top: "2 * (?P + ?q) \<le> 2 ^ 1023" "2 * (B * ?P + B * ?q) \<le> 2 ^ 1023" by simp_all
  have V: "0 \<le> ?V" "?V \<le> 1 / 2" by simp_all
  have pos: "0 \<le> ?q" "0 \<le> B * ?q" using q(1) B by simp_all
  have "?q \<le> B * ?q" using mult_right_mono [OF assms(2) pos(1)] by (simp only: mult_1)
  then have big: "1 / 2 \<le> 2 * (B * ?P + B * ?q)" using P(2) q(1) unfolding distrib_left by linarith
  have half: "1 / 2 \<le> 2 * (?P + ?q)" using P(1) q(1) unfolding distrib_left by linarith
  have self: "\<bar>?P\<bar> \<le> ?P" "\<bar>?q\<bar> \<le> ?q" using P(1) pos(1) by simp_all
  note w' = accumulate [OF P(1) pos(1) e(2) e(1) [OF n] V IH(3) self(1) a(2) self(2)]
  note s' = accumulate [OF P(2) pos(2) e(2) e(1) [OF n] V IH(4) x(4) b(2,3)]
  note fw = fadd_relative [OF IH(1) a(1) w'(1) half top(1)]
  note fs = fadd_relative [OF IH(2) b(1) s'(1) big top(2)]
  have step: "foldl (sum_step now) (fzero, fzero) (cs @ [c]) = (fadd w (fdiv (lit 1) ?d), fadd s (fdiv ?o ?d))"
    by (simp add: ws sum_step_def)
  have "\<bar>val (fadd w (fdiv (lit 1) ?d)) - (?P + ?q)\<bar> \<le> drift_of (Suc (length cs)) * (?P + ?q)"
    unfolding e(3) by (rule w'(2)) (use fw(2) in simp)
  moreover have "\<bar>val (fadd s (fdiv ?o ?d)) - (?T + ?t)\<bar> \<le> drift_of (Suc (length cs)) * (B * (?P + ?q))"
    unfolding e(3) distrib_left [of B] by (rule s'(2)) (use fs(2) in simp)
  ultimately show ?case using fw(1) fs(1) by (simp only: step sums split fadd_ok) simp
qed

text \<open>The average itself: between the bounds of what is averaged, but for the roundings.\<close>

lemma average_between:
  assumes "\<forall>c\<in>set cs. sound B now c" "cs \<noteq> []" "\<forall>c\<in>set cs. lo \<le> val (c_offset c) \<and> val (c_offset c) \<le> hi"
  shows "lo \<le> exact_sum now cs / exact_weight now cs" "exact_sum now cs / exact_weight now cs \<le> hi"
    "0 < exact_weight now cs"
proof -
  have "lo * exact_weight now cs \<le> exact_sum now cs \<and> exact_sum now cs \<le> hi * exact_weight now cs"
    using assms(1,3)
  proof (induction cs)
    case (Cons c cs)
    then have "0 \<le> weight now c" using weight_bounds(1) [of B now c] by simp
    with Cons have "lo * weight now c \<le> val (c_offset c) * weight now c"
      "val (c_offset c) * weight now c \<le> hi * weight now c" by (simp_all add: mult_right_mono)
    with Cons show ?case by (auto simp: exact_sum_def exact_weight_def distrib_left)
  qed (simp add: exact_sum_def exact_weight_def)
  moreover obtain c where c: "c \<in> set cs" using assms(2) by (cases cs) auto
  then have "0 \<le> B" using assms(1) by (force simp: sound_def)
  then have "of_nat (length cs) / 2 \<le> exact_weight now cs" using exact_bounds(3) [OF assms(1)] by simp
  then show "0 < exact_weight now cs" using assms(2) by (cases cs) (simp_all add: field_simps)
  ultimately show "lo \<le> exact_sum now cs / exact_weight now cs" "exact_sum now cs / exact_weight now cs \<le> hi"
    by (simp_all add: field_simps)
qed

text \<open>A quotient of two sums that are each within \<open>e\<close>.\<close>

lemma quotient_close:
  fixes P T w s e B :: rat
  assumes "0 < P" "\<bar>T\<bar> \<le> B * P" "0 \<le> e" "e \<le> 1 / 2" "0 \<le> B"
    and "\<bar>w - P\<bar> \<le> e * P" "\<bar>s - T\<bar> \<le> e * (B * P)"
  shows "0 < w" "\<bar>s / w\<bar> \<le> 3 * B" "\<bar>s / w - T / P\<bar> \<le> 4 * e * B"
proof -
  have half: "e * P \<le> P / 2" using mult_right_mono [OF assms(4), of P] assms(1) by simp
  then have w: "P / 2 \<le> w" using assms(6) by linarith
  then show "0 < w" using assms(1) by linarith
  have BP: "0 \<le> B * P" using assms by simp
  have "e * (B * P) \<le> B * P / 2" using mult_right_mono [OF assms(4) BP] by simp
  then have "\<bar>s\<bar> \<le> 3 / 2 * (B * P)" using assms(2,7) by linarith
  also have "\<dots> \<le> 3 * B * w" using mult_left_mono [OF w, of "3 * B"] assms(5) by simp
  finally show "\<bar>s / w\<bar> \<le> 3 * B" using \<open>0 < w\<close> by (simp add: abs_divide pos_divide_le_eq)
  have "s / w - T / P = ((s - T) * P - T * (w - P)) / (w * P)"
    using assms(1) \<open>0 < w\<close> by (simp add: field_simps)
  also have "\<bar>\<dots>\<bar> = \<bar>(s - T) * P - T * (w - P)\<bar> / (w * P)" using assms(1) \<open>0 < w\<close> by (simp add: abs_divide abs_mult)
  also have "\<bar>(s - T) * P - T * (w - P)\<bar> \<le> \<bar>s - T\<bar> * P + \<bar>T\<bar> * \<bar>w - P\<bar>"
    using abs_triangle_ineq4 [of "(s - T) * P" "T * (w - P)"] assms(1) by (simp add: abs_mult)
  also have "\<dots> \<le> (e * (B * P)) * P + (B * P) * (e * P)"
    using assms BP by (intro add_mono mult_mono mult_right_mono) simp_all
  also have "\<dots> \<le> 4 * e * B * (w * P)"
    using mult_left_mono [OF w, of "4 * e * B * P"] assms by (simp add: algebra_simps)
  finally show "\<bar>s / w - T / P\<bar> \<le> 4 * e * B"
    using assms(1) \<open>0 < w\<close> by (simp add: divide_right_mono pos_divide_le_eq)
qed

lemma combine_close:
  assumes "\<forall>c\<in>set cs. sound B now c" "cs \<noteq> []" "1 \<le> B" "B \<le> 2 ^ 900" "length cs \<le> 2 ^ 40"
  shows "is_finite (fst (combine cs now))"
    "\<bar>val (fst (combine cs now)) - exact_sum now cs / exact_weight now cs\<bar> \<le> 15 * of_nat (length cs) * B / 2 ^ 52"
proof -
  obtain w s where ws: "foldl (sum_step now) (fzero, fzero) cs = (w, s)" by fastforce
  let ?P = "exact_weight now cs" and ?T = "exact_sum now cs" and ?e = "drift_of (length cs)"
  have c: "is_finite w" "is_finite s" "f64_ok w" "f64_ok s" "\<bar>val w - ?P\<bar> \<le> ?e * ?P" "\<bar>val s - ?T\<bar> \<le> ?e * (B * ?P)"
    using sums_close [OF assms(1,3-5)] by (simp_all add: ws)
  have B: "0 \<le> B" using assms(3) by simp
  have P: "0 < ?P" by (rule average_between(3) [OF assms(1,2), of "- B" B]) (use assms(1) in \<open>auto simp: sound_def\<close>)
  note x = exact_bounds [OF assms(1) B]
  note e = drift_small [of "length cs"]
  note qc = quotient_close [OF P x(4) e(2) e(1) [OF assms(5)] B c(5,6)]
  have w: "w = Fin False (val w)" by (rule positive_form [OF c(3,1) qc(1)])
  then have fw: "flt fzero w" using qc(1) c(1) by (subst flt_val) simp_all
  have three: "1 / 2 \<le> 3 * B" "3 * B \<le> 2 ^ 1023" using assms(3,4) by simp_all
  note d = fdiv_relative [OF c(2,4,3,1) qc(1,2) three]
  have off: "fst (combine cs now) = fdiv s w" by (simp add: combine_offset ws fw)
  show "is_finite (fst (combine cs now))" using d(1) by (simp add: off)
  have "1 \<le> length cs" using assms(2) by (cases cs) simp_all
  then have "B * 1 \<le> B * of_nat (length cs)" using B by (intro mult_left_mono) simp_all
  then have "3 * B + 12 * (B * of_nat (length cs)) \<le> 15 * of_nat (length cs) * B" by (simp add: algebra_simps)
  then have "(3 * B + 12 * (B * of_nat (length cs))) / 2 ^ 52 \<le> 15 * of_nat (length cs) * B / 2 ^ 52"
    by (rule divide_right_mono) simp
  moreover have "(3 * B + 12 * (B * of_nat (length cs))) / 2 ^ 52 = 3 * B / 2 ^ 52 + 4 * ?e * B"
    unfolding drift_of_def by (simp add: add_divide_distrib)
  ultimately have "3 * B / 2 ^ 52 + 4 * ?e * B \<le> 15 * of_nat (length cs) * B / 2 ^ 52" by (simp only:)
  then show "\<bar>val (fst (combine cs now)) - ?T / ?P\<bar> \<le> 15 * of_nat (length cs) * B / 2 ^ 52"
    using d(2) qc(3) unfolding off by linarith
qed

section \<open>Honest majorities\<close>

text \<open>A source whose numbers are finite doubles, its offset at most \<open>B\<close>; if it is fit, it is sound.\<close>

definition measured :: "rat \<Rightarrow> f64 \<Rightarrow> candidate \<Rightarrow> bool" where
  "measured B now c \<longleftrightarrow> f64_ok (c_offset c) \<and> is_finite (c_offset c) \<and> \<bar>val (c_offset c)\<bar> \<le> B
     \<and> is_finite (c_distance c now) \<and> 0 < val (c_distance c now)"

text \<open>
  A source is honest about the true offset \<open>t\<close> when it is no further from it than its root distance
  says; \<open>D\<close> bounds that distance.
\<close>

definition honest :: "f64 \<Rightarrow> rat \<Rightarrow> rat \<Rightarrow> candidate \<Rightarrow> bool" where
  "honest now t D c \<longleftrightarrow> \<bar>val (c_offset c) - t\<bar> \<le> val (c_distance c now) \<and> val (c_distance c now) \<le> D"

lemma fit_sound: "is_fit c now \<Longrightarrow> measured B now c \<Longrightarrow> sound B now c \<and> candidate_ok now c"
proof -
  assume fit: "is_fit c now" and m: "measured B now c"
  have "is_finite MAX_DISTANCE" "val MAX_DISTANCE = 3 / 2" by (simp_all add: MAX_DISTANCE_def rnd_eval)
  then have "val (c_distance c now) < 3 / 2"
    using fit m flt_val [of "c_distance c now" MAX_DISTANCE] by (simp add: is_fit_def measured_def)
  then show ?thesis using m by (auto simp: sound_def measured_def candidate_ok_def)
qed

lemma majorities_meet:
  "length xs < length (filter P xs) + length (filter Q xs) \<Longrightarrow> \<exists>x\<in>set xs. P x \<and> Q x"
proof (induction xs)
  case (Cons x xs)
  then show ?case by (cases "P x \<and> Q x") (auto split: if_splits)
qed simp

text \<open>An end of the agreed interval lies in the interval of some honest source, and so near the truth.\<close>

lemma spanned_near:
  assumes "spans now e c" "sound B now c" "honest now t D c" "1 \<le> B" "B \<le> 2 ^ 900"
  shows "is_finite e" "\<bar>val e - t\<bar> \<le> 2 * D + 3 * B / 2 ^ 52"
proof -
  let ?o = "c_offset c" and ?d = "c_distance c now"
  have s: "is_finite ?o" "is_finite ?d" "\<bar>val ?o\<bar> \<le> B" "0 < val ?d" "val ?d \<le> 2" using assms(2) by (simp_all add: sound_def)
  have B: "\<bar>val ?o - val ?d\<bar> \<le> 3 * B" "\<bar>val ?o + val ?d\<bar> \<le> 3 * B" "1 / 2 \<le> 3 * B"
    using s assms(4) by (simp_all add: abs_le_iff)
  have top: "3 * B \<le> 2 ^ 1023" using assms(5) by simp
  obtain z z' where z: "lo_edge now c = fround z (val ?o - val ?d)" "hi_edge now c = fround z' (val ?o + val ?d)"
    using fsub_fin [OF s(1,2)] fadd_fin [OF s(1,2)] unfolding lo_edge_def hi_edge_def by blast
  note lo = fround_relative [OF B(1,3) top, of z, folded z] and hi = fround_relative [OF B(2,3) top, of z', folded z]
  have e: "fle (lo_edge now c) e" "fle e (hi_edge now c)" using assms(1) by (simp_all add: spans_def)
  show f: "is_finite e" by (rule is_finite_between [OF e lo(1) hi(1)])
  have "val (lo_edge now c) \<le> val e" "val e \<le> val (hi_edge now c)" using e f lo(1) hi(1) by (simp_all add: fle_val)
  then show "\<bar>val e - t\<bar> \<le> 2 * D + 3 * B / 2 ^ 52"
    using lo(2) hi(2) assms(3) unfolding honest_def by linarith
qed

lemma agreed_near:
  assumes "intersection fit now = Some (l, h)" "\<forall>c\<in>set fit. sound B now c \<and> candidate_ok now c"
    and "length fit < 2 * length (filter (honest now t D) fit)" "1 \<le> B" "B \<le> 2 ^ 900"
  shows "is_finite l" "is_finite h" "\<bar>val l - t\<bar> \<le> 2 * D + 3 * B / 2 ^ 52" "\<bar>val h - t\<bar> \<le> 2 * D + 3 * B / 2 ^ 52"
proof -
  have ok: "\<forall>c\<in>set fit. candidate_ok now c" using assms(2) by blast
  note agree = intersection_agreement [OF assms(1) ok]
  obtain c where "c \<in> set fit" "spans now l c" "honest now t D c"
    using majorities_meet [of fit "spans now l" "honest now t D"] agree(1) assms(3) by auto
  with assms(2,4,5) show "is_finite l" "\<bar>val l - t\<bar> \<le> 2 * D + 3 * B / 2 ^ 52" using spanned_near by blast+
  obtain c' where "c' \<in> set fit" "spans now h c'" "honest now t D c'"
    using majorities_meet [of fit "spans now h" "honest now t D"] agree(2) assms(3) by auto
  with assms(2,4,5) show "is_finite h" "\<bar>val h - t\<bar> \<le> 2 * D + 3 * B / 2 ^ 52" using spanned_near by blast+
qed

lemma remove_at_le: "length (remove_at i xs) \<le> length xs"
  by (simp add: remove_at_def)

lemma cluster_length: "length (cluster cs now) \<le> length cs"
proof (induction cs now rule: cluster.induct)
  case (1 cs now)
  then show ?case by (subst cluster.simps) (auto simp: Let_def split: prod.split, meson order_trans remove_at_le)
qed

text \<open>
  C3: liars cannot move the clock far: if more than half of the fit sources are honest, that is, the
  true offset is within their own root distance, at most \<open>D\<close>, then whatever the others say the offset
  selected is within twice \<open>D\<close> of the truth, and what rounding adds, a part in 2^52 of the largest
  offset for each of eighteen operations a source.
\<close>
theorem honest_majority_bounds_error:
  assumes "select_sources cs now = Inr sel" and "\<forall>c\<in>set (fit_ones cs now). measured B now c"
    and "length (fit_ones cs now) < 2 * length (filter (honest now t D) (fit_ones cs now))"
    and "1 \<le> B" "B \<le> 2 ^ 900" "length cs \<le> 2 ^ 40"
  shows "is_finite (sel_offset sel)
    \<and> \<bar>val (sel_offset sel) - t\<bar> \<le> 2 * D + 18 * of_nat (length cs) * B / 2 ^ 52"
proof -
  obtain l h cl where i: "intersection (fit_ones cs now) now = Some (l, h)"
    and cl: "cl = best_first (cluster (filter (inside l h) (fit_ones cs now)) now) now" "cl \<noteq> []"
    and off: "sel_offset sel = fst (combine cl now)"
    using select_InrD [OF assms(1)] by metis
  let ?in = "filter (inside l h) (fit_ones cs now)" and ?slack = "2 * D + 3 * B / 2 ^ 52"
  have sub: "set cl \<subseteq> set ?in" using cluster_facts [of ?in now] cl(1) by simp
  have "length cl \<le> length ?in" using cluster_length [of ?in now] cl(1) by simp
  also have "\<dots> \<le> length cs" by (meson length_filter_le order_trans)
  finally have n: "length cl \<le> length cs" .
  have fit: "\<forall>c\<in>set (fit_ones cs now). sound B now c \<and> candidate_ok now c" using assms(2) fit_sound by auto
  then have s: "\<forall>c\<in>set cl. sound B now c" using sub by auto
  note near = agreed_near [OF i fit assms(3-5)]
  have "val l \<le> val (c_offset c) \<and> val (c_offset c) \<le> val h" if "c \<in> set cl" for c
  proof -
    have "is_finite (c_offset c)" "inside l h c" using that s sub by (auto simp: sound_def)
    then show ?thesis using near(1,2) by (simp add: inside_def fle_val)
  qed
  then have "t - ?slack \<le> val (c_offset c) \<and> val (c_offset c) \<le> t + ?slack" if "c \<in> set cl" for c
    using near(3,4) that by fastforce
  then have avg: "t - ?slack \<le> exact_sum now cl / exact_weight now cl" "exact_sum now cl / exact_weight now cl \<le> t + ?slack"
    using average_between [OF s cl(2), of "t - ?slack" "t + ?slack"] by blast+
  note close = combine_close [OF s cl(2) assms(4,5) order_trans [OF n assms(6)], folded off]
  have "1 \<le> length cl" using cl(2) by (cases cl) simp_all
  then have "rat_of_nat 1 \<le> of_nat (length cs)" "rat_of_nat (length cl) \<le> of_nat (length cs)"
    using n by (simp_all only: of_nat_le_iff)
  then have "1 * B \<le> of_nat (length cs) * B" "of_nat (length cl) * B \<le> of_nat (length cs) * B"
    using assms(4) by (intro mult_right_mono; simp)+
  then have "(15 * (of_nat (length cl) * B) + 3 * B) / 2 ^ 52 \<le> 18 * (of_nat (length cs) * B) / 2 ^ 52"
    by (intro divide_right_mono) simp_all
  then have "15 * of_nat (length cl) * B / 2 ^ 52 + 3 * B / 2 ^ 52 \<le> 18 * of_nat (length cs) * B / 2 ^ 52"
    by (simp only: add_divide_distrib mult.assoc)
  then show ?thesis using close avg unfolding abs_le_iff by linarith
qed

theorem honest_majority_bounds_error_witness:
  "\<exists>sel. select_sources [demo] fzero = Inr sel \<and> \<bar>val (sel_offset sel) - 1 / 2\<bar> \<le> 2 + 18 / 2 ^ 52"
proof -
  obtain sel where s: "select_sources [demo] fzero = Inr sel" using demo_select by blast
  have "is_finite (sel_offset sel)
    \<and> \<bar>val (sel_offset sel) - 1 / 2\<bar> \<le> 2 * 1 + 18 * of_nat (length [demo]) * 1 / 2 ^ 52"
    by (rule honest_majority_bounds_error [OF s])
      (simp_all add: demo_fit measured_def honest_def demo_distance demo_edges rep_def)
  with s show ?thesis by auto
qed

end
