(* ===== verification/Magnitude.thy ===== *)
theory Magnitude
  imports F64
begin

text \<open>
  Orders of magnitude: a value below a power of two stays finite through the operations of
  \<open>f64\<close>, and by how much each may grow it. It is how the engine's sums are shown never to overflow.
\<close>

section \<open>Values below a power of two\<close>

definition small :: "nat \<Rightarrow> f64 \<Rightarrow> bool" where
  "small k x \<longleftrightarrow> is_finite x \<and> \<bar>val x\<bar> \<le> 2 ^ k"

named_theorems small_intros

lemma rep_pow: "k \<le> 1023 \<Longrightarrow> rep (2 ^ k)"
  using rep_powi [of "int k"] by simp

lemma top_pow: "k \<le> 1023 \<Longrightarrow> (2::rat) ^ k \<le> 2 ^ 1023"
  by (rule power_increasing) simp_all

lemma small_finite: "small k x \<Longrightarrow> is_finite x"
  by (simp add: small_def)

lemma small_mono: "small j x \<Longrightarrow> j \<le> k \<Longrightarrow> small k x"
  unfolding small_def by (meson order_trans power_increasing one_le_numeral)

lemma small_zero [small_intros, simp]: "small k (Fin s 0)"
  by (simp add: small_def)

lemma small_fneg [simp]: "small k (fneg x) \<longleftrightarrow> small k x"
  by (simp add: small_def)

lemma small_fabs [simp]: "small k (fabs x) \<longleftrightarrow> small k x"
  by (cases x) (auto simp: small_def)

lemma small_add:
  assumes "small k x" "small k y" "k < 1023"
  shows "small (Suc k) (fadd x y)"
proof -
  have "\<bar>val x + val y\<bar> \<le> \<bar>val x\<bar> + \<bar>val y\<bar>" by (rule abs_triangle_ineq)
  also have "\<dots> \<le> 2 ^ k + 2 ^ k" using assms by (intro add_mono) (simp_all add: small_def)
  also have "\<dots> = 2 ^ Suc k" by simp
  finally show ?thesis
    using fadd_abs_le [of x y "2 ^ Suc k"] assms rep_pow [of "Suc k"] top_pow [of "Suc k"] by (simp add: small_def)
qed

lemma small_sub: "small k x \<Longrightarrow> small k y \<Longrightarrow> k < 1023 \<Longrightarrow> small (Suc k) (fsub x y)"
  unfolding fsub_def by (rule small_add) simp_all

lemma small_mul:
  assumes "small j x" "small k y" "j + k \<le> 1023"
  shows "small (j + k) (fmul x y)"
proof -
  have "\<bar>val x * val y\<bar> \<le> 2 ^ j * 2 ^ k"
    unfolding abs_mult using assms by (intro mult_mono) (simp_all add: small_def)
  then show ?thesis
    using fmul_abs_le [of x y "2 ^ (j + k)"] assms rep_pow [of "j + k"] top_pow [of "j + k"]
    by (simp add: small_def power_add)
qed

lemma small_sq: "small k x \<Longrightarrow> 2 * k \<le> 1023 \<Longrightarrow> small (2 * k) (f_sq x)"
  using small_mul [of k x k x] by (simp add: f_sq_def mult_2)

lemma small_div: "small k x \<Longrightarrow> fle (Fin False 1) y \<Longrightarrow> k \<le> 1023 \<Longrightarrow> small k (fdiv x y)"
  using fdiv_abs_le [of x y "2 ^ k"] rep_pow [of k] top_pow [of k] by (simp add: small_def)

text \<open>Division by a value no smaller than \<open>2\<^sup>-\<^sup>j\<close>.\<close>

lemma small_div_pow:
  assumes "small k x" "fle (Fin False (1 / 2 ^ j)) y" "j + k \<le> 1023" "f64_ok y"
  shows "small (j + k) (fdiv x y)"
proof -
  obtain s m where x: "x = Fin s m" using assms(1) by (cases x) (auto simp: small_def)
  consider "y = Inf False" | n where "y = Fin False n" "1 / 2 ^ j \<le> n" 
  proof -
    have p: "0 < (1::rat) / 2 ^ j" by simp
    show ?thesis
      using assms(2,4) p that by (cases y) (auto simp: fle_def rep_def split: if_splits dest: less_le_trans [OF p])
  qed
  then show ?thesis
  proof cases
    case 1
    then show ?thesis by (simp add: x small_def)
  next
    case 2
    have n: "0 < n" using 2(2) by (meson less_le_trans zero_less_divide_1_iff zero_less_numeral zero_less_power)
    have "\<bar>m\<bar> / n \<le> 2 ^ k / (1 / 2 ^ j)"
      using assms(1) 2 by (intro frac_le) (auto simp: x small_def split: if_splits)
    then have le: "m / n \<le> 2 ^ (j + k)"
      using n by (simp add: power_add mult.commute) (meson abs_ge_self divide_right_mono less_imp_le order_trans)
    from rnd_abs_le [OF rep_pow [OF assms(3)] top_pow [OF assms(3)] le, of s] show ?thesis using n by (simp add: x 2 small_def)
  qed
qed

lemma small_max: "small k x \<Longrightarrow> small k y \<Longrightarrow> small k (fmax x y)"
  by (simp add: fmax_def)

lemma small_foldl:
  assumes "list_all (small k) xs" "small (k + i) a" "k + i + length xs \<le> 1023"
  shows "small (k + i + length xs) (foldl fadd a xs)"
  using assms
proof (induction xs arbitrary: a i)
  case (Cons x xs)
  have "small (k + Suc i) (fadd a x)"
    using small_add [of "k + i" a x] Cons.prems small_mono [of k x "k + i"] by simp
  then show ?case using Cons.IH [of "Suc i" "fadd a x"] Cons.prems by simp
qed simp

lemma small_sum: "list_all (small k) xs \<Longrightarrow> k + length xs \<le> 1023 \<Longrightarrow> small (k + length xs) (f_sum xs)"
  using small_foldl [of k xs 0] by (simp add: f_sum_def)

section \<open>The square root\<close>

lemma isqrt_square: "isqrt n * isqrt n \<le> n"
proof (induction n rule: isqrt.induct)
  case (1 n)
  show ?case
  proof (cases "n = 0")
    case False
    let ?r = "isqrt (n div 4)"
    have "4 * (?r * ?r) \<le> n" using 1 [OF False] by linarith
    then have "(2 * ?r) * (2 * ?r) \<le> n" by simp
    then show ?thesis using False by (subst (1 2) isqrt.simps) (simp add: Let_def)
  qed (simp add: isqrt.simps)
qed

text \<open>Rounding a root up never takes it past a whole number whose square bounds the radicand.\<close>

lemma rounded_root_le:
  fixes y :: rat
  assumes "0 \<le> y" "y \<le> of_nat (P * P)" "s = isqrt (nat \<lfloor>y\<rfloor>)"
    and "up \<Longrightarrow> (of_nat s + 1 / 2) * (of_nat s + 1 / 2) \<le> y"
  shows "(if up then s + 1 else s) \<le> P"
proof -
  have "\<lfloor>y\<rfloor> \<le> int (P * P)" using assms(2) by (metis floor_mono floor_of_nat)
  then have "s * s \<le> P * P" using isqrt_square [of "nat \<lfloor>y\<rfloor>"] unfolding assms(3) by linarith
  then have "s \<le> P" by (metis mult_le_mono not_less mult_strict_mono' leD linorder_not_le zero_le)
  moreover have "s \<noteq> P" if up
  proof
    assume "s = P"
    then have "(of_nat P + 1 / 2) * (of_nat P + 1 / 2) \<le> (of_nat P * of_nat P :: rat)"
      using assms(2) assms(4) [OF that] by simp
    then show False by (simp add: algebra_simps)
  qed
  ultimately show ?thesis by auto
qed

lemma sqrt_mag_le:
  assumes "0 < v" "v \<le> 2 ^ (2 * k)"
  shows "sqrt_mag v \<le> 2 ^ k"
proof -
  let ?e = "ilog2 v div 2 - 52"
  define q where "q = (2::rat) powi ?e"
  define P where "P = (2::nat) ^ nat (int k - ?e)"
  have pow: "(2::rat) powi (2 * int k) = 2 ^ (2 * k)" using power_int_of_nat [of "2::rat" "2 * k"] by simp
  have "ilog2 v \<le> ilog2 (2 ^ (2 * k))" by (rule ilog2_mono) (rule assms)+
  also have "ilog2 (2 ^ (2 * k)) = int (2 * k)" by (rule ilog2_eqI) (simp_all add: power_int_add pow)
  finally have "?e \<le> int k" by simp
  then have Pq: "of_nat P * q = 2 ^ k"
  proof -
    have "of_nat P = (2::rat) powi (int k - ?e)" using \<open>?e \<le> int k\<close> by (simp add: P_def power_int_def)
    then show ?thesis by (simp add: q_def flip: power_int_add)
  qed
  have q: "0 < q" by (simp add: q_def)
  let ?y = "v / (q * q)"
  let ?s = "isqrt (nat \<lfloor>?y\<rfloor>)"
  let ?h = "(of_nat ?s + 1 / 2) * (of_nat ?s + 1 / 2)"
  have "v \<le> of_nat (P * P) * (q * q)"
    using assms(2) Pq by (simp add: mult_2 power_add) (metis mult.assoc mult.left_commute)
  then have y: "0 \<le> ?y" "?y \<le> of_nat (P * P)" using assms(1) q by (simp_all add: pos_divide_le_eq)
  let ?up = "?h < ?y \<or> (?h = ?y \<and> odd ?s)"
  have "(if ?up then ?s + 1 else ?s) \<le> P" by (rule rounded_root_le [OF y refl]) auto
  then have "rat_of_nat (if ?up then ?s + 1 else ?s) * q \<le> of_nat P * q"
    using q by (intro mult_right_mono) (simp_all only: of_nat_le_iff less_imp_le)
  moreover have "sqrt_mag v = rat_of_nat (if ?up then ?s + 1 else ?s) * q"
    using assms(1) unfolding sqrt_mag_def Let_def q_def [symmetric] by simp
  ultimately show ?thesis by (simp only: Pq)
qed

lemma small_sqrt: "small (2 * k) x \<Longrightarrow> fnonneg x \<Longrightarrow> small k (fsqrt x)"
  using sqrt_mag_le [of _ k] by (cases x) (auto simp: small_def fnonneg_cases Let_def)

end
