(* ===== verification/Honesty.thy ===== *)
theory Honesty
  imports Accuracy Magnitude
begin

text \<open>
  Why a source is honest: from the exchanges with a server whose clock is right, through the samples
  they are reduced to (\<open>sample.rs\<close>) and the register that keeps them (\<open>filter.rs\<close>), to the root distance
  that selection compares with.
\<close>

section \<open>Exact numbers\<close>

lemma fround_exact:
  assumes "rep \<bar>v\<bar>" "\<bar>v\<bar> < f64_top"
  shows "is_finite (fround z v)" "val (fround z v) = v"
  using assms by (auto simp: fround_def rnd_def Let_def rep_def)

lemma half_finite: "is_finite x \<Longrightarrow> f64_ok x \<Longrightarrow> is_finite (fdiv x (lit 2))"
  unfolding two_lit by (cases x) (auto simp: f64_top_def intro!: rnd_finite)

text \<open>A duration of at most 24 days is a double exactly, and so is its half.\<close>

lemma dyadic_exact:
  assumes "\<bar>n\<bar> \<le> 2 ^ 53" "k \<le> 100"
  shows "is_finite (fround z (of_int n / 2 ^ k))" "val (fround z (of_int n / 2 ^ k)) = of_int n / 2 ^ k"
proof -
  have e: "\<bar>rat_of_int n / 2 ^ k\<bar> = of_int \<bar>n\<bar> * 2 powi (- int k)"
    by (simp add: power_int_minus field_simps)
  have "rep \<bar>rat_of_int n / 2 ^ k\<bar>" unfolding e using assms by (intro rep_dyadic) simp_all
  moreover have "\<bar>rat_of_int n / 2 ^ k\<bar> \<le> 2 ^ 53"
  proof -
    have "rat_of_int \<bar>n\<bar> \<le> 2 ^ 53" using assms(1) by (simp add: of_int_le_numeral_iff flip: of_int_power)
    moreover have "\<bar>rat_of_int n\<bar> / 2 ^ k \<le> \<bar>rat_of_int n\<bar> / 1" by (rule divide_left_mono) simp_all
    ultimately show ?thesis by (simp add: abs_divide)
  qed
  then have "\<bar>rat_of_int n / 2 ^ k\<bar> < f64_top" by (rule le_less_trans) (simp add: f64_top_def)
  ultimately show "is_finite (fround z (of_int n / 2 ^ k))" "val (fround z (of_int n / 2 ^ k)) = of_int n / 2 ^ k"
    by (rule fround_exact)+
qed

lemma seconds_exact:
  assumes "\<bar>d\<bar> \<le> 2 ^ 53"
  shows "is_finite (as_seconds_f64 d)" "val (as_seconds_f64 d) = of_int d / 2 ^ 32"
    "is_finite (fdiv (as_seconds_f64 d) (lit 2))" "val (fdiv (as_seconds_f64 d) (lit 2)) = of_int d / 2 ^ 33"
proof -
  have n: "is_finite (f_of_int d)" "val (f_of_int d) = of_int d" using f_of_int_exact [OF assms] by simp_all
  have "f_of_int ONE_SECOND = Fin False (2 ^ 32)"
    using tick_lit by simp
  then obtain z where "as_seconds_f64 d = fround z (of_int d / 2 ^ 32)"
    using fdiv_fin [OF n(1) f_of_int_ok, of "2 ^ 32"] n(2) by (auto simp: as_seconds_f64_def)
  then show s: "is_finite (as_seconds_f64 d)" "val (as_seconds_f64 d) = of_int d / 2 ^ 32"
    using dyadic_exact [OF assms, of 32 z] by simp_all
  have "f64_ok (as_seconds_f64 d)" by (simp add: as_seconds_f64_def)
  then obtain z' where "fdiv (as_seconds_f64 d) (lit 2) = fround z' (of_int d / 2 ^ 33)"
    using fdiv_fin [OF s(1), of 2] unfolding two_lit s(2) by auto
  then show "is_finite (fdiv (as_seconds_f64 d) (lit 2))" "val (fdiv (as_seconds_f64 d) (lit 2)) = of_int d / 2 ^ 33"
    using dyadic_exact [OF assms, of 33 z'] by simp_all
qed

section \<open>Samples of a true server\<close>

text \<open>A sample that is within half its delay of the true offset \<open>t\<close>.\<close>

definition truthful :: "rat \<Rightarrow> sample \<Rightarrow> bool" where
  "truthful t s \<longleftrightarrow> \<bar>val (s_offset s) - t\<bar> \<le> val (fdiv (s_delay s) (lit 2))"

text \<open>
  A sample taken from a server whose clock is ahead by \<open>x\<close> ticks, with whatever delays there and back;
  all of it within 2 to the 51 ticks, six days.
\<close>

definition from_true_server :: "int \<Rightarrow> sample \<Rightarrow> bool" where
  "from_true_server x s \<longleftrightarrow> (\<exists>t outward hold inward lp sp max_delay now.
     reduce \<lparr>ex_origin = word_of_int t, ex_receive = word_of_int (t + outward + x),
       ex_transmit = word_of_int (t + outward + hold + x),
       ex_destination = word_of_int (t + outward + hold + inward)\<rparr> lp sp max_delay now = Inr s
     \<and> 0 \<le> outward \<and> 0 \<le> hold \<and> 0 \<le> inward \<and> outward + hold + inward \<le> 2 ^ 51)"

lemma true_sample:
  assumes "from_true_server x s" "\<bar>x\<bar> \<le> 2 ^ 51"
  shows "truthful (of_int x / 2 ^ 32) s" "sample_ok s" "f64_ok (s_delay s)"
proof -
  obtain t outward hold inward lp sp max_delay now where r: "reduce \<lparr>ex_origin = word_of_int t, ex_receive = word_of_int (t + outward + x),
       ex_transmit = word_of_int (t + outward + hold + x),
       ex_destination = word_of_int (t + outward + hold + inward)\<rparr> lp sp max_delay now = Inr s"
    and b: "0 \<le> outward" "0 \<le> hold" "0 \<le> inward" "outward + hold + inward \<le> 2 ^ 51"
    using assms(1) unfolding from_true_server_def by blast
  show "sample_ok s" by (rule reduce_sample_ok [OF r])
  have b': "outward + hold + inward \<le> 2 ^ 60" "\<bar>x\<bar> \<le> 2 ^ 60" using b assms(2) by simp_all
  note s = reduce_of_exchange [OF r b(1-3) b']
  show "f64_ok (s_delay s)" unfolding s(1) by (simp add: as_seconds_f64_def MIN_DISPERSION_def)
  have d: "\<bar>outward + inward\<bar> \<le> 2 ^ 53" "\<bar>2 * x + (outward - inward)\<bar> \<le> 2 ^ 53" using b assms(2) by simp_all
  have "\<bar>val (s_offset s) - of_int x / 2 ^ 32\<bar> = \<bar>of_int (outward - inward)\<bar> / 2 ^ 33"
    unfolding s(2) seconds_exact(4) [OF d(2)] by (simp add: abs_divide add_divide_distrib)
  also have "\<dots> \<le> of_int (outward + inward) / 2 ^ 33"
    using b by (intro divide_right_mono) simp_all
  also have "\<dots> = val (fdiv (as_seconds_f64 (outward + inward)) (lit 2))" by (simp only: seconds_exact(4) [OF d(1)])
  also have "\<dots> \<le> val (fdiv (s_delay s) (lit 2))"
  proof -
    have fin: "is_finite (s_delay s)" using \<open>sample_ok s\<close> by (simp add: sample_ok_def)
    have "fle (as_seconds_f64 (outward + inward)) (s_delay s)"
      unfolding s(1) using seconds_exact(1) [OF d(1)] by (simp add: fmax_ge1)
    then have "fle (fdiv (as_seconds_f64 (outward + inward)) (lit 2)) (fdiv (s_delay s) (lit 2))"
      unfolding two_lit using seconds_exact(1) [OF d(1)] fin \<open>f64_ok (s_delay s)\<close> 
      by (intro fdiv_mono) (simp_all add: as_seconds_f64_def)
    moreover have "is_finite (fdiv (s_delay s) (lit 2))"
      using half_finite [OF fin \<open>f64_ok (s_delay s)\<close>] .
    ultimately show ?thesis using seconds_exact(3) [OF d(1)] by (simp add: fle_val)
  qed
  finally show "truthful (of_int x / 2 ^ 32) s" by (simp add: truthful_def)
qed

section \<open>The root distance covers the delay\<close>

lemma fadd_parts_finite: "is_finite (fadd x y) \<Longrightarrow> is_finite x \<and> is_finite y"
  by (cases x; cases y) (auto split: if_splits)

lemma fadd_above:
  assumes "fnonneg x" "fnonneg y" "f64_ok x"
  shows "fle x (fadd x y)"
proof -
  have "fkey (fadd x fzero) = fkey x"
    using assms by (cases x; auto simp: fnonneg_cases fround_def rnd_def rep_def split: if_splits)
  moreover have "fle (fadd x fzero) (fadd x y)"
    using assms by (auto intro!: fadd_mono_nonneg simp: fnonneg_not_nan fnonneg_def)
  ultimately show ?thesis using assms by (auto simp: fle_def dest: fnonneg_not_nan)
qed

lemma root_distance_covers:
  assumes "is_finite (root_distance f rd rs now)" "fnonneg rd" "f64_ok rd" "fnonneg rs"
    and "is_finite (f_delay f)" "f64_ok (f_delay f)" "fnonneg (f_delay f)"
    and "fnonneg (f_dispersion f)" "fnonneg (f_jitter f)"
  shows "val (fdiv (f_delay f) (lit 2)) \<le> val (root_distance f rd rs now)"
proof -
  let ?m = "fmax (fadd rd (f_delay f)) MIN_DISPERSION"
  let ?a = "fdiv ?m (lit 2)" and ?g = "fmul PHI (fmax (fsub now (f_at f)) fzero)"
  let ?b = "fadd ?a rs" let ?c = "fadd ?b (f_dispersion f)" let ?d = "fadd ?c ?g"
  have total: "root_distance f rd rs now = fadd ?d (f_jitter f)" by (simp add: root_distance_def)
  have fin: "is_finite ?d" "is_finite ?c" "is_finite ?b" "is_finite ?a"
    using assms(1) unfolding total by (auto dest!: fadd_parts_finite)
  have nn: "fnonneg ?a" "fnonneg ?g" by (rule root_terms_nonneg)+
  have nn': "fnonneg ?b" "fnonneg ?c" "fnonneg ?d" using nn assms by (simp_all add: fadd_nonneg)
  have up: "fle ?a ?b" "fle ?b ?c" "fle ?c ?d" "fle ?d (fadd ?d (f_jitter f))"
    using nn nn' assms by (auto intro!: fadd_above)
  have "val ?a \<le> val (root_distance f rd rs now)"
    using up fin assms(1) unfolding total by (simp add: fle_val del: fadd.simps fdiv.simps fmul.simps)
  moreover have "val (fdiv (f_delay f) (lit 2)) \<le> val ?a"
  proof -
    have "is_finite ?m" using fin(4) unfolding two_lit by (cases ?m) auto
    have sum: "fle (f_delay f) (fadd rd (f_delay f))" using fadd_ge(2) [OF assms(2,7,3,6)] .
    then have "fle (f_delay f) ?m"
      using fmax_ge1 [of "fadd rd (f_delay f)" MIN_DISPERSION] fle_trans fle_not_nan by metis
    then have "fle (fdiv (f_delay f) (lit 2)) ?a"
      unfolding two_lit using assms(5,6) \<open>is_finite ?m\<close>
      by (intro fdiv_mono) (simp_all add: MIN_DISPERSION_def)
    then show ?thesis using half_finite [OF assms(5,6)] fin(4) by (simp add: fle_val)
  qed
  ultimately show ?thesis by linarith
qed

section \<open>A server one second ahead, answering at once\<close>

definition quick_sample :: sample where
  "quick_sample = \<lparr>s_offset = Fin False 1, s_delay = MIN_DISPERSION,
     s_dispersion = Fin False (1 / 2 ^ 19), s_at = fzero\<rparr>"

lemma quick_reduced:
  "reduce \<lparr>ex_origin = word_of_int 0, ex_receive = word_of_int (0 + 0 + 2 ^ 32),
   ex_transmit = word_of_int (0 + 0 + 0 + 2 ^ 32), ex_destination = word_of_int (0 + 0 + 0 + 0)\<rparr> (- 20) (- 20) (lit 1) fzero
     = Inr quick_sample"
proof -
  have p: "log2_seconds (- 20) = Fin False (1 / 2 ^ 20)" by (simp add: log2_seconds_def f_pow2_def rnd_eval)
  have z: "as_seconds_f64 0 = Fin False 0" "as_seconds_f64 8589934592 = Fin False 2"
  proof -
    have "f_of_int 8589934592 = Fin False 8589934592"
      using rep_powi [of 33] by (simp add: f_of_int_def fround_def rnd_def rep_def f64_top_def)
    then show "as_seconds_f64 8589934592 = Fin False 2" by (simp add: as_seconds_f64_def tick_lit) (simp add: rnd_eval)
    have "f_of_int 0 = Fin False 0" by (simp add: f_of_int_def fround_def)
    then show "as_seconds_f64 0 = Fin False 0" by (simp add: as_seconds_f64_def tick_lit)
  qed
  have m: "fmax (Fin False 0) MIN_DISPERSION = MIN_DISPERSION" "\<not> flt (lit 1) MIN_DISPERSION"
    by (simp_all add: MIN_DISPERSION_def fmax_def flt_def rnd_eval)
  have ph: "fmul PHI (Fin False 0) = Fin False 0" by (simp add: PHI_def fround_def rnd_eval)
  have d: "fadd (Fin False (1 / 2 ^ 20)) (Fin False (1 / 2 ^ 20)) = Fin False (1 / 2 ^ 19)"
    "fadd (Fin False (1 / 2 ^ 19)) (Fin False 0) = Fin False (1 / 2 ^ 19)"
     "fdiv (Fin False 2) (lit 2) = Fin False 1"
    by (simp_all add: fround_def rnd_eval)
  show ?thesis
    using d by (simp add: reduce_def ts_wrapping_sub_def u64_as_i64_def dur_is_negative_def dur_sub_def
        dur_add_def sat_i64_def i64_min_def i64_max_def z m p ph Let_def quick_sample_def
        del: fadd.simps fmul.simps fdiv.simps)
qed

definition quick_filter :: clock_filter where
  "quick_filter = filter_new\<lparr>stages := Some quick_sample # replicate 7 None\<rparr>"

lemma quick_held: "held quick_filter = [quick_sample]"
  by (simp add: held_def quick_filter_def map_filter_simps numeral_eq_Suc)

lemma quick_distance: "is_finite (root_distance (estimate_of quick_filter fzero) fzero fzero fzero)"
proof -
  have a: "aged_dispersion quick_sample fzero = Fin False (1 / 2 ^ 19)"
    by (simp add: aged_dispersion_def quick_sample_def fsub_def fmax_def PHI_def fround_def rnd_eval flt_def)
  have r: "rank_samples quick_filter = [quick_sample]" by (simp add: rank_samples_def quick_held)
  have "small 5 (slot_dispersion [quick_sample] fzero i)" if "i < NSTAGE" for i
    unfolding slot_dispersion_def pow2_slot [OF that]
    by (rule small_div) (simp_all add: a small_def MAX_DISPERSION_def fle_def rnd_eval one_le_power del: power_Suc)
  then have "small 13 (ranked_dispersion [quick_sample] fzero)"
    using small_foldl [of 5 "map (slot_dispersion [quick_sample] fzero) [0..<NSTAGE]" 0 fzero]
    by (simp add: ranked_dispersion_def NSTAGE_def upt_rec)
  moreover have m: "small k MIN_DISPERSION" for k
    by (rule small_mono [of 0]) (simp_all add: small_def MIN_DISPERSION_def rnd_eval)
  moreover have "small 13 (fdiv (fmax (fadd fzero MIN_DISPERSION) MIN_DISPERSION) (lit 2))"
    unfolding two_lit using small_add [of 12 fzero MIN_DISPERSION]
    by (intro small_div small_max m) (simp_all add: m fle_def)
  moreover have "small k (fmul PHI (fmax (fsub fzero fzero) fzero))" for k
     by (simp add: small_def PHI_def fsub_def fround_def fmax_def flt_def rnd_eval)
  ultimately have "small (Suc (Suc (Suc (Suc 13)))) (root_distance (estimate_of quick_filter fzero) fzero fzero fzero)"
    unfolding root_distance_def
    by (intro small_add)
      (auto simp: estimate_of_def r ranked_jitter_def Let_def quick_sample_def intro: small_mono simp del: fadd.simps fmul.simps fdiv.simps)
  then show ?thesis by (rule small_finite)
qed

section \<open>The property\<close>

text \<open>
  C11: a source whose server's clock is right is honest: if every exchange in its register was with a
  server ahead by \<open>x\<close>, the offset the register reports is within the source's root distance of \<open>x\<close>,
  however the time of each exchange was spent: on the way there, at the server or on the way back.
  This is shown for exchanges of at most 2^51 units of 2^-32 seconds in all (six days) and a server
  ahead or behind by no more than that, for the root delay and dispersion a server can send (no
  NaN and not negative), and for a root distance that is finite, as it is for every source that
  is fit to be selected. So a majority of right servers is a majority of honest sources, which is
  what bounds the error of the offset selected.
\<close>
theorem true_server_is_honest:
  assumes "filter_peek cf now' = Some f" "list_all (from_true_server x) (held cf)" "\<bar>x\<bar> \<le> 2 ^ 51"
    and "is_finite (root_distance f rd rs now)" "fnonneg rd" "f64_ok rd" "fnonneg rs"
  shows "\<bar>val (f_offset f) - of_int x / 2 ^ 32\<bar> \<le> val (root_distance f rd rs now)"
proof -
  have f: "f = estimate_of cf now'" and ne: "held cf \<noteq> []" using assms(1) by (auto simp: peek_eq split: if_splits)
  let ?best = "rank_samples cf ! 0"
  have "from_true_server x ?best" using rank_head(1) [OF ne] assms(2) by (simp add: list_all_iff)
  note best = true_sample [OF this assms(3)]
  have ok: "list_all sample_ok (rank_samples cf)" using assms(2) true_sample(2) [OF _ assms(3)] by (auto simp: list_all_iff)
  have delay: "is_finite (s_delay ?best)" "fnonneg (s_delay ?best)"
    using best(2) fnonneg_of_le min_dispersion_val(3) by (auto simp: sample_ok_def)
  have "\<bar>val (f_offset f) - of_int x / 2 ^ 32\<bar> \<le> val (fdiv (f_delay f) (lit 2))"
    using best(1) by (simp add: f estimate_of_def Let_def truthful_def)
  also have "\<dots> \<le> val (root_distance f rd rs now)"
    using delay best(3) dispersion_nonneg [OF ok] jitter_nonneg
    by (intro root_distance_covers assms) (simp_all add: f estimate_of_def Let_def)
  finally show ?thesis .
qed

theorem true_server_is_honest_witness:
  "\<bar>val (f_offset (estimate_of quick_filter fzero)) - of_int (2 ^ 32) / 2 ^ 32\<bar>
     \<le> val (root_distance (estimate_of quick_filter fzero) fzero fzero fzero)"
proof (rule true_server_is_honest)
  show "filter_peek quick_filter fzero = Some (estimate_of quick_filter fzero)" by (simp add: peek_eq quick_held)
  have "from_true_server (2 ^ 32) quick_sample"
    unfolding from_true_server_def
    by (intro exI conjI) (rule quick_reduced, simp_all)
  then show "list_all (from_true_server (2 ^ 32)) (held quick_filter)" by (simp add: quick_held)
qed (simp_all add: quick_distance fnonneg_cases)

end
