(* ===== verification/Ranges.thy ===== *)
theory Ranges
  imports Magnitude Accuracy Discipline
begin

text \<open>
  The ranges the engine's numbers stay in, each operation taking values in range to values in range: the
  servo's jitter, what a register reports, the selected offset and its jitter. Nothing in range is a
  NaN or infinite.
\<close>

section \<open>Sums\<close>

text \<open>Adding up to \<open>2\<^sup>m\<close> values below \<open>2\<^sup>k\<close>, each partial sum is bounded by a double.\<close>

lemma small_foldl_pow:
  assumes "list_all (small k) xs" "is_finite a" "\<bar>val a\<bar> \<le> of_nat i * 2 ^ k" "i + length xs \<le> 2 ^ m" "m \<le> 53" "k + m \<le> 1023"
  shows "is_finite (foldl fadd a xs) \<and> \<bar>val (foldl fadd a xs)\<bar> \<le> of_nat (i + length xs) * 2 ^ k"
  using assms(1-4)
proof (induction xs arbitrary: a i)
  case (Cons x xs)
  let ?b = "of_nat (Suc i) * 2 ^ k :: rat"
  have x: "is_finite x" "\<bar>val x\<bar> \<le> 2 ^ k" using Cons.prems(1) by (simp_all add: small_def)
  have i: "Suc i \<le> 2 ^ m" using Cons.prems(4) by simp
  also have "(2::nat) ^ m \<le> 2 ^ 53" using assms(5) by (rule power_increasing) simp
  finally have "rep (of_int (int (Suc i)) * 2 powi int k)" by (intro rep_dyadic) simp_all
  then have rep: "rep ?b" by simp
  have "rat_of_nat (Suc i) \<le> 2 ^ m" using i by (simp only: of_nat_le_iff [symmetric, where ?'a = rat] of_nat_power of_nat_numeral)
  then have "?b \<le> 2 ^ m * 2 ^ k" by (intro mult_right_mono) simp_all
  also have "\<dots> = 2 ^ (k + m)" by (simp add: power_add mult.commute)
  also have "\<dots> \<le> 2 ^ 1023" using assms(6) by (rule power_increasing) simp
  finally have top: "?b \<le> 2 ^ 1023" .
  have "\<bar>val a + val x\<bar> \<le> of_nat i * 2 ^ k + 2 ^ k"
    using abs_triangle_ineq [of "val a" "val x"] x(2) Cons.prems(3) by linarith
  also have "\<dots> = ?b" by (simp add: algebra_simps)
  finally have "is_finite (fadd a x)" "\<bar>val (fadd a x)\<bar> \<le> ?b"
    using fadd_abs_le [OF Cons.prems(2) x(1) _ rep top] by simp_all
  then show ?case using Cons.IH [of "fadd a x" "Suc i"] Cons.prems by simp
qed simp

lemma small_sum_pow:
  assumes "list_all (small k) xs" "length xs \<le> 2 ^ m" "m \<le> 53" "k + m \<le> 1023"
  shows "small (k + m) (f_sum xs)"
proof -
  have n: "rat_of_nat (length xs) \<le> 2 ^ m"
    using assms(2) by (simp only: of_nat_le_iff [symmetric, where ?'a = rat] of_nat_power of_nat_numeral)
  have f: "is_finite (f_sum xs)" "\<bar>val (f_sum xs)\<bar> \<le> of_nat (length xs) * 2 ^ k"
    using small_foldl_pow [OF assms(1), of "Fin True 0" 0 m] assms(2-4) by (simp_all add: f_sum_def)
  note f(2)
  also have "of_nat (length xs) * 2 ^ k \<le> (2 ^ m * 2 ^ k :: rat)" using n by (intro mult_right_mono) simp_all
  also have "\<dots> = 2 ^ (k + m)" by (simp add: power_add mult.commute)
  finally show ?thesis using f(1) by (simp add: small_def)
qed

text \<open>What a sum of magnitudes bounds, it bounds each term by.\<close>

lemma sum_parts:
  assumes "fnonneg x" "fnonneg y"
  shows "f64_ok x \<Longrightarrow> fle x (fadd x y)" "f64_ok y \<Longrightarrow> fle y (fadd x y)"
proof -
  have le: "fle (fround z (val a)) (fround z' (val a + val b))" if "is_finite b" "0 \<le> val b" for z z' a b
    using that by (intro fround_mono) simp
  have part: "fle a (fadd a b) \<and> fle a (fadd b a)" if "fnonneg a" "fnonneg b" "f64_ok a" for a b
  proof (cases "is_finite a \<and> is_finite b")
    case True
    then obtain z where z: "fadd a b = fround z (val a + val b)" using fadd_fin by blast
    obtain z' where z': "fadd b a = fround z' (val a + val b)" using True fadd_fin [of b a] by (auto simp: add.commute)
    have "0 \<le> val b" using that True by (auto simp: fnonneg_cases)
    then show ?thesis
      using le [where a = a and b = b and z = True and z' = z] le [where a = a and b = b and z = True and z' = z'] fround_val_key [OF that(3), where z = True] True
      unfolding z z' by (auto simp: fle_def)
  next
    case False
    then show ?thesis using that by (cases a; cases b) (auto simp: fnonneg_cases fle_def)
  qed
  show "f64_ok x \<Longrightarrow> fle x (fadd x y)" "f64_ok y \<Longrightarrow> fle y (fadd x y)" using part assms by blast+
qed

lemma small_below: "fnonneg x \<Longrightarrow> fle x y \<Longrightarrow> small k y \<Longrightarrow> small k x"
  using is_finite_between [of fzero x y] fle_val [of x y] fnonneg_cases [of x] by (auto simp: small_def fnonneg_def)

section \<open>The servo\<close>

lemma fround_nonpos: "v \<le> 0 \<Longrightarrow> val (fround z v) \<le> 0"
  by (cases "v = 0") (auto simp: fround_def rnd_def Let_def)

lemma fsub_nonpos:
  assumes "is_finite x" "is_finite y" "val x \<le> val y"
  shows "val (fsub x y) \<le> 0"
  using fsub_fin [OF assms(1,2)] assms(3) fround_nonpos [of "val x - val y"] by auto

text \<open>The loop's jitter is a weighted mean of squares, so it never leaves the bound it started in.\<close>

lemma loop_jitter_small:
  assumes "small 131 j" "small 130 c"
  shows "small 131 (loop_jitter j c)"
proof -
  let ?J = "f_sq j" and ?C = "f_sq c"
  let ?X = "fdiv (fsub ?C ?J) (lit 8)"
  have J: "small 262 ?J" "0 \<le> val ?J" and C: "small 260 ?C" "0 \<le> val ?C"
    using small_sq [OF assms(1)] small_sq [OF assms(2)] f_sq_nonneg [of j] f_sq_nonneg [of c] assms
    by (auto simp: small_def fnonneg_cases)
  have eight: "lit 8 = Fin False 8" by (simp add: rnd_eval)
  let ?D = "fsub ?C ?J"
  have "\<bar>val ?C - val ?J\<bar> \<le> 2 ^ 262" using J C by (simp add: small_def abs_le_iff)
  then have d: "is_finite ?D" "\<bar>val ?D\<bar> \<le> 2 ^ 262"
    using fadd_abs_le [of ?C "fneg ?J" "2 ^ 262"] J(1) C(1) rep_pow [of 262] by (simp_all add: fsub_def small_def)
  obtain z where z: "?X = fround z (val ?D / 8)"
    using fdiv_fin [OF d(1), of 8] by (auto simp: eight)
  have X: "is_finite ?X" "\<bar>val ?X\<bar> \<le> 2 ^ 262"
    using small_div [of 262 ?D "lit 8"] d by (simp_all add: small_def eight fle_def)
  have sum: "val ?J + val ?X \<le> 2 ^ 262"
  proof (cases "val ?C \<le> val ?J")
    case True
    then have "val ?D \<le> 0" using J(1) C(1) by (intro fsub_nonpos) (simp_all add: small_def)
    then have "val ?X \<le> 0" unfolding z by (intro fround_nonpos) simp
    then show ?thesis using J by (simp add: small_def)
  next
    case False
    then have "small 260 ?J" using J C by (simp add: small_def)
    then have "small 261 (fdiv ?D (lit 8))"
      using small_sub [of 260 ?C ?J] C(1) by (intro small_div) (simp_all add: eight fle_def)
    then show ?thesis using \<open>small 260 ?J\<close> by (simp add: small_def abs_le_iff)
  qed
  moreover have "- (2 ^ 262) \<le> val ?J + val ?X" using J(2) X(2) by linarith
  ultimately have "small 262 (fadd ?J ?X)"
    using fadd_abs_le [of ?J ?X "2 ^ 262"] J(1) X(1) rep_pow [of 262] by (simp add: small_def abs_le_iff)
  then have "small (2 * 131) (fmax (fadd ?J ?X) fzero)" by (simp add: small_max)
  then show ?thesis unfolding loop_jitter_def by (rule small_sqrt) (simp add: age_nonneg)
qed

definition servo_fits :: "discipline \<Rightarrow> bool" where
  "servo_fits d \<longleftrightarrow> disc_ok d \<and> small 131 (d_jitter d) \<and> small 129 (d_last_offset d)"

lemma servo_fits_new: "servo_fits (discipline_new f)"
  by (simp add: servo_fits_def new_ok) (simp add: discipline_new_def)

lemma servo_fits_reset: "servo_fits d \<Longrightarrow> servo_fits (reset_phase d)"
  by (simp add: servo_fits_def reset_ok) (simp add: reset_phase_def)

lemma servo_fits_update:
  assumes "servo_fits d" "small 129 x"
  shows "servo_fits (fst (disc_update d x now))"
proof -
  have "disc_ok (fst (disc_update d x now))" using assms(1) update_ok by (simp add: servo_fits_def)
  moreover have "small 131 (loop_jitter (d_jitter d) (fabs (fsub x (d_last_offset d))))"
    using assms small_sub [of 129 x "d_last_offset d"] by (intro loop_jitter_small) (simp_all add: servo_fits_def)
  then have "small 131 (d_jitter (fst (disc_update d x now))) \<and> small 129 (d_last_offset (fst (disc_update d x now)))"
    using assms by (auto simp: servo_fits_def disc_update_defs Let_def split: option.split)
  ultimately show ?thesis by (simp add: servo_fits_def)
qed

section \<open>The registers\<close>

definition sample_fits :: "sample \<Rightarrow> bool" where
  "sample_fits s \<longleftrightarrow> f64_ok (s_offset s) \<and> small 128 (s_offset s) \<and> fnonneg (s_delay s) \<and> fnonneg (s_dispersion s)"

definition register_fits :: "clock_filter \<Rightarrow> bool" where
  "register_fits cf \<longleftrightarrow> filter_inv cf \<and> list_all sample_fits (held cf)"

lemma f_of_int_ge_1: "1 \<le> n \<Longrightarrow> fle (Fin False 1) (f_of_int n)"
proof -
  assume "1 \<le> n"
  moreover have "f_of_int 1 = Fin False 1"
    using rep_powi [of 0] by (simp add: f_of_int_def fround_def rnd_def rep_def f64_top_def)
  ultimately show ?thesis using f_of_int_mono [of 1 n] by simp
qed

text \<open>The root mean square of some differences, as the register and the selection compute it.\<close>

lemma rms_small:
  assumes "list_all (small k) ds" "length ds \<le> 2 ^ m" "m \<le> 53" "1 \<le> n" "n \<le> 2 ^ 53" "2 * k + m \<le> 2 * j" "j \<le> 500"
  shows "small j (fsqrt (fdiv (f_sum (map f_sq ds)) (f_of_int n)))"
proof (rule small_sqrt)
  have sq: "list_all (small (2 * k)) (map f_sq ds)"
    using assms small_sq by (auto simp: list_all_iff)
  then have "small (2 * j) (f_sum (map f_sq ds))"
    using small_sum_pow [OF sq, of m] assms by (auto intro: small_mono)
  then show "small (2 * j) (fdiv (f_sum (map f_sq ds)) (f_of_int n))"
    using assms by (intro small_div f_of_int_ge_1) simp_all
  have "list_all fnonneg (map f_sq ds)"
    using assms(1) by (auto simp: list_all_iff small_def intro!: f_sq_nonneg)
  moreover have "f_of_int n = Fin False (of_int n)"
    using positive_form [of "f_of_int n"] f_of_int_exact [of n] assms(4,5) by simp
  ultimately show "fnonneg (fdiv (f_sum (map f_sq ds)) (f_of_int n))"
    using assms(4) by (simp add: fdiv_nonneg f_sum_nonneg)
qed

lemma min_dispersion_small: "small k MIN_DISPERSION"
  by (rule small_mono [of 0]) (simp_all add: small_def MIN_DISPERSION_def rnd_eval)

lemma ranked_jitter_small:
  assumes "list_all sample_fits ranked" "length ranked \<le> NSTAGE"
  shows "small 133 (ranked_jitter ranked)"
proof (cases "1 < length ranked")
  case True
  let ?ds = "map (\<lambda>s. fsub (s_offset s) (s_offset (ranked ! 0))) (tl ranked)"
  have "sample_fits (ranked ! 0)" "list_all sample_fits (tl ranked)"
    using True assms(1) by (auto simp: list_all_length nth_tl intro: Suc_lessD)
  then have "list_all (small 129) ?ds"
    using small_sub [of 128] by (auto simp: list_all_iff sample_fits_def)
  then have "small 133 (fsqrt (fdiv (f_sum (map f_sq ?ds)) (f_of_int (int (length ranked) - 1))))"
    using True assms(2) by (intro rms_small [where m = 3]) (auto simp: NSTAGE_def)
  then show ?thesis
    using True by (simp add: ranked_jitter_def Let_def small_max min_dispersion_small comp_def)
qed (simp add: ranked_jitter_def min_dispersion_small)

lemma register_fits_new: "register_fits filter_new" "register_fits (filter_reset cf)"
  by (simp_all add: register_fits_def filter_inv_new filter_inv_reset held_simps)

lemma register_fits_insert:
  assumes "register_fits cf" "sample_fits s"
  shows "register_fits (fst (filter_insert cf s now))"
  using assms by (auto simp: register_fits_def filter_inv_insert list_all_iff dest!: in_set_takeD)

text \<open>What a register reports.\<close>

lemma estimate_fits:
  assumes "register_fits cf" "filter_peek cf now = Some f"
  shows "f64_ok (f_offset f)" "small 128 (f_offset f)" "fnonneg (f_delay f)" "fnonneg (f_dispersion f)" "small 133 (f_jitter f)" "fle MIN_DISPERSION (f_jitter f)"
proof -
  have f: "f = estimate_of cf now" "held cf \<noteq> []" using assms(2) by (auto simp: peek_eq split: if_splits)
  have fits: "list_all sample_fits (rank_samples cf)" using assms(1) by (simp add: register_fits_def)
  have "sample_fits (rank_samples cf ! 0)" using fits f(2) by (simp add: list_all_length)
  then show "f64_ok (f_offset f)" "small 128 (f_offset f)" "fnonneg (f_delay f)" by (simp_all add: f estimate_of_def Let_def sample_fits_def)
  show "fnonneg (f_dispersion f)" "small 133 (f_jitter f)" "fle MIN_DISPERSION (f_jitter f)"
    using fits assms(1) dispersion_nonneg_of [of "rank_samples cf" now] ranked_jitter_small [of "rank_samples cf"] held_shape(2) [of cf]
    by (auto simp: f estimate_of_def Let_def list_all_iff sample_fits_def register_fits_def jitter_floor)
qed

section \<open>The selection\<close>

lemma in_map_filter: "y \<in> set (List.map_filter f xs) \<longleftrightarrow> (\<exists>x\<in>set xs. f x = Some y)"
  by (induction xs) (auto simp: map_filter_simps split: option.split)

text \<open>A candidate made from a register, its server's own figures as they are sent.\<close>

definition candidate_fits :: "f64 \<Rightarrow> candidate \<Rightarrow> bool" where
  "candidate_fits now c \<longleftrightarrow> (\<exists>cf. register_fits cf \<and> filter_peek cf now = Some (c_filtered c))
     \<and> fnonneg (c_root_delay c) \<and> fnonneg (c_root_dispersion c) \<and> f64_ok (c_root_dispersion c)"

lemma dispersion_ok: "f64_ok (ranked_dispersion ranked now)"
proof -
  have "f64_ok a \<Longrightarrow> f64_ok (foldl (\<lambda>d i. fadd d (slot_dispersion ranked now i)) a is)" for a "is"
    by (induction "is" arbitrary: a) simp_all
  then show ?thesis by (simp add: ranked_dispersion_def)
qed

lemma candidate_estimate:
  assumes "candidate_fits now c"
  shows "f64_ok (c_offset c)" "small 128 (c_offset c)" "fnonneg (f_delay (c_filtered c))"
    "fnonneg (f_dispersion (c_filtered c))" "small 133 (f_jitter (c_filtered c))"
    "fle MIN_DISPERSION (f_jitter (c_filtered c))" "f64_ok (f_dispersion (c_filtered c))"
proof -
  obtain cf where cf: "register_fits cf" "filter_peek cf now = Some (c_filtered c)"
    using assms by (auto simp: candidate_fits_def)
  note est = estimate_fits [OF this]
  show "f64_ok (c_offset c)" "small 128 (c_offset c)" "fnonneg (f_delay (c_filtered c))"
    "fnonneg (f_dispersion (c_filtered c))" "small 133 (f_jitter (c_filtered c))"
    "fle MIN_DISPERSION (f_jitter (c_filtered c))" by (rule est)+
  show "f64_ok (f_dispersion (c_filtered c))"
    using cf(2) dispersion_ok by (metis filtered.select_convs(3) estimate_of_def option.inject option.distinct(1) peek_eq)
qed

text \<open>The parts of a root distance, each at most the whole.\<close>

lemma distance_parts:
  assumes "candidate_fits now c"
  defines "h \<equiv> fdiv (fmax (fadd (c_root_delay c) (f_delay (c_filtered c))) MIN_DISPERSION) (lit 2)"
  shows "fle h (c_distance c now)" "fle (c_root_dispersion c) (c_distance c now)"
    "fle (f_dispersion (c_filtered c)) (c_distance c now)" "fle MIN_DISPERSION (c_distance c now)"
proof -
  note est = candidate_estimate [OF assms(1)]
  let ?d = "c_root_dispersion c" and ?e = "f_dispersion (c_filtered c)" and ?j = "f_jitter (c_filtered c)"
  let ?g = "fmul PHI (fmax (fsub now (f_at (c_filtered c))) fzero)"
  have d: "fnonneg ?d" "f64_ok ?d" using assms(1) by (simp_all add: candidate_fits_def)
  have h: "fnonneg h" "f64_ok h" and g: "fnonneg ?g" unfolding h_def by (simp_all add: root_terms_nonneg)
  have j: "fnonneg ?j" using est(6) min_dispersion_val(3) fnonneg_of_le by blast
  have eq: "c_distance c now = fadd (fadd (fadd (fadd h ?d) ?e) ?g) ?j"
    by (simp add: c_distance_def root_distance_def h_def)
  have n: "fnonneg (fadd h ?d)" "fnonneg (fadd (fadd h ?d) ?e)" "fnonneg (fadd (fadd (fadd h ?d) ?e) ?g)"
    using h d est(4) g by (simp_all add: fadd_nonneg)
  have up: "fle x (fadd h ?d) \<Longrightarrow> fle x (c_distance c now)" "fle y (fadd (fadd h ?d) ?e) \<Longrightarrow> fle y (c_distance c now)" for x y
    unfolding eq using sum_parts(1) [OF n(1) est(4)] sum_parts(1) [OF n(2) g] sum_parts(1) [OF n(3) j]
    by (meson fadd_ok fle_trans)+
  show "fle h (c_distance c now)" "fle ?d (c_distance c now)" using up(1) sum_parts [OF h(1) d(1)] h d by blast+
  show "fle ?e (c_distance c now)" using up(2) sum_parts(2) [OF n(1) est(4)] est(7) by blast
  have "fle (fadd fzero MIN_DISPERSION) (c_distance c now)"
    unfolding eq using est(6) min_dispersion_val(3) n(3) by (intro fadd_mono_nonneg) (simp_all add: fnonneg_def fnonneg_not_nan)
  moreover have "fadd fzero MIN_DISPERSION = MIN_DISPERSION"
    by (simp add: MIN_DISPERSION_def fround_def rnd_eval)
  ultimately show "fle MIN_DISPERSION (c_distance c now)" by simp
qed

text \<open>So a candidate that is fit has a finite distance, and the figures the daemon takes from it are in range.\<close>

lemma eight_ok: "rep 8" "(8::rat) < f64_top"
  using rep_pow [of 3] by (simp_all add: f64_top_def)

lemma fit_candidate:
  assumes "candidate_fits now c" "is_fit c now"
  shows "sound (2 ^ 128) now c" "small 1 (c_root_dispersion c)" "small 1 (f_dispersion (c_filtered c))"
    "small 3 (fadd (c_root_delay c) (f_delay (c_filtered c)))"
proof -
  note est = candidate_estimate [OF assms(1)] and part = distance_parts [OF assms(1)]
  have max: "is_finite MAX_DISTANCE" "val MAX_DISTANCE = 3 / 2" by (simp_all add: MAX_DISTANCE_def rnd_eval)
  have flt: "flt (c_distance c now) MAX_DISTANCE" using assms(2) by (simp add: is_fit_def)
  then have fin: "is_finite (c_distance c now)"
    using is_finite_between [of MIN_DISPERSION "c_distance c now" MAX_DISTANCE] part(4) min_dispersion_val(1) max(1)
    by (auto simp: flt_def fle_def)
  then have "measured (2 ^ 128) now c"
    using est(1,2) part(4) min_dispersion_val fle_val [of MIN_DISPERSION "c_distance c now"]
    by (simp add: measured_def small_def)
  then show sound: "sound (2 ^ 128) now c" using fit_sound [OF assms(2)] by blast
  then have one: "small 1 (c_distance c now)" by (simp add: sound_def small_def)
  show "small 1 (c_root_dispersion c)" "small 1 (f_dispersion (c_filtered c))"
    using assms(1) est(4) part(2,3) one by (auto simp: candidate_fits_def intro: small_below)
  let ?a = "fadd (c_root_delay c) (f_delay (c_filtered c))"
  have a: "fnonneg ?a" using assms(1) est(3) by (simp add: candidate_fits_def fadd_nonneg)
  let ?m = "fmax ?a MIN_DISPERSION"
  have half: "small 1 (fdiv ?m (lit 2))" using small_below [OF _ part(1) one] root_terms_nonneg(1) by blast
  moreover have "\<not> is_finite x \<Longrightarrow> \<not> is_finite (fdiv x (lit 2))" for x unfolding two_lit by (cases x) simp_all
  ultimately have m: "is_finite ?m" by (auto simp: small_def)
  have le: "fle ?a ?m" "fle fzero ?a" using a by (simp_all add: fmax_ge1 fnonneg_not_nan fnonneg_def)
  have "val ?m \<le> 8"
  proof (rule ccontr)
    assume "\<not> val ?m \<le> 8"
    then have "fle (Fin False 8) ?m" using m by (simp add: fle_val)
    then have "fle (fdiv (Fin False 8) (Fin False 2)) (fdiv ?m (Fin False 2))"
      using m by (intro fdiv_mono) (simp_all add: eight_ok)
    then show False using half by (simp add: two_lit small_def fle_val rnd_eval)
  qed
  moreover have "is_finite ?a" using is_finite_between [OF le(2,1)] m by simp
  ultimately show "small 3 ?a" using le m a by (auto simp: small_def fle_val fnonneg_cases)
qed

lemma combine_jitter_small:
  assumes "\<forall>c\<in>set cs. small 128 (c_offset c) \<and> small 133 (f_jitter (c_filtered c))" "cs \<noteq> []" "length cs \<le> 2 ^ 40"
  shows "small 150 (snd (combine cs now))" "fnonneg (snd (combine cs now))"
proof -
  let ?ds = "map (\<lambda>c. fsub (c_offset c) (c_offset (cs ! 0))) cs"
  let ?n = "length cs"
  define sj where "sj = (if 1 < ?n then fsqrt (fdiv (f_sum (map f_sq ?ds)) (f_of_int (int ?n - 1))) else fzero)"
  have head: "cs ! 0 \<in> set cs" using assms(2) by simp
  have ds: "list_all (small 129) ?ds"
    using assms(1) head small_sub [of 128] by (auto simp: list_all_iff)
  have len: "length ?ds \<le> 2 ^ 40" using assms(3) by simp
  have "small 149 sj"
    using rms_small [OF ds len, of "int ?n - 1" 149] assms(3) unfolding sj_def by (auto simp del: map_map)
  moreover have "small 149 (f_jitter (c_filtered (cs ! 0)))"
    using assms(1) head by (auto intro: small_mono [of 133])
  ultimately have sq: "small 298 (f_sq sj)" "small 298 (f_sq (f_jitter (c_filtered (cs ! 0))))"
    using small_sq [of 149] by auto
  then have "small (Suc 298) (fadd (f_sq sj) (f_sq (f_jitter (c_filtered (cs ! 0)))))"
    by (intro small_add) simp_all
  then have "small (2 * 150) (fadd (f_sq sj) (f_sq (f_jitter (c_filtered (cs ! 0)))))"
    by (rule small_mono) simp
  moreover have "fnonneg (fadd (f_sq sj) (f_sq (f_jitter (c_filtered (cs ! 0)))))"
    using \<open>small 149 sj\<close> \<open>small 149 (f_jitter (c_filtered (cs ! 0)))\<close> by (intro fadd_nonneg f_sq_nonneg) (auto simp: small_def)
  moreover have "snd (combine cs now) = fsqrt (fadd (f_sq sj) (f_sq (f_jitter (c_filtered (cs ! 0)))))"
    by (simp add: combine_def sj_def Let_def comp_def split: prod.split)
  ultimately show "small 150 (snd (combine cs now))" "fnonneg (snd (combine cs now))"
    by (simp_all add: small_sqrt fsqrt_nonneg)
qed

lemma combine_offset_small:
  assumes "\<forall>c\<in>set cs. sound (2 ^ 128) now c" "cs \<noteq> []" "length cs \<le> 2 ^ 40"
  shows "small 129 (fst (combine cs now))"
proof -
  let ?B = "2 ^ 128 :: rat" and ?q = "exact_sum now cs / exact_weight now cs"
  have "\<forall>c\<in>set cs. - ?B \<le> val (c_offset c) \<and> val (c_offset c) \<le> ?B"
    using assms(1) by (auto simp: sound_def abs_le_iff)
  note avg = average_between(1,2) [OF assms(1,2) this]
  have B: "1 \<le> ?B" "?B \<le> 2 ^ 900" by simp_all
  note close = combine_close [OF assms(1,2) B assms(3)]
  have "rat_of_nat (length cs) \<le> 2 ^ 40"
    using assms(3) by (simp only: of_nat_le_iff [symmetric, where ?'a = rat] of_nat_power of_nat_numeral)
  then have "15 * of_nat (length cs) * ?B / 2 ^ 52 \<le> ?B" by (simp add: divide_le_eq)
  then have "\<bar>val (fst (combine cs now)) - ?q\<bar> \<le> ?B" using close(2) by (rule order_trans [rotated])
  then have "\<bar>val (fst (combine cs now))\<bar> \<le> 2 ^ 129" using avg by (simp add: abs_le_iff)
  then show ?thesis using close(1) by (simp add: small_def)
qed

lemma selection_ranges:
  assumes "\<forall>c\<in>set cs. candidate_fits now c" "length cs \<le> 2 ^ 40" "select_sources cs now = Inr sel"
  shows "small 129 (sel_offset sel)" "small 150 (sel_jitter sel)" "fnonneg (sel_jitter sel)"
    "\<exists>c\<in>set cs. c_id c = sel_system_peer sel \<and> candidate_fits now c \<and> is_fit c now"
proof -
  obtain cl where cl: "cl \<noteq> []" "set cl \<subseteq> set (fit_ones cs now)" "length cl \<le> length cs"
    "sel_offset sel = fst (combine cl now)" "sel_jitter sel = snd (combine cl now)" "sel_system_peer sel = c_id (cl ! 0)"
  proof (rule select_InrD [OF assms(3)])
    fix l h cl
    let ?in = "filter (inside l h) (fit_ones cs now)"
    assume c: "cl = best_first (cluster ?in now) now" "cl \<noteq> []" "sel_system_peer sel = c_id (cl ! 0)"
      "sel_offset sel = fst (combine cl now)" "sel_jitter sel = snd (combine cl now)"
    have "length cl \<le> length ?in" using cluster_length [of ?in now] by (simp add: c(1))
    also have "\<dots> \<le> length cs" by (meson length_filter_le order_trans)
    finally show thesis
      using that [of cl] c cluster_facts [of ?in now] by auto
  qed
  have fits: "candidate_fits now c \<and> is_fit c now" if "c \<in> set cl" for c using that cl(2) assms(1) by auto
  have len: "length cl \<le> 2 ^ 40" using cl(3) assms(2) by simp
  show "small 129 (sel_offset sel)"
    unfolding cl(4) using fits fit_candidate(1) len by (intro combine_offset_small cl(1)) blast+
  show "small 150 (sel_jitter sel)" "fnonneg (sel_jitter sel)"
    unfolding cl(5) using fits candidate_estimate(2,5) len by (intro combine_jitter_small cl(1); blast)+
  have "cl ! 0 \<in> set cl" using cl(1) by simp
  then show "\<exists>c\<in>set cs. c_id c = sel_system_peer sel \<and> candidate_fits now c \<and> is_fit c now"
    using fits cl(2,6) by auto
qed

end
