(* ===== verification/EngineOps.thy ===== *)
theory EngineOps
  imports Ranges
begin

text \<open>
  The fuzz target of the decision core (\<open>fuzz/fuzz_targets/engine_ops.rs\<close>): six registers and one servo
  driven by any sequence of operations, with the assertions it makes after each. The theorem is what
  the target looks for a counterexample to: no sequence fails an assertion, so no NaN and no overflow
  reaches the offset selected, the jitter or the rate.
\<close>

section \<open>Definitions\<close>

text \<open>\<open>x as f64\<close> for an \<open>f32\<close> given by its bits.\<close>

definition f32_as_f64 :: "u32 \<Rightarrow> f64" where
  "f32_as_f64 w =
     (let negative = bit w 31;
          e = uint (and (drop_bit 23 w) 255);
          m = uint (and w 8388607)
      in if e = 255 then (if m = 0 then Inf negative else NaN)
         else if e = 0 then Fin negative (of_int m * 2 powi (- 149))
         else Fin negative (of_int (8388608 + m) * 2 powi (e - 150)))"

abbreviation u16_as_f64 :: "u16 \<Rightarrow> f64" where
  "u16_as_f64 tm \<equiv> f_of_int (uint tm)"

datatype fuzz_op =
    OpSample u8 u32 u32 u32 u16
  | OpReset u8
  | OpSelect u16
  | OpDiscipline u32 u16
  | OpResetPhase

definition SOURCES :: nat where "SOURCES = 6"

record engine =
  e_filters :: "clock_filter list"
  e_discipline :: discipline

definition engine_new :: engine where
  "engine_new = \<lparr>e_filters = map (\<lambda>_. filter_new) [0..<SOURCES], e_discipline = discipline_new fzero\<rparr>"

definition op_sample :: "u32 \<Rightarrow> u32 \<Rightarrow> u32 \<Rightarrow> u16 \<Rightarrow> sample" where
  "op_sample offset delay dispersion tm =
     \<lparr>s_offset = f32_as_f64 offset, s_delay = fabs (f32_as_f64 delay),
      s_dispersion = fabs (f32_as_f64 dispersion), s_at = u16_as_f64 tm\<rparr>"

abbreviation op_source :: "u8 \<Rightarrow> nat" where
  "op_source source \<equiv> unat source mod SOURCES"

definition op_candidate :: "f64 \<Rightarrow> nat \<times> clock_filter \<Rightarrow> candidate option" where
  "op_candidate now p = (case p of (i, f) \<Rightarrow>
     map_option (\<lambda>filtered. \<lparr>c_id = i, c_filtered = filtered, c_stratum = 2, c_root_delay = lit (1 / 100),
       c_root_dispersion = lit (1 / 1000), c_usable = True, c_prefer = (i = 0)\<rparr>) (filter_peek f now))"

definition op_candidates :: "engine \<Rightarrow> f64 \<Rightarrow> candidate list" where
  "op_candidates e now = List.map_filter (op_candidate now) (enumerate 0 (e_filters e))"

text \<open>The assertions; an operation that fails one panics, the value \<open>None\<close>.\<close>

definition selection_passes :: "selection \<Rightarrow> bool" where
  "selection_passes sel \<longleftrightarrow> is_finite (sel_offset sel) \<and> is_finite (sel_jitter sel) \<and> fle fzero (sel_jitter sel)
     \<and> list_all (\<lambda>i. i \<notin> set (sel_falsetickers sel)) (sel_survivors sel)
     \<and> sel_system_peer sel \<in> set (sel_survivors sel)"

definition rate_limit :: f64 where
  "rate_limit = fadd MAX_FREQUENCY (lit (1 / 1000000000000))"

definition adjustment_passes :: "adjustment \<Rightarrow> bool" where
  "adjustment_passes a = (case a of
     Rate rate \<Rightarrow> is_finite rate \<and> fle (fabs rate) rate_limit
   | Step seconds rate \<Rightarrow> is_finite seconds \<and> is_finite rate \<and> fle (fabs rate) rate_limit
   | Hold \<Rightarrow> True
   | Panic seconds \<Rightarrow> True)"

definition discipline_passes :: "discipline \<Rightarrow> bool" where
  "discipline_passes d \<longleftrightarrow> is_finite (d_frequency d) \<and> fle (fabs (d_frequency d)) MAX_FREQUENCY \<and> is_finite (d_jitter d)"

fun engine_step :: "engine \<Rightarrow> fuzz_op \<Rightarrow> engine option" where
  "engine_step e (OpSample source offset delay dispersion tm) =
     (let sample = op_sample offset delay dispersion tm
      in if \<not> is_finite (s_offset sample) \<or> \<not> is_finite (s_delay sample) \<or> \<not> is_finite (s_dispersion sample)
         then Some e
         else let i = op_source source
              in Some (e\<lparr>e_filters := (e_filters e)[i := fst (filter_insert (e_filters e ! i) sample (u16_as_f64 tm))]\<rparr>))"
| "engine_step e (OpReset source) =
     (let i = op_source source in Some (e\<lparr>e_filters := (e_filters e)[i := filter_reset (e_filters e ! i)]\<rparr>))"
| "engine_step e (OpSelect tm) =
     (let now = u16_as_f64 tm
      in case select_sources (op_candidates e now) now of
           Inl _ \<Rightarrow> Some e
         | Inr selection \<Rightarrow> if selection_passes selection then Some e else None)"
| "engine_step e (OpDiscipline offset tm) =
     (let offset = f32_as_f64 offset
      in if \<not> is_finite offset then Some e
         else case disc_update (e_discipline e) offset (u16_as_f64 tm) of
           (d, a) \<Rightarrow> if adjustment_passes a \<and> discipline_passes d then Some (e\<lparr>e_discipline := d\<rparr>) else None)"
| "engine_step e OpResetPhase = Some (e\<lparr>e_discipline := reset_phase (e_discipline e)\<rparr>)"

fun engine_run :: "engine \<Rightarrow> fuzz_op list \<Rightarrow> engine option" where
  "engine_run e [] = Some e"
| "engine_run e (op # ops) = (case engine_step e op of None \<Rightarrow> None | Some e' \<Rightarrow> engine_run e' ops)"

definition engine_ops :: "fuzz_op list \<Rightarrow> engine option" where
  "engine_ops ops = engine_run engine_new (take 512 ops)"

section \<open>Single precision\<close>

lemma f32_as_f64_form:
  assumes "is_finite (f32_as_f64 w)"
  shows "f64_ok (f32_as_f64 w)" "small 128 (f32_as_f64 w)"
proof -
  let ?e = "uint (and (drop_bit 23 w) 255)" and ?m = "uint (and w 8388607)"
  have e: "0 \<le> ?e" "?e \<le> 255" 
    using word_and_le1 [of "drop_bit 23 w" 255] by (simp_all add: word_le_def)
  have m: "0 \<le> ?m" "?m \<le> 8388607"
    using word_and_le1 [of w 8388607] by (simp_all add: word_le_def)
  obtain n k where f: "f32_as_f64 w = Fin (bit w 31) (of_int n * 2 powi k)"
    and nk: "0 \<le> n" "n \<le> 2 ^ 24" "- 149 \<le> k" "k \<le> 104"
  proof (cases "?e = 0")
    case True
    then show ?thesis using that [of ?m "- 149"] m by (simp add: f32_as_f64_def Let_def)
  next
    case False
    then have "?e \<noteq> 255" using assms by (auto simp: f32_as_f64_def Let_def split: if_splits)
    then show ?thesis using that [of "8388608 + ?m" "?e - 150"] e m False by (simp add: f32_as_f64_def Let_def)
  qed
  have "(of_int n :: rat) * 2 powi k \<le> 2 ^ 24 * 2 powi 104"
    using nk by (intro mult_mono power_int_increasing) (simp_all add: of_int_le_numeral_iff flip: of_int_power)
  then have le: "(of_int n :: rat) * 2 powi k \<le> 2 ^ 128" by simp
  have "0 \<le> (of_int n :: rat) * 2 powi k" using nk by simp
  then show "small 128 (f32_as_f64 w)" using le by (simp add: f small_def)
  have "rep (of_int n * 2 powi k)" using nk by (intro rep_dyadic) simp_all
  moreover have "(2::rat) ^ 128 < f64_top" by (simp add: f64_top_def)
  ultimately show "f64_ok (f32_as_f64 w)" using le by (simp add: f)
qed

section \<open>What the target asserts\<close>

lemma rate_passes: "bounded_rate r \<Longrightarrow> is_finite r \<and> fle (fabs r) MAX_FREQUENCY"
  using bounded_rate_finite [of r] max_frequency_facts(1)
  by (cases r) (auto simp: fle_val abs_le_iff split: if_splits)

lemma limit_above: "fle MAX_FREQUENCY rate_limit"
  by (simp add: rate_limit_def MAX_FREQUENCY_def fle_def fround_def rnd_eval)

lemma update_passes:
  assumes "servo_fits d" "is_finite x"
  shows "adjustment_passes (snd (disc_update d x now))"
proof -
  have ok: "adjustment_ok (snd (disc_update d x now))" using assms(1) update_ok by (simp add: servo_fits_def)
  have "is_finite s" if "snd (disc_update d x now) = Step s r" for s r
    using that assms(2) by (auto simp: disc_update_defs Let_def split: if_splits option.splits)
  with ok show ?thesis
    using rate_passes fle_trans [OF _ limit_above]
    by (cases "snd (disc_update d x now)") (auto simp: adjustment_passes_def adjustment_ok_def)
qed

lemma servo_passes: "servo_fits d \<Longrightarrow> discipline_passes d"
  using rate_passes by (auto simp: servo_fits_def discipline_passes_def disc_ok_def small_def)

lemma nonneg_lits: "fnonneg (lit (1 / 100))" "fnonneg (lit (1 / 1000))"
  by (simp_all add: fnonneg_cases rnd_eval)

lemma selection_fits:
  assumes "\<forall>c\<in>set cs. candidate_fits now c" "length cs \<le> SOURCES" "distinct (map c_id cs)"
    and "select_sources cs now = Inr sel"
  shows "selection_passes sel"
proof -
  have "length cs \<le> 2 ^ 40" using assms(2) by (simp add: SOURCES_def)
  note r = selection_ranges(1-3) [OF assms(1) this assms(4)]
  then show ?thesis
    using select_ids(1,2) [OF assms(4)] select_ids(5) [OF assms(4,3)]
    by (auto simp: selection_passes_def small_def fnonneg_def list_all_iff)
qed

section \<open>Every operation\<close>

definition engine_fits :: "engine \<Rightarrow> bool" where
  "engine_fits e \<longleftrightarrow> length (e_filters e) = SOURCES \<and> list_all register_fits (e_filters e) \<and> servo_fits (e_discipline e)"

lemma engine_fits_new: "engine_fits engine_new"
  by (auto simp: engine_fits_def engine_new_def list_all_iff register_fits_new servo_fits_new)

lemma map_filter_ids:
  assumes "\<And>p c. op_candidate now p = Some c \<Longrightarrow> c_id c = fst p" "distinct (map fst ps)"
  shows "distinct (map c_id (List.map_filter (op_candidate now) ps))
    \<and> set (map c_id (List.map_filter (op_candidate now) ps)) \<subseteq> fst ` set ps"
  using assms(2)
proof (induction ps)
  case (Cons p ps)
  then show ?case by (auto simp: map_filter_simps dest!: assms(1) split: option.split)
      (metis imageI subsetD)
qed (simp add: map_filter_simps)

lemma op_candidates_fit:
  assumes "engine_fits e"
  shows "\<forall>c\<in>set (op_candidates e now). candidate_fits now c" "length (op_candidates e now) \<le> SOURCES"
    "distinct (map c_id (op_candidates e now))"
proof -
  have "candidate_fits now c" if c: "c \<in> set (op_candidates e now)" for c
  proof -
    obtain i cf where "(i, cf) \<in> set (enumerate 0 (e_filters e))" "op_candidate now (i, cf) = Some c"
      using c unfolding op_candidates_def by (auto simp: in_map_filter)
    moreover from this have "cf \<in> set (e_filters e)" by (auto simp: in_set_enumerate_eq)
    then have "register_fits cf" using assms by (auto simp: engine_fits_def list_all_iff)
    ultimately show ?thesis by (auto simp: op_candidate_def candidate_fits_def nonneg_lits)
  qed
  then show "\<forall>c\<in>set (op_candidates e now). candidate_fits now c" by blast
  show "length (op_candidates e now) \<le> SOURCES"
    using assms length_filter_le [of _ "enumerate 0 (e_filters e)"]
    by (simp add: op_candidates_def map_filter_def engine_fits_def)
  have "c_id c = fst p" if "op_candidate now p = Some c" for p c
    using that by (auto simp: op_candidate_def split: prod.splits)
  then show "distinct (map c_id (op_candidates e now))"
    using map_filter_ids [of now "enumerate 0 (e_filters e)"] by (simp add: op_candidates_def)
qed

lemma op_sample_fits:
  assumes "is_finite (f32_as_f64 offset)"
  shows "sample_fits (op_sample offset delay dispersion tm)
    \<longleftrightarrow> fnonneg (fabs (f32_as_f64 delay)) \<and> fnonneg (fabs (f32_as_f64 dispersion))"
  using f32_as_f64_form [OF assms] by (simp add: sample_fits_def op_sample_def)

lemma fabs_nonneg: "f64_ok x \<Longrightarrow> is_finite x \<Longrightarrow> fnonneg (fabs x)"
  by (cases x) (auto simp: fnonneg_cases rep_def)

lemma op_source_less: "op_source source < SOURCES"
  by (simp add: SOURCES_def)

lemma fits_update_filter:
  assumes "engine_fits e" "register_fits cf"
  shows "engine_fits (e\<lparr>e_filters := (e_filters e)[i := cf]\<rparr>)"
  using assms set_update_subset_insert [of "e_filters e" i cf] by (auto simp: engine_fits_def list_all_iff)

lemma engine_step_fits:
  assumes "engine_fits e"
  shows "\<exists>e'. engine_step e op = Some e' \<and> engine_fits e'"
proof -
  have reg: "register_fits (e_filters e ! op_source source)" for source
    using assms op_source_less [of source] by (auto simp: engine_fits_def list_all_length)
  show ?thesis
  proof (cases op)
    case (OpSample source offset delay dispersion tm)
    let ?s = "op_sample offset delay dispersion tm"
    show ?thesis
    proof (cases "is_finite (s_offset ?s) \<and> is_finite (s_delay ?s) \<and> is_finite (s_dispersion ?s)")
      case True
      then have fin: "is_finite (f32_as_f64 offset)" "is_finite (f32_as_f64 delay)" "is_finite (f32_as_f64 dispersion)"
        by (auto simp: op_sample_def)
      then have "sample_fits ?s"
        using f32_as_f64_form(1) [OF fin(2)] f32_as_f64_form(1) [OF fin(3)] by (simp add: op_sample_fits fabs_nonneg)
      then show ?thesis
        using True register_fits_insert [OF reg] fits_update_filter [OF assms]
        by (simp add: OpSample Let_def)
    qed (use assms in \<open>auto simp: OpSample Let_def\<close>)
  next
    case (OpReset source)
    then show ?thesis using fits_update_filter [OF assms register_fits_new(2)] by (simp add: Let_def)
  next
    case (OpSelect tm)
    then show ?thesis
      using assms selection_fits [OF op_candidates_fit [OF assms], of "u16_as_f64 tm"]
      by (auto simp: Let_def split: sum.split)
  next
    case (OpDiscipline offset tm)
    show ?thesis
    proof (cases "is_finite (f32_as_f64 offset)")
      case True
      have fits: "servo_fits (e_discipline e)" using assms by (simp add: engine_fits_def)
      note keeps = servo_fits_update [OF fits small_mono [OF f32_as_f64_form(2) [OF True]], of "u16_as_f64 tm"]
      show ?thesis
        using True keeps update_passes [OF fits True, of "u16_as_f64 tm"] servo_passes [OF keeps] assms
        by (auto simp: OpDiscipline Let_def engine_fits_def split: prod.split)
    qed (use assms in \<open>simp add: OpDiscipline\<close>)
  next
    case OpResetPhase
    then show ?thesis using assms by (simp add: engine_fits_def servo_fits_reset)
  qed
qed

lemma engine_run_fits: "engine_fits e \<Longrightarrow> \<exists>e'. engine_run e ops = Some e' \<and> engine_fits e'"
proof (induction ops arbitrary: e)
  case (Cons op ops)
  obtain e' where "engine_step e op = Some e'" "engine_fits e'" using engine_step_fits [OF Cons.prems] by blast
  then show ?case using Cons.IH by simp
qed simp

text \<open>
  C10: whatever the samples, resets, selections and offsets, in any order and at any times, no assertion
  of the decision core's fuzz target fails: each selection is finite with its jitter, its survivors and
  falsetickers are apart and its peer survives; each rate is finite and within the tolerance; and the
  servo's frequency and jitter stay finite.
\<close>
theorem engine_never_panics: "engine_ops ops \<noteq> None"
  using engine_run_fits [OF engine_fits_new] by (auto simp: engine_ops_def)

end
