(* ===== verification/FuzzTargets.thy ===== *)
theory FuzzTargets
  imports ProtocolLaws PollSource
begin

text \<open>
  The fuzz targets that make assertions on bytes (\<open>fuzz/fuzz_targets/\<close>): a datagram put to the parser
  (\<open>ntp_packet.rs\<close>), a reply put to a source that expects one (\<open>source_accept.rs\<close>), and a message put
  to the control protocol (\<open>time_wire.rs\<close>). Each is the predicate that no assertion fails.
\<close>

section \<open>Definitions\<close>

definition ntp_packet_passes :: "bytes \<Rightarrow> bool" where
  "ntp_packet_passes data =
     (case packet_decode data of
        Inl _ \<Rightarrow> True
      | Inr packet \<Rightarrow>
          HEADER_LEN \<le> length (packet_encode packet)
          \<and> list_all (\<lambda>field. 16 \<le> encoded_len field \<and> encoded_len field mod 4 = 0) (pk_extensions packet)
          \<and> HEADER_LEN + sum_list (map encoded_len (pk_extensions packet)) \<le> length data + 16)"

definition fuzz_source :: source where
  "fuzz_source = source_new ''fuzz'' (SocketAddr (V4 [192, 0, 2, 1]) 123) Unauthenticated DEFAULT_MIN_POLL DEFAULT_MAX_POLL"

definition source_accept_passes :: "aead \<Rightarrow> draws \<Rightarrow> bytes \<Rightarrow> bool" where
  "source_accept_passes A dr data =
     (case prepare A dr (from_unix 1756000000 0) fzero fuzz_source of
        (_, Inl _) \<Rightarrow> True
      | (source, Inr request) \<Rightarrow>
          (case packet_decode request of
             Inl _ \<Rightarrow> False
           | Inr asked \<Rightarrow>
               let sent = pk_transmit_timestamp asked;
                   (source, result) = source_accept A data (from_unix 1756000000 50000000) (lit 1) source;
                   echoed = (case packet_decode data of Inl _ \<Rightarrow> False | Inr p \<Rightarrow> pk_origin_timestamp p = sent)
               in echoed \<or> isl result \<and> src_reach source = 0 \<and> filter_is_empty (src_filter source)))"

definition time_wire_passes :: "msgpack \<Rightarrow> bytes \<Rightarrow> bool" where
  "time_wire_passes M data \<longleftrightarrow>
     (case request_decode M data of
        Inl _ \<Rightarrow> True
      | Inr request \<Rightarrow> request_decode M (request_encode M request) = Inr request)
   \<and> (case reply_decode M data of
        Inl _ \<Rightarrow> True
      | Inr reply \<Rightarrow> length (reply_encode M reply) \<le> MAX_MESSAGE_BYTES)"

section \<open>Datagrams\<close>

lemma length_fields: "length (concat (map field_bytes fs)) = sum_list (map encoded_len fs)"
  by (simp add: length_concat comp_def length_field_bytes)

lemma ntp_packet_ok: "ntp_packet_passes data"
proof (cases "packet_decode data")
  case (Inr p)
  obtain m where m: "data = packet_encode p @ mac_bytes m" using packet_decode_sound [OF Inr] by blast
  have "packet_ok p" using packet_decode_header(4) [OF Inr] .
  then have len: "length (packet_encode p) = HEADER_LEN + sum_list (map encoded_len (pk_extensions p))"
    by (simp add: encode_eq length_header packet_ok_def length_fields HEADER_LEN_def)
  then show ?thesis
    using encoded_len_bounds(2,3) unfolding ntp_packet_passes_def Inr by (auto simp: m list_all_iff)
qed (simp add: ntp_packet_passes_def)

lemma plain_request_decodes:
  "packet_decode (packet_encode (packet_default\<lparr>pk_mode := Client, pk_version := VERSION, pk_poll := 6,
     pk_transmit_timestamp := t\<rparr>))
   = Inr (packet_default\<lparr>pk_mode := Client, pk_version := VERSION, pk_poll := 6, pk_transmit_timestamp := t\<rparr>)"
  (is "packet_decode (packet_encode ?p) = _")
  using packet_decode_encode [of ?p]
  by (simp add: packet_default_def packet_ok_def VERSION_def reference_id_default_def no_mac_clash_def encode_eq
      length_header MAX_PACKET_def)

lemma source_accept_ok: "source_accept_passes A dr data"
proof (cases "dr_transmit dr")
  case (Some t)
  let ?p = "packet_default\<lparr>pk_mode := Client, pk_version := VERSION, pk_poll := 6, pk_transmit_timestamp := t\<rparr>"
  define s where "s = fuzz_source\<lparr>src_pending := Some \<lparr>pd_transmit = t, pd_origin = from_unix 1756000000 0,
     pd_unique_id = None, pd_s2c = None, pd_sent_at = fzero\<rparr>\<rparr>"
  have "src_poll fuzz_source = 6"
    by (simp add: fuzz_source_def source_new_def Let_def clamp_int_def DEFAULT_MIN_POLL_def POLL_FLOOR_def POLL_CEILING_def)
  then have prep: "prepare A dr (from_unix 1756000000 0) fzero fuzz_source = (s, Inr (packet_encode ?p))"
    by (simp add: prepare_def Some s_def Let_def) (simp add: fuzz_source_def source_new_def Let_def)
  obtain s' r where a: "source_accept A data (from_unix 1756000000 50000000) (lit 1) s = (s', r)" by fastforce
  have fresh: "src_reach s = 0" "filter_is_empty (src_filter s)"
    by (simp_all add: s_def fuzz_source_def source_new_def Let_def filter_is_empty_def filter_new_def NSTAGE_def)
  have "(\<exists>p. packet_decode data = Inr p \<and> pk_origin_timestamp p = t) \<or> isl r \<and> s' = s"
    using a
  proof (cases rule: accept_cases)
    case (answered p packet s1)
    then show ?thesis by (auto simp: answers_def s_def)
  qed auto
  then show ?thesis
    using fresh by (auto simp: source_accept_passes_def prep plain_request_decodes a Let_def)
qed (simp add: source_accept_passes_def prepare_def)

section \<open>Control messages\<close>

lemma fields_loop_keeps:
  assumes "\<And>key s r s' r'. P s \<Longrightarrow> f key s r = Inr (s', r') \<Longrightarrow> P s'"
  shows "fields_loop M f n seen s r = Inr (s', r') \<Longrightarrow> P s \<Longrightarrow> P s'"
  by (induction n arbitrary: seen s r) (auto simp: rbind_Inr_iff assms split: if_splits)

lemma decoded_request_ok:
  assumes "request_decode M bs = Inr q"
  shows "request_ok q"
proof -
  let ?P = "\<lambda>s. \<forall>x. rq_seconds s = Some x \<longrightarrow> in_i64 x"
  obtain s r where s: "for_each_field M (request_field M) \<lparr>rq_query = None, rq_seconds = None, rq_nanos = 0\<rparr> bs = Inr (s, r)"
    "request_of_fields s = Inr q"
    using assms by (auto simp: request_decode_def rbind_Inr_iff)
  have keeps: "?P s'" if "?P s" "request_field M key s r = Inr (s', r')" for key s r s' r'
  proof -
    have "in_i64 x" if "read_token M as_int r = Inr (x, r')" for x r r'
      using that by (auto simp: read_token_def split: option.splits if_splits elim!: as_int.elims)
    then show ?thesis
      using that by (auto simp: request_field_def into_def rbind_Inr_iff split: if_splits)
  qed
  have sec: "?P s"
    using s(1) fields_loop_keeps [of ?P "request_field M", OF keeps]
    by (auto simp: for_each_field_def rbind_Inr_iff)
  show ?thesis
  proof (cases q)
    case (ReqSet seconds nanos)
    then show ?thesis
      using decoded_nanos_below_a_second [of M bs seconds nanos] assms sec s(2)
      by (auto simp: request_of_fields_def split: option.splits if_splits)
  qed simp_all
qed

text \<open>An answer of \<open>n\<close> sources without a field: in MessagePack one byte each.\<close>

definition flood :: "msgpack \<Rightarrow> nat \<Rightarrow> bytes" where
  "flood M n = mp_put M (TMap 2) @ put_str M ''reply'' @ put_str M ''sources'' @ put_str M ''sources''
     @ mp_put M (TArray n) @ concat (replicate n (mp_put M (TMap 0)))"

lemma put_length: "lossless M \<Longrightarrow> token_ok t \<Longrightarrow> 1 \<le> length (mp_put M t)"
  using put_nonempty [of M t] by (cases "mp_put M t") simp_all

lemma read_empty_sources:
  assumes "lossless M"
  shows "read_n_sources M n out (concat (replicate n (mp_put M (TMap 0))) @ r) = Inr (out @ replicate n source_info_default, r)"
proof (induction n arbitrary: out)
  case (Suc n)
  have "read_source M (mp_put M (TMap 0) @ q) = Inr (source_info_default, q)" for q
    using assms by (simp add: read_source_def for_each_field_put)
  then show ?case using Suc by (simp add: replicate_append_same)
qed simp

lemma flood_decodes:
  assumes "lossless M" "n < 2 ^ 32"
  shows "reply_decode M (flood M n) = Inr (ReplySources (replicate n source_info_default) False)"
proof -
  have arr: "read_token M as_array (mp_put M (TArray n) @ q) = Inr (n, q)" for q
    by (rule read_put) (use assms in simp_all)
  have room: "n \<le> length (concat (replicate n (mp_put M (TMap 0))))"
    using put_length [OF assms(1), of "TMap 0"] by (simp add: length_concat sum_list_replicate)
  have nxt: "mp_next M (mp_put M (TArray n) @ q) = Some (TArray n, q)" for q
    by (rule next_put) (use assms in simp_all)
  have "sources_field M s (mp_put M (TArray n) @ concat (replicate n (mp_put M (TMap 0))))
      = Inr (s\<lparr>rp_sources := replicate n source_info_default\<rparr>, [])" for s
    using room read_empty_sources [OF assms(1), of n "[]" "[]"]
    by (simp add: sources_field_def nxt into_def read_sources_def arr)
  then show ?thesis
    using assms
    by (simp add: flood_def reply_decode_def reply_field_keys reading reply_of_fields_def reply_fields_default_def
        del: fields_loop.simps(2))
qed

lemma tokens_length:
  assumes "lossless M"
  shows "list_all token_ok ts \<Longrightarrow> length ts \<le> length (concat (map (mp_put M) ts))"
proof (induction ts)
  case (Cons t ts)
  then show ?case using put_length [OF assms, of t] by simp
qed simp

lemma write_source_length:
  assumes "lossless M"
  shows "33 \<le> length (write_source M source_info_default)"
proof -
  let ?ts = "[TMap 16, TStr ''name'', TStr [], TStr ''address'', TStr [], TStr ''origin'', TStr ''registry'',
    TStr ''auth'', TStr ''nts'', TStr ''state'', TStr ''unreachable'', TStr ''stratum'', TInt 0, TStr ''reference'', TStr [],
    TStr ''reach'', TInt 0, TStr ''poll'', TInt 0, TStr ''last'', TFloat fzero, TStr ''offset'', TFloat fzero,
    TStr ''delay'', TFloat fzero, TStr ''jitter'', TFloat fzero, TStr ''root_distance'', TFloat fzero,
    TStr ''cookies'', TInt 0, TStr ''note'', TNil]"
  have "length ?ts \<le> length (concat (map (mp_put M) ?ts))" by (rule tokens_length [OF assms]) simp
  then show ?thesis by (simp add: write_source_def source_info_default_def write_opt_str_def)
qed

lemma flood_grows:
  assumes "lossless M"
  shows "33 * n \<le> length (reply_encode M (ReplySources (replicate n source_info_default) False))"
proof -
  have "33 * n = n * 33" by simp
  also have "\<dots> \<le> n * length (write_source M source_info_default)"
    using write_source_length [OF assms] by (rule mult_le_mono2)
  also have "\<dots> \<le> length (reply_encode M (ReplySources (replicate n source_info_default) False))"
    by (simp add: length_concat sum_list_replicate)
  finally show ?thesis .
qed

section \<open>Properties\<close>

text \<open>
  C12: no datagram fails an assertion of the two targets that take one: what the parser accepts
  re-encodes to at least a header, its fields are whole words of at least sixteen bytes that fit the
  datagram, and a reply that does not echo the nonce of the request is refused, marks nothing
  reachable and leaves the register empty, whatever was drawn and whatever the cipher does.
\<close>
theorem datagrams_never_panic: "ntp_packet_passes data \<and> source_accept_passes A dr data"
  using ntp_packet_ok source_accept_ok by blast

text \<open>
  The first assertion of the control target holds, a request that was decoded reads back as itself
  when encoded again; so the target fails only on a reply that grows past the limit of a message.
\<close>
theorem requests_reencode:
  assumes "lossless M"
  shows "time_wire_passes M data \<longleftrightarrow>
    (case reply_decode M data of Inl _ \<Rightarrow> True | Inr reply \<Rightarrow> length (reply_encode M reply) \<le> MAX_MESSAGE_BYTES)"
  using decoded_request_ok request_decode_encode [OF assms]
  by (simp add: time_wire_passes_def split: sum.split)

theorem requests_reencode_witness:
  "time_wire_passes tagged (reply_encode tagged ReplyOk) \<longleftrightarrow>
    length (reply_encode tagged ReplyOk) \<le> MAX_MESSAGE_BYTES"
  using requests_reencode [OF lossless_tagged, of "reply_encode tagged ReplyOk"] short_reply_decode(1) [OF lossless_tagged]
  by (simp del: reply_encode.simps)

text \<open>
  And there is such a reply: the library reads a source without a single field, one byte on the
  wire, but writes all sixteen of it, at least thirty-three tokens. An answer of 32768 empty sources,
  a thirty-second of the limit in MessagePack, is decoded, and encoded again it is over the limit that
  every message of the protocol has.
\<close>
theorem empty_sources_grow_past_limit:
  assumes "lossless M"
  shows "reply_decode M (flood M (2 ^ 15)) = Inr (ReplySources (replicate (2 ^ 15) source_info_default) False)
    \<and> MAX_MESSAGE_BYTES < length (reply_encode M (ReplySources (replicate (2 ^ 15) source_info_default) False))
    \<and> \<not> time_wire_passes M (flood M (2 ^ 15))"
proof -
  have d: "reply_decode M (flood M (2 ^ 15)) = Inr (ReplySources (replicate (2 ^ 15) source_info_default) False)"
    by (rule flood_decodes [OF assms]) simp
  have "MAX_MESSAGE_BYTES < 33 * 2 ^ 15" by (simp add: MAX_MESSAGE_BYTES_def)
  then have g: "MAX_MESSAGE_BYTES < length (reply_encode M (ReplySources (replicate (2 ^ 15) source_info_default) False))"
    using flood_grows [OF assms, of "2 ^ 15"] by (rule less_le_trans)
  then have "\<not> time_wire_passes M (flood M (2 ^ 15))" unfolding time_wire_passes_def d by simp
  with d g show ?thesis by blast
qed

theorem empty_sources_grow_past_limit_witness:
  "\<not> time_wire_passes tagged (flood tagged (2 ^ 15))"
  using empty_sources_grow_past_limit [OF lossless_tagged] by blast

end
