(* ===== verification/Platform.thy ===== *)
theory Platform
  imports ControlGate
begin

text \<open>
  What the daemon asks of the operating system around its loop: the lines of its log (\<open>timed/src/log.rs\<close>),
  the control socket made and protected (\<open>listen\<close>, \<open>protect\<close> in \<open>control.rs\<close>), its own identity
  (\<open>own_sid\<close> in \<open>audit.rs\<close>), the channel to the network manager (\<open>connect\<close> in \<open>netd_link.rs\<close>), and the
  descriptors it waits for and the notifications it sends (\<open>main.rs\<close>). Calls are recorded in order;
  what the system answers to each is an argument.
\<close>

section \<open>The log\<close>

datatype log_sink = Stdout | Stderr | Kmsg

definition log_priority :: "string \<Rightarrow> string" where
  "log_priority level = (if level = ''error'' then ''3'' else if level = ''warn'' then ''4'' else ''6'')"

definition emit :: "bool \<Rightarrow> string \<Rightarrow> string \<Rightarrow> (log_sink \<times> string) list" where
  "emit kmsg level args =
     (let line = ''timed: '' @ level @ '': '' @ args @ [CHR 0x0A]
      in (if level = ''info'' then Stdout else Stderr, line)
         # (if kmsg then [(Kmsg, ''<'' @ log_priority level @ ''>'' @ line)] else []))"

definition log_info :: "bool \<Rightarrow> string \<Rightarrow> (log_sink \<times> string) list" where
  "log_info kmsg args = emit kmsg ''info'' args"

definition log_warn :: "bool \<Rightarrow> string \<Rightarrow> (log_sink \<times> string) list" where
  "log_warn kmsg args = emit kmsg ''warn'' args"

definition log_error :: "bool \<Rightarrow> string \<Rightarrow> (log_sink \<times> string) list" where
  "log_error kmsg args = emit kmsg ''error'' args"

section \<open>The control socket\<close>

definition TIMED_RUN_DIR :: string where "TIMED_RUN_DIR = ''/run/timed''"
definition LISTEN_PATH :: string where "LISTEN_PATH = ''/run/timed/time.sock''"
definition DIRECTORY_MODE :: nat where "DIRECTORY_MODE = 493"
definition SOCKET_MODE :: nat where "SOCKET_MODE = 438"

text \<open>Whom an entry of a descriptor names: a well-known identity, or a user by its SID.\<close>

datatype holder = Known trustee | User bytes

datatype os_call =
    MakeDirs string
  | SetMode string nat
  | SetDacl string "(holder \<times> u32) list"
  | RemoveFile string
  | BindSocket string
  | Nonblocking

datatype os_error = NotFound | OtherError string

datatype listen_note =
    RemovedStale
  | NoIdentity string
  | DaclRefused string os_error
  | NoDescriptor string

text \<open>
  The system: the daemon's own user, the four generic rights, whether a list of entries makes a
  descriptor, and the answer to a call, given the calls before it.
\<close>

record platform =
  pf_identity :: "string + bytes"
  pf_all :: u32
  pf_read :: u32
  pf_write :: u32
  pf_execute :: u32
  pf_builds :: "(holder \<times> u32) list \<Rightarrow> string option"
  pf_answer :: "os_call list \<Rightarrow> os_call \<Rightarrow> os_error option"

record listen_trace =
  lt_calls :: "os_call list"
  lt_notes :: "listen_note list"

text \<open>A call made, recorded, and what follows it by its answer.\<close>

definition call_os :: "platform \<Rightarrow> os_call \<Rightarrow> listen_trace \<Rightarrow> listen_trace \<times> os_error option" where
  "call_os P c t = (t\<lparr>lt_calls := lt_calls t @ [c]\<rparr>, pf_answer P (lt_calls t) c)"

definition add_note :: "listen_note \<Rightarrow> listen_trace \<Rightarrow> listen_trace" where
  "add_note n t = t\<lparr>lt_notes := lt_notes t @ [n]\<rparr>"

definition and_then :: "listen_trace \<times> os_error option \<Rightarrow> (listen_trace \<Rightarrow> listen_trace \<times> os_error option)
    \<Rightarrow> listen_trace \<times> os_error option" where
  "and_then r k = (case r of (t, Some e) \<Rightarrow> (t, Some e) | (t, None) \<Rightarrow> k t)"

definition protect_entries :: "platform \<Rightarrow> (holder \<times> u32) list" where
  "protect_entries P =
     [(Known SidSystem, pf_all P)]
     @ (case pf_identity P of Inl e \<Rightarrow> [] | Inr me \<Rightarrow> [(User me, pf_all P)])
     @ [(Known SidEveryone, pf_read P OR pf_write P OR pf_execute P)]"

definition protect :: "platform \<Rightarrow> string \<Rightarrow> listen_trace \<Rightarrow> listen_trace" where
  "protect P path t =
     (let t = (case pf_identity P of Inl e \<Rightarrow> add_note (NoIdentity e) t | Inr me \<Rightarrow> t)
      in case pf_builds P (protect_entries P) of
           Some e \<Rightarrow> add_note (NoDescriptor e) t
         | None \<Rightarrow> (case call_os P (SetDacl path (protect_entries P)) t of
             (t, None) \<Rightarrow> t
           | (t, Some e) \<Rightarrow> add_note (DaclRefused path e) t))"

definition remove_stale :: "platform \<Rightarrow> listen_trace \<Rightarrow> listen_trace \<times> os_error option" where
  "remove_stale P t = (case call_os P (RemoveFile LISTEN_PATH) t of
     (t, None) \<Rightarrow> (add_note RemovedStale t, None)
   | (t, Some NotFound) \<Rightarrow> (t, None)
   | (t, Some e) \<Rightarrow> (t, Some e))"

text \<open>\<open>listen\<close>: None is the listener.\<close>

definition listen :: "platform \<Rightarrow> listen_trace \<times> os_error option" where
  "listen P =
     and_then (call_os P (MakeDirs TIMED_RUN_DIR) \<lparr>lt_calls = [], lt_notes = []\<rparr>) (\<lambda>t.
     and_then (call_os P (SetMode TIMED_RUN_DIR DIRECTORY_MODE) t) (\<lambda>t.
     and_then (remove_stale P (protect P TIMED_RUN_DIR t)) (\<lambda>t.
     and_then (call_os P (BindSocket LISTEN_PATH) t) (\<lambda>t.
     and_then (call_os P (SetMode LISTEN_PATH SOCKET_MODE) t) (\<lambda>t.
     call_os P Nonblocking (protect P LISTEN_PATH t))))))"

section \<open>Own identity\<close>

text \<open>\<open>own_sid\<close>: what was read the first time is what is answered ever after, a failure included.\<close>

definition own_sid :: "string + bytes \<Rightarrow> bytes option option \<Rightarrow> bytes option \<times> bytes option option" where
  "own_sid reading cell = (case cell of
     Some known \<Rightarrow> (known, cell)
   | None \<Rightarrow> (let known = (case reading of Inl e \<Rightarrow> None | Inr sid \<Rightarrow> Some sid) in (known, Some known)))"

section \<open>Waiting\<close>

text \<open>
  The descriptors \<open>poll\<close> is given, in order, and where the watch of the registry is among them:
  the sockets of the two families, the listener, the channel to the network manager, the watch.
\<close>

definition wait_fds :: "int option \<Rightarrow> int option \<Rightarrow> int \<Rightarrow> int option \<Rightarrow> int option \<Rightarrow> int list \<times> nat option" where
  "wait_fds v4 v6 listener netd watch =
     (let raw = [];
          raw = (case v4 of Some s \<Rightarrow> raw @ [s] | None \<Rightarrow> raw);
          raw = (case v6 of Some s \<Rightarrow> raw @ [s] | None \<Rightarrow> raw);
          raw = raw @ [listener];
          raw = (case netd of Some fd \<Rightarrow> raw @ [fd] | None \<Rightarrow> raw)
      in case watch of
           Some w \<Rightarrow> (raw @ [w], Some (length (raw @ [w]) - 1))
         | None \<Rightarrow> (raw, None))"

text \<open>\<open>(timeout.as_millis() as i32).max(1)\<close>, the time-out in nanoseconds.\<close>

definition wait_millis :: "nat \<Rightarrow> int" where
  "wait_millis timeout = max (sint (word_of_int (int (timeout div 1000000)) :: u32)) 1"

text \<open>What \<open>wait\<close> makes of the events \<open>poll\<close> wrote, none when it failed or timed out.\<close>

definition wait :: "(int \<Rightarrow> bool) \<Rightarrow> int option \<Rightarrow> int option \<Rightarrow> int \<Rightarrow> int option \<Rightarrow> int option \<Rightarrow> bool \<Rightarrow> bool" where
  "wait ready v4 v6 listener netd watch registry_readable =
     (case wait_fds v4 v6 listener netd watch of (fds, slot) \<Rightarrow>
        (case slot of Some i \<Rightarrow> map ready fds ! i | None \<Rightarrow> registry_readable))"

section \<open>Notifications and sockets\<close>

definition notify_level :: "sync \<Rightarrow> string" where
  "notify_level s = ''LEVEL='' @ sync_as_str s"

definition notify_ready :: string where
  "notify_ready = ''READY=1''"

text \<open>\<open>notify\<close>: the datagram sent, if any, and the warning logged.\<close>

definition notify :: "string option \<Rightarrow> string option \<Rightarrow> string option \<Rightarrow> string \<Rightarrow> (string \<times> string) option \<times> string option" where
  "notify path unbound send payload =
     (case path of
        None \<Rightarrow> (None, None)
      | Some path \<Rightarrow> (case unbound of
          Some e \<Rightarrow> (None, Some (''notify: '' @ e))
        | None \<Rightarrow> (Some (path, payload), map_option ((@) ''notify: '') send)))"

definition bind_udp :: "(string \<Rightarrow> 'sock option) \<Rightarrow> ('sock \<Rightarrow> 'sock option) \<Rightarrow> string \<Rightarrow> 'sock option" where
  "bind_udp bind nonblocking address = Option.bind (bind address) nonblocking"

section \<open>The channel to the network manager\<close>

definition netd_connect :: "(string \<Rightarrow> string + 'stream) \<Rightarrow> ('stream \<Rightarrow> string option) \<Rightarrow> ('stream \<Rightarrow> string option)
    \<Rightarrow> ('stream \<Rightarrow> string option) \<Rightarrow> string \<Rightarrow> string + 'stream" where
  "netd_connect connect write_timeout subscribe nonblocking path =
     rbind (connect path) (\<lambda>stream. case write_timeout stream of Some e \<Rightarrow> Inl e | None \<Rightarrow>
       (case subscribe stream of Some e \<Rightarrow> Inl e | None \<Rightarrow>
         (case nonblocking stream of Some e \<Rightarrow> Inl e | None \<Rightarrow> Inr stream)))"

section \<open>Starting again\<close>

text \<open>The entries of the last descriptor set on a path, and the system a second run finds.\<close>

fun last_dacl :: "string \<Rightarrow> os_call list \<Rightarrow> (holder \<times> u32) list option" where
  "last_dacl path [] = None"
| "last_dacl path (c # cs) =
     (case last_dacl path cs of
        Some es \<Rightarrow> Some es
      | None \<Rightarrow> (case c of SetDacl p es \<Rightarrow> if p = path then Some es else None | _ \<Rightarrow> None))"

definition restarted :: "platform \<Rightarrow> listen_trace \<Rightarrow> platform" where
  "restarted P t = P\<lparr>pf_answer := \<lambda>cs. pf_answer P (lt_calls t @ cs)\<rparr>"

text \<open>
  The socket's file as the system has it: none, there with no descriptor of its own, or there with
  the entries set on it last; and what a list of calls makes of it, by how the system answered each.
\<close>

type_synonym socket_file = "(holder \<times> u32) list option option"

fun file_step :: "socket_file \<Rightarrow> os_call \<Rightarrow> os_error option \<Rightarrow> socket_file" where
  "file_step s (BindSocket p) a = (if p = LISTEN_PATH \<and> a = None then Some None else s)"
| "file_step s (RemoveFile p) a = (if p = LISTEN_PATH \<and> a = None then None else s)"
| "file_step s (SetDacl p es) a = (if p = LISTEN_PATH \<and> a = None \<and> s \<noteq> None then Some (Some es) else s)"
| "file_step s c a = s"

fun file_after :: "platform \<Rightarrow> socket_file \<Rightarrow> os_call list \<Rightarrow> os_call list \<Rightarrow> socket_file" where
  "file_after P s past [] = s"
| "file_after P s past (c # cs) = file_after P (file_step s c (pf_answer P past c)) (past @ [c]) cs"

fun needs_socket :: "os_call \<Rightarrow> bool" where
  "needs_socket (SetMode p m) \<longleftrightarrow> p = LISTEN_PATH"
| "needs_socket (SetDacl p es) \<longleftrightarrow> p = LISTEN_PATH"
| "needs_socket c \<longleftrightarrow> False"

text \<open>
  What the system documents, the file being as \<open>s\<close> says at first: \<open>bind\<close> succeeds just when nothing
  has the name, for a path that exists is an address in use; a removal finds nothing just when there
  is nothing, and succeeds for a user to whom the entries set last give everything; what is asked of
  a file that is there, and every other call, succeeds.
\<close>

definition socket_law :: "platform \<Rightarrow> socket_file \<Rightarrow> bytes \<Rightarrow> bool" where
  "socket_law P s me \<longleftrightarrow>
     (\<forall>cs. let k = file_after P s [] cs in
        (pf_answer P cs (BindSocket LISTEN_PATH) = None \<longleftrightarrow> k = None)
      \<and> (pf_answer P cs (RemoveFile LISTEN_PATH) = Some NotFound \<longleftrightarrow> k = None)
      \<and> (\<forall>es. k = Some (Some es) \<longrightarrow> (User me, pf_all P) \<in> set es \<longrightarrow> pf_answer P cs (RemoveFile LISTEN_PATH) = None)
      \<and> (\<forall>c. c \<noteq> BindSocket LISTEN_PATH \<longrightarrow> c \<noteq> RemoveFile LISTEN_PATH \<longrightarrow> (needs_socket c \<longrightarrow> k \<noteq> None) \<longrightarrow>
             pf_answer P cs c = None))"

text \<open>The system the start number \<open>n\<close> finds, each after the one before it, and the file it finds.\<close>

fun starts :: "nat \<Rightarrow> platform \<Rightarrow> platform" where
  "starts 0 P = P"
| "starts (Suc n) P = restarted (starts n P) (fst (listen (starts n P)))"

fun file_found :: "nat \<Rightarrow> platform \<Rightarrow> socket_file \<Rightarrow> socket_file" where
  "file_found 0 P s = s"
| "file_found (Suc n) P s = file_after (starts n P) (file_found n P s) [] (lt_calls (fst (listen (starts n P))))"

abbreviation first_calls :: "platform \<Rightarrow> os_call list" where
  "first_calls P \<equiv> [MakeDirs TIMED_RUN_DIR, SetMode TIMED_RUN_DIR DIRECTORY_MODE, SetDacl TIMED_RUN_DIR (protect_entries P)]"

abbreviation all_calls :: "platform \<Rightarrow> os_call list" where
  "all_calls P \<equiv> first_calls P @ [RemoveFile LISTEN_PATH, BindSocket LISTEN_PATH,
     SetMode LISTEN_PATH SOCKET_MODE, SetDacl LISTEN_PATH (protect_entries P), Nonblocking]"

lemma paths_differ [simp]: "TIMED_RUN_DIR \<noteq> LISTEN_PATH" "LISTEN_PATH \<noteq> TIMED_RUN_DIR"
  by (simp_all add: TIMED_RUN_DIR_def LISTEN_PATH_def)

lemma restarted_fields [simp]:
  "pf_identity (restarted P t) = pf_identity P" "pf_all (restarted P t) = pf_all P"
  "protect_entries (restarted P t) = protect_entries P" "pf_builds (restarted P t) = pf_builds P"
  "pf_answer (restarted P t) cs c = pf_answer P (lt_calls t @ cs) c"
  by (simp_all add: restarted_def protect_entries_def split: sum.split)

lemma starts_fields [simp]:
  "pf_identity (starts n P) = pf_identity P" "protect_entries (starts n P) = protect_entries P" "pf_builds (starts n P) = pf_builds P"
  by (induction n) simp_all

lemma own_entry: "pf_identity P = Inr me \<Longrightarrow> (User me, pf_all P) \<in> set (protect_entries P)"
  by (simp add: protect_entries_def)

lemma last_dacl_append: "last_dacl path (cs @ ds) = (case last_dacl path ds of Some es \<Rightarrow> Some es | None \<Rightarrow> last_dacl path cs)"
  by (induction cs) (auto split: option.splits)

lemma file_after_append:
  "file_after P s past (cs @ ds) = file_after P (file_after P s past cs) (past @ cs) ds"
  by (induction cs arbitrary: s past) simp_all

lemma file_after_restarted: "file_after (restarted P t) s past cs = file_after P s (lt_calls t @ past) cs"
  by (induction cs arbitrary: s past) simp_all

lemma law_restarted: "socket_law P s me \<Longrightarrow> socket_law (restarted P t) (file_after P s [] (lt_calls t)) me"
  by (simp add: socket_law_def Let_def file_after_restarted flip: file_after_append [where past = "[]", simplified])

lemma law_plain:
  "socket_law P s me \<Longrightarrow> c \<noteq> BindSocket LISTEN_PATH \<Longrightarrow> c \<noteq> RemoveFile LISTEN_PATH
    \<Longrightarrow> (needs_socket c \<Longrightarrow> file_after P s [] cs \<noteq> None) \<Longrightarrow> pf_answer P cs c = None"
  unfolding socket_law_def Let_def by blast

lemma law_bind: "socket_law P s me \<Longrightarrow> pf_answer P cs (BindSocket LISTEN_PATH) = None \<longleftrightarrow> file_after P s [] cs = None"
  unfolding socket_law_def Let_def by blast

lemma law_not_found: "socket_law P s me \<Longrightarrow> pf_answer P cs (RemoveFile LISTEN_PATH) = Some NotFound \<longleftrightarrow> file_after P s [] cs = None"
  unfolding socket_law_def Let_def by blast

lemma law_removed:
  "socket_law P s me \<Longrightarrow> file_after P s [] cs = Some (Some es) \<Longrightarrow> (User me, pf_all P) \<in> set es
    \<Longrightarrow> pf_answer P cs (RemoveFile LISTEN_PATH) = None"
  unfolding socket_law_def Let_def by blast

lemma file_unmoved: "file_after P s past (first_calls Q) = s"
  by simp

lemma first_answers:
  assumes "socket_law P s me"
  shows "pf_answer P [] (MakeDirs TIMED_RUN_DIR) = None"
    "pf_answer P [MakeDirs TIMED_RUN_DIR] (SetMode TIMED_RUN_DIR DIRECTORY_MODE) = None"
    "pf_answer P [MakeDirs TIMED_RUN_DIR, SetMode TIMED_RUN_DIR DIRECTORY_MODE] (SetDacl TIMED_RUN_DIR (protect_entries P)) = None"
  by (rule law_plain [OF assms]; simp)+

text \<open>What a start does, once it is known how the removal of the stale socket went.\<close>

lemma listen_given_removal:
  assumes "socket_law P s me" "pf_builds P (protect_entries P) = None"
    and a: "pf_answer P (first_calls P) (RemoveFile LISTEN_PATH) \<in> {None, Some NotFound}"
  shows "\<exists>ns. listen P = (\<lparr>lt_calls = all_calls P, lt_notes = ns\<rparr>, None)
      \<and> (RemovedStale \<in> set ns \<longleftrightarrow> pf_answer P (first_calls P) (RemoveFile LISTEN_PATH) = None)"
    and "file_after P s [] (all_calls P) = Some (Some (protect_entries P))"
proof -
  have gone: "file_after P s [] (first_calls P @ [RemoveFile LISTEN_PATH]) = None"
    using a law_not_found [OF assms(1), of "first_calls P"] by (auto simp: file_unmoved)
  have bound: "pf_answer P (first_calls P @ [RemoveFile LISTEN_PATH]) (BindSocket LISTEN_PATH) = None"
    using law_bind [OF assms(1)] gone by blast
  have made: "file_after P s [] (first_calls P @ [RemoveFile LISTEN_PATH, BindSocket LISTEN_PATH]) = Some None"
    using gone bound by simp
  have mode: "pf_answer P (first_calls P @ [RemoveFile LISTEN_PATH, BindSocket LISTEN_PATH]) (SetMode LISTEN_PATH SOCKET_MODE) = None"
    using made by (intro law_plain [OF assms(1)]) simp_all
  have made': "file_after P s [] (first_calls P @ [RemoveFile LISTEN_PATH, BindSocket LISTEN_PATH, SetMode LISTEN_PATH SOCKET_MODE]) = Some None"
    using made by simp
  have dacl: "pf_answer P (first_calls P @ [RemoveFile LISTEN_PATH, BindSocket LISTEN_PATH, SetMode LISTEN_PATH SOCKET_MODE])
      (SetDacl LISTEN_PATH (protect_entries P)) = None"
    using made' by (intro law_plain [OF assms(1)]) simp_all
  have nonblocking: "pf_answer P (first_calls P @ [RemoveFile LISTEN_PATH, BindSocket LISTEN_PATH, SetMode LISTEN_PATH SOCKET_MODE,
      SetDacl LISTEN_PATH (protect_entries P)]) Nonblocking = None"
    by (intro law_plain [OF assms(1)]) simp_all
  show "\<exists>ns. listen P = (\<lparr>lt_calls = all_calls P, lt_notes = ns\<rparr>, None)
      \<and> (RemovedStale \<in> set ns \<longleftrightarrow> pf_answer P (first_calls P) (RemoveFile LISTEN_PATH) = None)"
    using a first_answers [OF assms(1)] bound mode dacl nonblocking assms(2)
    by (cases "pf_identity P")
      (auto simp: listen_def and_then_def call_os_def protect_def remove_stale_def add_note_def Let_def)
  show "file_after P s [] (all_calls P) = Some (Some (protect_entries P))"
    using made dacl by simp
qed

lemma removal_answered:
  assumes "socket_law P s me" "pf_builds P (protect_entries P) = None" and "snd (listen P) = None"
  shows "pf_answer P (first_calls P) (RemoveFile LISTEN_PATH) \<in> {None, Some NotFound}"
proof (rule ccontr)
  assume "\<not> ?thesis"
  then obtain e where "pf_answer P (first_calls P) (RemoveFile LISTEN_PATH) = Some (OtherError e)"
    by (cases "pf_answer P (first_calls P) (RemoveFile LISTEN_PATH)") (auto intro: os_error.exhaust)
  then have "snd (listen P) = Some (OtherError e)"
    using first_answers [OF assms(1)] assms(2)
    by (cases "pf_identity P")
      (auto simp: listen_def and_then_def call_os_def protect_def remove_stale_def add_note_def Let_def)
  with assms(3) show False by simp
qed

text \<open>A start leaves its socket protected, so that the next finds one it may remove.\<close>

lemma one_start:
  assumes "socket_law P s me" "pf_identity P = Inr me" "pf_builds P (protect_entries P) = None"
    and "pf_answer P (first_calls P) (RemoveFile LISTEN_PATH) \<in> {None, Some NotFound}"
  defines "t \<equiv> fst (listen P)"
  shows "file_after P s [] (lt_calls t) = Some (Some (protect_entries P))"
    "socket_law (restarted P t) (file_after P s [] (lt_calls t)) me"
    "pf_answer (restarted P t) (first_calls P) (RemoveFile LISTEN_PATH) = None"
proof -
  have calls: "lt_calls t = all_calls P" using listen_given_removal(1) [OF assms(1,3,4)] by (auto simp: t_def)
  show left: "file_after P s [] (lt_calls t) = Some (Some (protect_entries P))"
    unfolding calls by (rule listen_given_removal(2) [OF assms(1,3,4)])
  show law: "socket_law (restarted P t) (file_after P s [] (lt_calls t)) me" by (rule law_restarted [OF assms(1)])
  have "file_after (restarted P t) (file_after P s [] (lt_calls t)) [] (first_calls P) = Some (Some (protect_entries P))"
    by (simp only: file_unmoved left)
  from law_removed [OF law this] own_entry [OF assms(2)]
  show "pf_answer (restarted P t) (first_calls P) (RemoveFile LISTEN_PATH) = None" by simp
qed

lemma every_start:
  assumes "socket_law P s me" "pf_identity P = Inr me" "pf_builds P (protect_entries P) = None" "snd (listen P) = None"
  shows "socket_law (starts n P) (file_found n P s) me
    \<and> pf_answer (starts n P) (first_calls P) (RemoveFile LISTEN_PATH) \<in> {None, Some NotFound}"
proof (induction n)
  case 0
  show ?case using removal_answered [OF assms(1,3,4)] assms(1) by simp
next
  case (Suc n)
  show ?case
    using one_start [OF conjunct1 [OF Suc], unfolded starts_fields] conjunct2 [OF Suc] assms(2,3) by simp
qed

section \<open>Properties\<close>

text \<open>
  C27: the daemon can start again as often as it is restarted. Once it has started, with its own
  identity known and a descriptor that can be built, every later start succeeds too: it finds the
  socket the start before it left behind, removes it and binds a new one. This holds though
  \<open>bind\<close> fails while the name exists, and though a user is sure to be let remove only a file whose
  descriptor gives it everything; the other calls are taken to succeed on what is there. Each start
  leaves the directory and the socket protected by the same entries, which let everyone connect.
\<close>
theorem daemon_can_start_again:
  assumes "socket_law P s me" "pf_identity P = Inr me" "pf_builds P (protect_entries P) = None"
    and "snd (listen P) = None"
  shows "snd (listen (starts n P)) = None
    \<and> file_found (Suc n) P s = Some (Some (protect_entries P))
    \<and> RemovedStale \<in> set (lt_notes (fst (listen (starts (Suc n) P))))
    \<and> last_dacl TIMED_RUN_DIR (lt_calls (fst (listen (starts n P)))) = Some (protect_entries P)
    \<and> (Known SidEveryone, pf_read P OR pf_write P OR pf_execute P) \<in> set (protect_entries P)"
proof -
  note now = every_start [OF assms, of n] and later = every_start [OF assms, of "Suc n"]
  have b: "pf_builds (starts m P) (protect_entries (starts m P)) = None" for m using assms(3) by simp
  note one = one_start [OF conjunct1 [OF now] _ b, unfolded starts_fields, OF assms(2) conjunct2 [OF now]]
  note l = listen_given_removal(1) [OF conjunct1 [OF now] b, unfolded starts_fields, OF conjunct2 [OF now]]
  have removed: "pf_answer (starts (Suc n) P) (first_calls P) (RemoveFile LISTEN_PATH) = None"
    using one(3) by simp
  note m = listen_given_removal(1) [OF conjunct1 [OF later] b, unfolded starts_fields, OF conjunct2 [OF later]]
  have "RemovedStale \<in> set (lt_notes (fst (listen (starts (Suc n) P))))" using m removed by auto
  moreover have "file_found (Suc n) P s = Some (Some (protect_entries P))" using one(1) by simp
  moreover have "snd (listen (starts n P)) = None"
    "last_dacl TIMED_RUN_DIR (lt_calls (fst (listen (starts n P)))) = Some (protect_entries P)"
    using l by auto
  moreover have "(Known SidEveryone, pf_read P OR pf_write P OR pf_execute P) \<in> set (protect_entries P)"
    by (simp add: protect_entries_def)
  ultimately show ?thesis by blast
qed

text \<open>
  A system that keeps to the law: it has the file if the last of the calls that make or remove one
  made it, and lets it be removed by the descriptor set last.
\<close>

fun plain_file :: "os_call list \<Rightarrow> socket_file" where
  "plain_file [] = None"
| "plain_file (c # older) = (let k = plain_file older in case c of
     BindSocket p \<Rightarrow> if p = LISTEN_PATH \<and> k = None then Some None else k
   | RemoveFile p \<Rightarrow> if p = LISTEN_PATH \<and> (case k of Some (Some es) \<Rightarrow> (User [7], 15) \<in> set es | _ \<Rightarrow> False) then None else k
   | SetDacl p es \<Rightarrow> if p = LISTEN_PATH \<and> k \<noteq> None then Some (Some es) else k
   | _ \<Rightarrow> k)"

definition plain_platform :: platform where
  "plain_platform = \<lparr>pf_identity = Inr [7], pf_all = 15, pf_read = 1, pf_write = 2, pf_execute = 4,
     pf_builds = \<lambda>es. None,
     pf_answer = \<lambda>cs c. let k = plain_file (rev cs) in
       if c = BindSocket LISTEN_PATH then (if k = None then None else Some (OtherError ''EADDRINUSE''))
       else if c = RemoveFile LISTEN_PATH then (case k of
           None \<Rightarrow> Some NotFound
         | Some None \<Rightarrow> Some (OtherError ''EACCES'')
         | Some (Some es) \<Rightarrow> if (User [7], 15) \<in> set es then None else Some (OtherError ''EACCES''))
       else if needs_socket c \<and> k = None then Some NotFound else None\<rparr>"

lemma plain_step: "file_step (plain_file (rev past)) c (pf_answer plain_platform past c) = plain_file (c # rev past)"
  by (cases c) (auto simp: plain_platform_def Let_def split: option.splits)

lemma plain_file_after: "file_after plain_platform (plain_file (rev past)) past cs = plain_file (rev (past @ cs))"
proof (induction cs arbitrary: past)
  case (Cons c cs)
  from Cons [of "past @ [c]"] show ?case by (simp only: file_after.simps plain_step) simp
qed simp

lemma plain_law: "socket_law plain_platform None [7]"
proof -
  have "file_after plain_platform None [] cs = plain_file (rev cs)" for cs
    using plain_file_after [of "[]"] by simp
  then show ?thesis
    by (auto simp: socket_law_def Let_def plain_platform_def split: option.splits)
qed

text \<open>The third start, the socket of the second in its way.\<close>

theorem daemon_can_start_again_witness:
  "snd (listen (starts 2 plain_platform)) = None
    \<and> RemovedStale \<in> set (lt_notes (fst (listen (starts (Suc 2) plain_platform))))
    \<and> file_found (Suc 2) plain_platform None = Some (Some (protect_entries plain_platform))"
proof -
  have fields: "pf_identity plain_platform = Inr [7]" "pf_builds plain_platform (protect_entries plain_platform) = None"
    by (simp_all add: plain_platform_def)
  have "pf_answer plain_platform (first_calls plain_platform) (RemoveFile LISTEN_PATH) = Some NotFound"
    using law_not_found [OF plain_law, of "first_calls plain_platform"] by (simp only: file_unmoved)
  from listen_given_removal(1) [OF plain_law fields(2)] this have start: "snd (listen plain_platform) = None" by auto
  show ?thesis using daemon_can_start_again [OF plain_law fields start, of 2] by blast
qed

section \<open>Smaller facts\<close>

text \<open>The slot of the watch is where its descriptor is, whatever other descriptors there are.\<close>

lemma watch_slot:
  "wait ready v4 v6 listener netd watch old = (case watch of None \<Rightarrow> old | Some w \<Rightarrow> ready w)"
  by (auto simp: wait_def wait_fds_def Let_def nth_append split: option.splits)

lemma wait_millis_positive: "1 \<le> wait_millis timeout"
  by (simp add: wait_millis_def)

lemma own_sid_once: "fst (own_sid later (snd (own_sid first cell))) = fst (own_sid first cell)"
  by (auto simp: own_sid_def Let_def split: option.splits)

end
