(* ===== verification/TrustRoots.thy ===== *)
theory TrustRoots
  imports Handshake
begin

text \<open>
  Whom the key establishment believes: the roots fetched from the trust store (\<open>timed/src/trust.rs\<close>),
  the configuration of TLS made from them, and the session opened with it (\<open>tls_config\<close> and the
  first half of \<open>handshake\<close> in \<open>nts_ke.rs\<close>). The trust store's protocol, the store of the TLS library
  and its sessions are parameters.
\<close>

section \<open>The roots\<close>

text \<open>
  The path of the trust store's socket, the connection to it, the messages it gives one after another
  and the error after them; its protocol: the decoder, whether an answer says that more follows, the roots of a whole
  answer; and the library's store: empty, what adding a certificate gives unless it declines it.
\<close>

record ('reply, 'root, 'store) trust_store =
  ts_path :: string
  ts_connect :: "string option"
  ts_timeout :: "string option"
  ts_ask :: "string option"
  ts_messages :: "(string + bytes) list"
  ts_end :: string
  ts_decode :: "bytes \<Rightarrow> string + 'reply"
  ts_more :: "'reply \<Rightarrow> bool"
  ts_roots_of :: "'reply list \<Rightarrow> string + 'root list"
  ts_empty :: 'store
  ts_add :: "'store \<Rightarrow> 'root \<Rightarrow> 'store option"
  ts_is_empty :: "'store \<Rightarrow> bool"

fun read_replies :: "('reply, 'root, 'store) trust_store \<Rightarrow> 'reply list \<Rightarrow> (string + bytes) list \<Rightarrow> string + 'reply list" where
  "read_replies T replies [] = Inl (''reading roots: '' @ ts_end T)"
| "read_replies T replies (m # ms) =
     (case m of
        Inl e \<Rightarrow> Inl (''reading roots: '' @ e)
      | Inr bytes \<Rightarrow> (case ts_decode T bytes of
          Inl e \<Rightarrow> Inl (''malformed roots reply: '' @ e)
        | Inr reply \<Rightarrow>
            if ts_more T reply then read_replies T (replies @ [reply]) ms else Inr (replies @ [reply])))"

text \<open>The store, and how many roots it declined, which is logged.\<close>

definition add_roots :: "('reply, 'root, 'store) trust_store \<Rightarrow> 'root list \<Rightarrow> 'store \<times> nat" where
  "add_roots T roots =
     foldl (\<lambda>(store, refused) root. case ts_add T store root of Some s \<Rightarrow> (s, refused) | None \<Rightarrow> (store, refused + 1))
       (ts_empty T, 0) roots"

definition refused_warning :: "('reply, 'root, 'store) trust_store \<Rightarrow> 'root list \<Rightarrow> string option" where
  "refused_warning T roots =
     (case add_roots T roots of (store, refused) \<Rightarrow>
        if 0 < refused
        then Some (show_nat refused @ '' of '' @ show_nat (length roots) @ '' roots from the trust store were not usable for TLS'')
        else None)"

definition fetch_roots :: "('reply, 'root, 'store) trust_store \<Rightarrow> string + 'store" where
  "fetch_roots T =
     (case ts_connect T of Some e \<Rightarrow> Inl (''cannot reach the trust store at '' @ ts_path T @ '': '' @ e)
      | None \<Rightarrow> (case ts_timeout T of Some e \<Rightarrow> Inl e
      | None \<Rightarrow> (case ts_ask T of Some e \<Rightarrow> Inl (''asking for roots: '' @ e)
      | None \<Rightarrow>
          rbind (read_replies T [] (ts_messages T)) (\<lambda>replies.
          rbind (ts_roots_of T replies) (\<lambda>roots.
            (case add_roots T roots of (store, refused) \<Rightarrow>
               if ts_is_empty T store then Inl ''the trust store yielded no usable roots'' else Inr store))))))"

section \<open>TLS\<close>

datatype tls_version = Tls12 | Tls13

record 'store tls_settings =
  tc_versions :: "tls_version list"
  tc_roots :: 'store
  tc_client_certificate :: bool
  tc_alpn :: "string list"

text \<open>The library may not have the version asked for: the first argument is its error.\<close>

definition tls_config :: "string option \<Rightarrow> 'store \<Rightarrow> string + 'store tls_settings" where
  "tls_config unavailable roots =
     (case unavailable of
        Some e \<Rightarrow> Inl (''TLS 1.3 is not available: '' @ e)
      | None \<Rightarrow> Inr \<lparr>tc_versions = [Tls13], tc_roots = roots, tc_client_certificate = False, tc_alpn = [ALPN]\<rparr>)"

text \<open>The job \<open>Roots\<close> of the worker.\<close>

definition roots_job :: "('reply, 'root, 'store) trust_store \<Rightarrow> string option \<Rightarrow> string + 'store tls_settings" where
  "roots_job T unavailable = rbind (fetch_roots T) (tls_config unavailable)"

definition HANDSHAKE_TIMEOUT :: nat where "HANDSHAKE_TIMEOUT = 20"

text \<open>
  What \<open>handshake\<close> calls before the first record is read: the check of the name, connecting within a
  time, the two time-outs, the connection, writing the request, flushing it.
\<close>

record ('store, 'conn) tls_library =
  tl_bad_name :: "string \<Rightarrow> string option"
  tl_connect :: "socket_addr \<Rightarrow> nat \<Rightarrow> string option"
  tl_read_timeout :: "nat \<Rightarrow> string option"
  tl_write_timeout :: "nat \<Rightarrow> string option"
  tl_new :: "'store tls_settings \<Rightarrow> string \<Rightarrow> string + 'conn"
  tl_write :: "'conn \<Rightarrow> bytes \<Rightarrow> string + 'conn"
  tl_flush :: "'conn \<Rightarrow> string + tls_session"
  tl_show :: "socket_addr \<Rightarrow> string"

definition or_fail :: "string option \<Rightarrow> (string \<Rightarrow> ke_failure) \<Rightarrow> ke_failure + 'a \<Rightarrow> ke_failure + 'a" where
  "or_fail error failure rest = (case error of Some e \<Rightarrow> Inl (failure e) | None \<Rightarrow> rest)"

definition open_session :: "('store, 'conn) tls_library \<Rightarrow> 'store tls_settings \<Rightarrow> string \<Rightarrow> socket_addr \<Rightarrow> ke_failure + tls_session" where
  "open_session L config name address =
     or_fail (tl_bad_name L name) (\<lambda>e. KeTls (name @ '' is not a valid server name: '' @ e))
     (or_fail (tl_connect L address HANDSHAKE_TIMEOUT) (\<lambda>e. KeConnect (''connecting to '' @ tl_show L address @ '': '' @ e))
     (or_fail (tl_read_timeout L HANDSHAKE_TIMEOUT) KeConnect
     (or_fail (tl_write_timeout L HANDSHAKE_TIMEOUT) KeConnect
     (rbind (map_err KeTls (tl_new L config name)) (\<lambda>conn.
      rbind (map_err KeTls (tl_write L conn client_request)) (\<lambda>conn.
      map_err KeTls (tl_flush L conn)))))))"

text \<open>The text of a failure.\<close>

fun ke_failure_text :: "(ke_error \<Rightarrow> string) \<Rightarrow> ke_failure \<Rightarrow> string" where
  "ke_failure_text show_error (KeConnect e) = e"
| "ke_failure_text show_error (KeTls e) = ''TLS: '' @ e"
| "ke_failure_text show_error (KeProtocol e) = show_error e"

section \<open>Whole answers only\<close>

lemma read_replies_ok:
  "read_replies T replies ms = Inr out \<Longrightarrow>
   \<exists>more final bs b ms'. out = replies @ more @ [final] \<and> ms = map Inr (bs @ [b]) @ ms'
     \<and> map (ts_decode T) (bs @ [b]) = map Inr (more @ [final]) \<and> list_all (ts_more T) more \<and> \<not> ts_more T final"
proof (induction T replies ms rule: read_replies.induct)
  case (2 T replies m ms)
  then obtain b reply where b: "m = Inr b" "ts_decode T b = Inr reply" by (auto split: sum.splits)
  show ?case
  proof (cases "ts_more T reply")
    case True
    then obtain more final bs b' ms' where "out = replies @ reply # more @ [final]" "ms = map Inr (bs @ [b']) @ ms'"
      "map (ts_decode T) (bs @ [b']) = map Inr (more @ [final])" "list_all (ts_more T) more" "\<not> ts_more T final"
      using 2 b by fastforce
    then show ?thesis using b True
      by (intro exI [of _ "reply # more"] exI [of _ final] exI [of _ "b # bs"] exI [of _ b'] exI [of _ ms']) simp
  next
    case False
    then show ?thesis using 2(2) b
      by (intro exI [of _ "[]"] exI [of _ reply] exI [of _ "[]"] exI [of _ b] exI [of _ ms]) simp
  qed
qed simp

lemma read_replies_cut:
  "\<forall>m\<in>set ms. \<forall>b reply. m = Inr b \<longrightarrow> ts_decode T b = Inr reply \<longrightarrow> ts_more T reply \<Longrightarrow> isl (read_replies T replies ms)"
  by (induction ms arbitrary: replies) (auto split: sum.split)

text \<open>One root the library declines costs no other.\<close>

lemma add_roots_usable:
  assumes "\<And>s r. ts_add T s r = (if usable r then Some (put s r) else None)"
  shows "fst (add_roots T roots) = foldl put (ts_empty T) (filter usable roots)"
proof -
  have "fst (foldl (\<lambda>(store, refused) root. case ts_add T store root of Some s \<Rightarrow> (s, refused) | None \<Rightarrow> (store, refused + 1)) (s, n) roots)
      = foldl put s (filter usable roots)" for s and n :: nat
    by (induction roots arbitrary: s n) (simp_all add: assms)
  then show ?thesis by (simp add: add_roots_def)
qed

section \<open>Properties\<close>

lemma fetch_roots_ok:
  assumes "fetch_roots T = Inr store"
  shows "\<exists>replies roots. read_replies T [] (ts_messages T) = Inr replies \<and> ts_roots_of T replies = Inr roots
    \<and> store = fst (add_roots T roots) \<and> \<not> ts_is_empty T store"
  using assms by (auto simp: fetch_roots_def rbind_Inr_iff case_prod_beta' split: option.splits if_splits)

lemma open_session_ok:
  assumes "open_session L config name address = Inr session"
  shows "\<exists>conn conn'. tl_new L config name = Inr conn \<and> tl_write L conn client_request = Inr conn'
    \<and> tl_flush L conn' = Inr session"
  using assms by (auto simp: open_session_def or_fail_def rbind_Inr_iff split: option.splits)

text \<open>
  C16: keys rest on the machine's trust store and on nothing less than all of it: a handshake that gives
  the loop keys went over a connection made for the canonical name, with TLS 1.3 and \<open>ntske/1\<close> only, whose
  store of roots is not empty and holds what the library took of an answer that the trust store said
  was complete; an answer cut off before its end configures nothing.
\<close>
theorem keys_rest_on_trust_store:
  assumes "roots_job T unavailable = Inr config" "\<And>name a. we_open W name a = open_session L config name a"
    and "worker_handshake W canonical addresses = Inr (keys, ng, targets)"
  shows "\<exists>conn conn' session more final bs b rest roots.
      tl_new L config canonical = Inr conn \<and> tl_write L conn client_request = Inr conn' \<and> tl_flush L conn' = Inr session
    \<and> tls_alpn session = Some ALPN \<and> tls_export session EXPORTER_LABEL (exporter_context True) = Inr (c2s keys)
    \<and> tc_versions config = [Tls13] \<and> tc_alpn config = [ALPN] \<and> \<not> tc_client_certificate config
    \<and> tc_roots config = fst (add_roots T roots) \<and> \<not> ts_is_empty T (tc_roots config)
    \<and> ts_roots_of T (more @ [final]) = Inr roots \<and> list_all (ts_more T) more \<and> \<not> ts_more T final
    \<and> ts_messages T = map Inr (bs @ [b]) @ rest \<and> map (ts_decode T) (bs @ [b]) = map Inr (more @ [final])"
proof -
  obtain a where a: "try_address W canonical addresses a = Inr (keys, ng, targets)"
    using try_addresses_ok assms(3) by (force simp: worker_handshake_def)
  obtain session where s: "open_session L config canonical a = Inr session" "ke_exchange (we_debug W) session = Inr (keys, ng)"
    using try_address_ok(1) [OF a] assms(2) by auto
  obtain store where store: "fetch_roots T = Inr store" "tls_config unavailable store = Inr config"
    using assms(1) by (auto simp: roots_job_def rbind_Inr_iff)
  then have config: "config = \<lparr>tc_versions = [Tls13], tc_roots = store, tc_client_certificate = False, tc_alpn = [ALPN]\<rparr>"
    by (auto simp: tls_config_def split: option.splits)
  obtain replies roots where r: "read_replies T [] (ts_messages T) = Inr replies" "ts_roots_of T replies = Inr roots"
    "store = fst (add_roots T roots)" "\<not> ts_is_empty T store" using fetch_roots_ok [OF store(1)] by blast
  from read_replies_ok [OF r(1)] r(2) obtain more final bs b rest where
    "ts_roots_of T (more @ [final]) = Inr roots" "list_all (ts_more T) more" "\<not> ts_more T final"
    "ts_messages T = map Inr (bs @ [b]) @ rest" "map (ts_decode T) (bs @ [b]) = map Inr (more @ [final])" by auto
  then show ?thesis
    using open_session_ok [OF s(1)] ke_exchange_ok(1,3) [OF s(2)] r(3,4)
    unfolding config tls_settings.simps by blast
qed

text \<open>A trust store that answers in two pieces, one root of three declined, and the worker over it.\<close>

definition demo_trust :: "(bool, nat, nat list) trust_store" where
  "demo_trust = \<lparr>ts_path = ''/run/trustd'', ts_connect = None, ts_timeout = None, ts_ask = None, ts_messages = [Inr [1], Inr [0]], ts_end = ''timed out'',
     ts_decode = (\<lambda>b. Inr (b = [1])), ts_more = id, ts_roots_of = (\<lambda>rs. Inr [3, 4, 5]),
     ts_empty = [], ts_add = (\<lambda>s r. if even r then None else Some (s @ [r])), ts_is_empty = (\<lambda>s. s = [])\<rparr>"

definition demo_tls :: "nat list tls_settings" where
  "demo_tls = \<lparr>tc_versions = [Tls13], tc_roots = [3, 5], tc_client_certificate = False, tc_alpn = [ALPN]\<rparr>"

definition demo_library :: "(nat list, unit) tls_library" where
  "demo_library = \<lparr>tl_bad_name = (\<lambda>n. None), tl_connect = (\<lambda>a t. None), tl_read_timeout = (\<lambda>t. None),
     tl_write_timeout = (\<lambda>t. None), tl_new = (\<lambda>c n. Inr ()), tl_write = (\<lambda>c b. Inr ()),
     tl_flush = (\<lambda>c. case we_open demo_worker [] (SocketAddr (V4 []) 0) of Inl e \<Rightarrow> Inl [] | Inr s \<Rightarrow> Inr s), tl_show = (\<lambda>a. [])\<rparr>"

theorem keys_rest_on_trust_store_witness:
  "roots_job demo_trust None = Inr demo_tls
    \<and> (\<exists>roots. tc_roots demo_tls = fst (add_roots demo_trust roots) \<and> \<not> ts_is_empty demo_trust (tc_roots demo_tls))"
proof -
  have job: "roots_job demo_trust None = Inr demo_tls"
    by (simp add: roots_job_def fetch_roots_def demo_trust_def demo_tls_def add_roots_def tls_config_def)
  have same: "we_open demo_worker name a = open_session demo_library demo_tls name a" for name a
    by (simp add: demo_worker_def demo_library_def open_session_def or_fail_def)
  show ?thesis using keys_rest_on_trust_store [OF job same demo_handshake] job by blast
qed

end
