(* ===== verification/Precision.thy ===== *)
theory Precision
  imports SysClock
begin

text \<open>
  How finely the clock can be read (\<open>Clock::precision\<close> in \<open>timed/src/clock.rs\<close>): the smallest step the
  monotonic clock is seen to make, as a power of two. The clock is a parameter, a state and what reading
  it gives; so is the logarithm, whose last digit the library leaves open.
\<close>

section \<open>Definitions\<close>

type_synonym 'c monotonic = "'c \<Rightarrow> f64 \<times> 'c"

definition SPINS :: nat where "SPINS = 100000"

text \<open>The inner loop: read until the reading changes, \<open>n\<close> times at most.\<close>

fun spin :: "'c monotonic \<Rightarrow> f64 \<Rightarrow> nat \<Rightarrow> f64 \<Rightarrow> 'c \<Rightarrow> f64 \<times> 'c" where
  "spin read a 0 b c = (b, c)"
| "spin read a (Suc n) b c = (if feq b a then (case read c of (b, c) \<Rightarrow> spin read a n b c) else (b, c))"

definition one_step :: "'c monotonic \<Rightarrow> f64 \<Rightarrow> 'c \<Rightarrow> f64 \<times> 'c" where
  "one_step read smallest c =
     (case read c of (a, c) \<Rightarrow>
      case read c of (b, c) \<Rightarrow>
      case spin read a SPINS b c of (b, c) \<Rightarrow>
        (if flt a b then fmin smallest (fsub b a) else smallest, c))"

fun smallest_step :: "'c monotonic \<Rightarrow> nat \<Rightarrow> f64 \<Rightarrow> 'c \<Rightarrow> f64 \<times> 'c" where
  "smallest_step read 0 smallest c = (smallest, c)"
| "smallest_step read (Suc n) smallest c =
     (case one_step read smallest c of (smallest, c) \<Rightarrow> smallest_step read n smallest c)"

text \<open>\<open>x.ceil() as i64\<close>.\<close>

fun ceil_as_i64 :: "f64 \<Rightarrow> int" where
  "ceil_as_i64 NaN = 0"
| "ceil_as_i64 (Inf negative) = (if negative then i64_min else i64_max)"
| "ceil_as_i64 (Fin negative m) = max i64_min (min i64_max \<lceil>val (Fin negative m)\<rceil>)"

definition precision_of :: "(f64 \<Rightarrow> f64) \<Rightarrow> f64 \<Rightarrow> int" where
  "precision_of log2 smallest =
     (if \<not> is_finite smallest \<or> fle smallest fzero then - 20
      else max (- 32) (min 0 (ceil_as_i64 (log2 smallest))))"

definition precision :: "(f64 \<Rightarrow> f64) \<Rightarrow> 'c monotonic \<Rightarrow> 'c \<Rightarrow> int \<times> 'c" where
  "precision log2 read c =
     (case smallest_step read 10 (Inf False) c of (smallest, c) \<Rightarrow> (precision_of log2 smallest, c))"

section \<open>Properties\<close>

text \<open>A clock that counts how often it was read.\<close>

definition counted :: "'c monotonic \<Rightarrow> (nat \<times> 'c) monotonic" where
  "counted read s = (case s of (n, c) \<Rightarrow> (case read c of (x, c') \<Rightarrow> (x, Suc n, c')))"

lemma spin_reads: "fst (snd (spin (counted read) a n b s)) \<le> fst s + n"
  by (induction n arbitrary: b s) (auto simp: counted_def split: prod.splits, metis add_Suc fst_conv)

lemma one_step_reads: "fst (snd (one_step (counted read) m s)) \<le> fst s + (SPINS + 2)"
proof -
  obtain n c where s: "s = (n, c)" by fastforce
  obtain a c1 b c2 where r: "read c = (a, c1)" "read c1 = (b, c2)" by fastforce
  have "fst (snd (spin (counted read) a SPINS b (Suc (Suc n), c2))) \<le> Suc (Suc n) + SPINS"
    using spin_reads [of read a SPINS b "(Suc (Suc n), c2)"] by simp
  moreover have "counted read s = (a, Suc n, c1)" "counted read (Suc n, c1) = (b, Suc (Suc n), c2)"
    by (simp_all add: counted_def s r)
  ultimately show ?thesis by (auto simp: one_step_def s split: prod.splits)
qed

lemma smallest_step_reads: "fst (snd (smallest_step (counted read) k m s)) \<le> fst s + k * (SPINS + 2)"
proof (induction k arbitrary: m s)
  case (Suc k)
  obtain m' s' where step: "one_step (counted read) m s = (m', s')" by (cases "one_step (counted read) m s")
  then have "fst s' \<le> fst s + (SPINS + 2)" using one_step_reads [of read m s] by simp
  then show ?case using Suc.IH [of m' s'] step by simp
qed simp

text \<open>A clock that does not move, or is never seen to, is claimed to be good to a microsecond.\<close>

lemma spin_still: "(\<And>c. fst (read c) = a) \<Longrightarrow> fst (spin read a n a c) = a"
  by (induction n arbitrary: c) (auto split: prod.splits, metis fst_conv)

lemma smallest_still:
  assumes "\<And>c. fst (read c) = a" "\<not> is_nan a"
  shows "fst (smallest_step read k (Inf False) c) = Inf False"
proof (induction k arbitrary: c)
  case (Suc k)
  have "fst (one_step read (Inf False) c) = Inf False"
    using assms spin_still [of read a SPINS]
    by (auto simp: one_step_def flt_def split: prod.splits) (metis fst_conv order_less_irrefl)
  then show ?case using Suc by (auto split: prod.split)
qed simp

text \<open>
  Whatever the monotonic clock does, one that never moves included, measuring its precision ends
  after at most 1000020 readings with an exponent from minus 32 to 0, as the packets can carry; and a
  clock that is stuck is never claimed to be precise.
\<close>
theorem precision_is_measured:
  assumes "precision log2 (counted read) (0, c) = (p, n, c')"
  shows "n \<le> 1000020 \<and> - 32 \<le> p \<and> p \<le> 0 \<and> ((\<forall>c. fst (read c) = a) \<longrightarrow> \<not> is_nan a \<longrightarrow> p = - 20)"
proof -
  obtain m where m: "smallest_step (counted read) 10 (Inf False) (0, c) = (m, n, c')" "p = precision_of log2 m"
    using assms by (auto simp: precision_def split: prod.splits)
  have "n \<le> 10 * (SPINS + 2)"
    using smallest_step_reads [of read 10 "Inf False" "(0, c)"] unfolding m(1) by simp
  moreover have "m = Inf False" if "\<forall>c. fst (read c) = a" "\<not> is_nan a"
    using smallest_still [of "counted read" a 10 "(0, c)"] that unfolding m(1)
    by (simp add: counted_def case_prod_beta')
  ultimately show ?thesis by (auto simp: m(2) SPINS_def precision_of_def)
qed

theorem precision_is_measured_witness:
  "\<exists>n c'. precision id (counted (\<lambda>c. (fzero, c))) (0, ()) = (- 20, n, c') \<and> n \<le> 1000020"
proof -
  obtain p n c' where p: "precision id (counted (\<lambda>c. (fzero, c))) (0, ()) = (p, n, c')" by (metis prod_cases3)
  from precision_is_measured [OF p, of fzero] p show ?thesis by simp
qed

end
