(* ===== verification/Texts.thy ===== *)
theory Texts
  imports PollSource Discipline Protocol CommandText
begin

text \<open>
  What a person reads in a note or in the log: the \<open>Display\<close> of errors, refusals, reference ids,
  durations and adjustments (\<open>ntp/src/lib.rs\<close>, \<open>nts.rs\<close>, \<open>packet.rs\<close>, \<open>timestamp.rs\<close>, \<open>timed/src/source.rs\<close>,
  \<open>discipline.rs\<close>, \<open>libtimed/src/lib.rs\<close>). What the standard library derives (\<open>Debug\<close>) and what other
  libraries say of their errors are arguments.
\<close>

section \<open>Definitions\<close>

fun wire_error_text :: "wire_error \<Rightarrow> string" where
  "wire_error_text (Truncated need have_bytes) =
     ''truncated: needs '' @ show_nat need @ '' bytes, has '' @ show_nat have_bytes"
| "wire_error_text (BadLength n) = ''illegal length '' @ show_nat (unat n)"
| "wire_error_text (Unsupported what) = ''unsupported '' @ what"
| "wire_error_text NotAuthentic = ''authenticator did not verify''"
| "wire_error_text (NotOurs what) = ''not ours: '' @ what"

definition server_error_meaning :: "u16 \<Rightarrow> string" where
  "server_error_meaning code =
     (if code = 0 then '' (unrecognised critical record)'' else if code = 1 then '' (bad request)''
      else if code = 2 then '' (internal server error)'' else [])"

fun ke_error_text :: "ke_error \<Rightarrow> string" where
  "ke_error_text (Nts.ServerError code) = ''NTS-KE server error '' @ show_nat (unat code) @ server_error_meaning code"
| "ke_error_text (UnknownCritical t) = ''unknown critical record type '' @ show_nat (unat t)"
| "ke_error_text (NoAgreement what) = ''no agreement on '' @ what"
| "ke_error_text NoCookies = ''server sent no cookies''"
| "ke_error_text (Wire e) = wire_error_text e"

definition dotted :: "bytes \<Rightarrow> string" where
  "dotted r = show_nat (unat (r ! 0)) @ ''.'' @ show_nat (unat (r ! 1)) @ ''.''
     @ show_nat (unat (r ! 2)) @ ''.'' @ show_nat (unat (r ! 3))"

definition reference_id_text :: "reference_id \<Rightarrow> string" where
  "reference_id_text r = (case kiss_code r of Some code \<Rightarrow> string_of_bytes code | None \<Rightarrow> dotted r)"

fun rejected_text :: "(sample_error \<Rightarrow> string) \<Rightarrow> rejected \<Rightarrow> string" where
  "rejected_text debug (Malformed why) = ''malformed: '' @ wire_error_text why"
| "rejected_text debug NotAReply = ''not a server-mode NTPv4 reply''"
| "rejected_text debug WrongOrigin = ''origin timestamp does not echo our request''"
| "rejected_text debug WrongIdentifier = ''NTS unique identifier does not match''"
| "rejected_text debug BadTag = ''not authentic''"
| "rejected_text debug ServerUnsynchronised = ''the server is not synchronised''"
| "rejected_text debug (Kiss code) = ''kiss of death: '' @ reference_id_text code"
| "rejected_text debug (PollSource.Unusable e) = ''unusable measurement: '' @ debug e"

text \<open>The errors of the control protocol; a short read is an error of the stream.\<close>

fun protocol_error_text :: "string \<Rightarrow> string \<Rightarrow> (string \<Rightarrow> string) \<Rightarrow> protocol_error \<Rightarrow> string" where
  "protocol_error_text encoding io debug Encoding = ''malformed message: '' @ encoding"
| "protocol_error_text encoding io debug (Missing k) = ''missing field '' @ k"
| "protocol_error_text encoding io debug (Invalid why) = ''invalid field: '' @ why"
| "protocol_error_text encoding io debug (DuplicateField k) = ''duplicate field '' @ k"
| "protocol_error_text encoding io debug (UnknownQuery q) = ''unknown query '' @ debug q"
| "protocol_error_text encoding io debug (TooLarge n) = ''message of '' @ show_nat n @ '' bytes exceeds the ceiling''"
| "protocol_error_text encoding io debug ShortRead = io"

definition duration_text :: "ntp_duration \<Rightarrow> string" where
  "duration_text d = show_signed 9 (as_seconds_f64 d) @ ''s''"

definition ppm_text :: "f64 \<Rightarrow> string" where
  "ppm_text rate = show_signed 3 (fmul rate (lit 1000000)) @ '' ppm''"

fun adjustment_text :: "adjustment \<Rightarrow> string" where
  "adjustment_text (Rate r) = ''rate '' @ ppm_text r"
| "adjustment_text (Step seconds rate) = ''step '' @ show_signed 6 seconds @ ''s then rate '' @ ppm_text rate"
| "adjustment_text Hold = ''hold''"
| "adjustment_text (Panic seconds) = ''panic at '' @ show_signed 3 seconds @ ''s''"

section \<open>Reference ids are told apart\<close>

lemma show_nat_inj: "show_nat m = show_nat n \<longleftrightarrow> m = n"
  by (metis show_nat_digits)

lemma digits_no_dot: "CHR ''.'' \<notin> set (show_nat n)"
proof
  assume "CHR ''.'' \<in> set (show_nat n)"
  then have "is_ascii_digit (CHR ''.'')" using show_nat_digits [of n] by (simp add: list_all_iff)
  then show False by (simp add: is_ascii_digit_def char_code_def)
qed

lemma split_dotted:
  "split_on (CHR ''.'') (dotted r) = map (\<lambda>i. show_nat (unat (r ! i))) [0, 1, 2, 3]"
  by (simp add: dotted_def split_on_append split_on_one digits_no_dot)

lemma dotted_inj:
  assumes "length r = 4" "length q = 4" "dotted r = dotted q"
  shows "r = q"
proof -
  have "map (\<lambda>i. show_nat (unat (r ! i))) [0, 1, 2, 3] = map (\<lambda>i. show_nat (unat (q ! i))) [0, 1, 2, 3]"
    using split_dotted [of r] split_dotted [of q] assms(3) by simp
  then have "r ! 0 = q ! 0" "r ! 1 = q ! 1" "r ! 2 = q ! 2" "r ! 3 = q ! 3"
    by (simp_all add: show_nat_inj word_unat_eq_iff)
  then show ?thesis using assms(1,2)
    by (intro nth_equalityI) (auto simp: less_Suc_eq numeral_eq_Suc)
qed

text \<open>A kiss code starts with a letter, an address with a digit.\<close>

lemma dotted_head: "is_ascii_digit (hd (dotted r))"
  using show_nat_digits [of "unat (r ! 0)"]
  by (cases "show_nat (unat (r ! 0))") (auto simp: dotted_def)

lemma code_head:
  assumes "kiss_code r = Some code" "length r = 4"
  shows "code = r" "\<not> is_ascii_digit (hd (string_of_bytes code))"
proof -
  show c: "code = r" using assms(1) by (auto simp: kiss_code_def split: if_splits)
  obtain b bs where r: "r = b # bs" using assms(2) by (cases r) auto
  have "65 \<le> b" using assms(1) by (auto simp: kiss_code_def r is_ascii_uppercase_def split: if_splits)
  then have "65 \<le> unat b" by (simp add: word_le_nat_alt)
  then show "\<not> is_ascii_digit (hd (string_of_bytes code))"
    by (simp add: c r string_of_bytes_def is_ascii_digit_def char_code_def of_char_of)
qed

lemma bytes_of_string_of_bytes: "bytes_of_string (string_of_bytes bs) = bs"
proof -
  have "of_nat (of_char (char_of (unat b) :: char)) = b" for b :: u8
    using unsigned_less [where ?'a = nat, of b] by simp
  then show ?thesis by (simp add: bytes_of_string_def string_of_bytes_def comp_def)
qed

section \<open>Property\<close>

text \<open>
  Two reference ids that read the same are the same: four capital letters are a code, anything else
  is written as an address, and no code reads like an address or two addresses alike.
\<close>
theorem reference_ids_read_apart:
  assumes "length r = 4" "length q = 4" "reference_id_text r = reference_id_text q"
  shows "r = q"
proof (cases "kiss_code r")
  case None
  then show ?thesis
    using assms dotted_inj [OF assms(1,2)] dotted_head [of r] code_head [of q]
    by (cases "kiss_code q") (auto simp: reference_id_text_def)
next
  case (Some code)
  note r = code_head [OF Some assms(1)]
  show ?thesis
  proof (cases "kiss_code q")
    case None
    then show ?thesis using Some r assms(3) dotted_head [of q] by (simp add: reference_id_text_def)
  next
    case (Some code')
    have "string_of_bytes r = string_of_bytes q"
      using assms(3) \<open>kiss_code r = Some code\<close> Some r(1) code_head(1) [OF Some assms(2)]
      by (simp add: reference_id_text_def)
    then show ?thesis by (metis bytes_of_string_of_bytes)
  qed
qed

theorem reference_ids_read_apart_witness: "RATE = [82, 65, 84, 69]"
  by (rule reference_ids_read_apart) (simp_all add: RATE_def)

end
