(* ===== verification/Health.thy ===== *)
theory Health
  imports Behaviour Ranges
begin

text \<open>
  The figures of a running daemon: every number it holds about its sources, its loop and itself stays in
  range, through every operation in any order, so it never reports a NaN or an infinity. The ranges are those of \<open>Ranges\<close>; the operations those of \<open>Lifecycle\<close>.
\<close>

section \<open>A source\<close>

definition source_fits :: "source \<Rightarrow> bool" where
  "source_fits s \<longleftrightarrow> register_fits (src_filter s) \<and> fnonneg (src_root_delay s)
     \<and> fnonneg (src_root_dispersion s) \<and> f64_ok (src_root_dispersion s)"

lemma short_nonneg: "fnonneg (short_as_seconds_f64 x)"
proof -
  have "fle (f_of_int 0) (f_of_int (uint x))" by (rule f_of_int_mono) simp
  moreover have "f_of_int 0 = fzero" by (simp add: f_of_int_def fround_def)
  moreover have "f_of_int 65536 = Fin False 65536"
    using positive_form [of "f_of_int 65536"] f_of_int_exact [of 65536] by simp
  ultimately show ?thesis unfolding short_as_seconds_f64_def by (simp add: fnonneg_def [symmetric] fdiv_nonneg)
qed

lemma reduce_fits: "reduce ex lp sp max_delay now = Inr smp \<Longrightarrow> sample_fits smp"
proof -
  assume r: "reduce ex lp sp max_delay now = Inr smp"
  have "is_finite (s_offset smp) \<and> \<bar>val (s_offset smp)\<bar> \<le> 2 powi 30 \<and> f64_ok (s_offset smp)"
    unfolding reduce_ok(5) [OF r] using halve_small by simp
  moreover have "(2::rat) powi 30 \<le> 2 ^ 128" by simp
  moreover have "fnonneg (s_delay smp)" "fnonneg (s_dispersion smp)"
    using reduce_sample_ok [OF r] min_dispersion_val(3) fnonneg_of_le by (auto simp: sample_ok_def)
  ultimately show ?thesis by (auto simp: sample_fits_def small_def)
qed

lemma measurement_figures:
  assumes "take_measurement p packet dest tick s = (s', r)"
  shows "(src_root_delay s', src_root_dispersion s') = (src_root_delay s, src_root_dispersion s)
    \<or> (src_root_delay s', src_root_dispersion s')
      = (short_as_seconds_f64 (pk_root_delay packet), short_as_seconds_f64 (pk_root_dispersion packet))"
    and "r = Inr smp \<Longrightarrow> sample_fits smp"
  using assms reduce_fits by (auto simp: take_measurement_def record_reply_def Let_def split: if_splits sum.splits)

lemma accept_fits:
  assumes "source_accept A bs dest tick s = (s', r)" "source_fits s"
  shows "source_fits s'" "r = Inr smp \<Longrightarrow> sample_fits smp"
proof -
  have "source_fits s' \<and> (r = Inr smp \<longrightarrow> sample_fits smp)"
    using assms(1)
  proof (cases rule: accept_cases)
    case refused
    then show ?thesis using assms(2) by auto
  next
    case (answered p packet s1)
    obtain sec where s1: "s1 = s\<lparr>src_security := sec\<rparr>" using check_nts_ok(2) [OF answered(3)] by blast
    have "src_filter s' = src_filter s" using measurement_fields [OF answered(4)] by (simp add: s1)
    then show ?thesis
      using measurement_figures(1) [OF answered(4)] measurement_figures(2) [OF answered(4), of smp] assms(2)
      by (auto simp: source_fits_def s1 short_nonneg) (auto simp: short_as_seconds_f64_def)
  qed
  then show "source_fits s'" "r = Inr smp \<Longrightarrow> sample_fits smp" by blast+
qed

lemma prepare_figures:
  "prepare A dr w tick s = (s', r) \<Longrightarrow> src_filter s' = src_filter s
    \<and> src_root_delay s' = src_root_delay s \<and> src_root_dispersion s' = src_root_dispersion s"
  by (auto simp: prepare_def Let_def split: option.splits security.splits if_splits sum.splits)

interpretation fit: source_law source_fits
proof unfold_locales
  show "source_accept A bs dest t s = (s', Inr smp) \<Longrightarrow> source_fits s \<Longrightarrow>
      source_fits (s'\<lparr>src_filter := fst (filter_insert (src_filter s') smp u)\<rparr>)" for A bs dest t s s' smp u
    using accept_fits(1) [of A bs dest t s s' "Inr smp"] accept_fits(2) [of A bs dest t s s' "Inr smp" smp]
    by (simp add: source_fits_def register_fits_insert)
qed (auto simp: accept_fits(1), auto simp: source_fits_def source_ops source_new_def Let_def register_fits_new
    fnonneg_cases [of fzero] dest: prepare_figures)

section \<open>The daemon's own figures\<close>

definition in_range :: "'k timed \<Rightarrow> bool" where
  "in_range tm \<longleftrightarrow> servo_fits (tm_discipline tm) \<and> small 129 (tm_offset tm) \<and> small 150 (tm_jitter tm)
     \<and> small 3 (tm_root_delay tm) \<and> small 151 (tm_root_dispersion tm)"

lemma in_range_keeps: "keeps P tm tm' \<Longrightarrow> in_range tm \<Longrightarrow> in_range tm'"
  by (simp add: keeps_def quiet_def in_range_def)

lemma candidates_fit:
  assumes "all_sources source_fits tm"
  shows "\<forall>c\<in>set (candidates w tm). candidate_fits w c" "length (candidates w tm) \<le> length (tm_entries tm)"
    "c \<in> set (candidates w tm) \<Longrightarrow> c_id c < length (tm_entries tm)
      \<and> candidate_of w (c_id c, tm_entries tm ! c_id c) = Some c"
proof -
  have made: "\<exists>i. i < length (tm_entries tm) \<and> c_id c = i \<and> candidate_of w (i, tm_entries tm ! i) = Some c"
    if c: "c \<in> set (candidates w tm)" for c
  proof -
    obtain i e where "(i, e) \<in> set (enumerate 0 (tm_entries tm))" "candidate_of w (i, e) = Some c"
      using c unfolding candidates_def by (auto simp: in_map_filter)
    then show ?thesis by (auto simp: in_set_enumerate_eq candidate_of_def Let_def)
  qed
  then show "c \<in> set (candidates w tm) \<Longrightarrow> c_id c < length (tm_entries tm)
      \<and> candidate_of w (c_id c, tm_entries tm ! c_id c) = Some c" by blast
  show "\<forall>c\<in>set (candidates w tm). candidate_fits w c"
  proof
    fix c assume "c \<in> set (candidates w tm)"
    then obtain i where i: "i < length (tm_entries tm)" "candidate_of w (i, tm_entries tm ! i) = Some c" using made by blast
    then have "source_fits (en_source (tm_entries tm ! i))" using assms by (simp add: list_all_length)
    then show "candidate_fits w c"
      using i(2) by (auto simp: candidate_of_def Let_def candidate_fits_def source_fits_def source_filtered_def)
  qed
  show "length (candidates w tm) \<le> length (tm_entries tm)"
    using length_filter_le [of _ "enumerate 0 (tm_entries tm)"] by (simp add: candidates_def List.map_filter_def)
qed

text \<open>What following the selected peer gives.\<close>

lemma selected_state_in_range:
  assumes "all_sources source_fits tm" "length (tm_entries tm) \<le> 2 ^ 40" "servo_fits (tm_discipline tm)"
    and "select_sources (candidates w tm) w = Inr sel"
  shows "in_range (selected_state K w sel tm)" "small 129 (sel_offset sel)"
proof -
  note fits = candidates_fit(1) [OF assms(1), of w]
  have len: "length (candidates w tm) \<le> 2 ^ 40"
    using candidates_fit(2) [OF assms(1), of w] assms(2) by simp
  note r = selection_ranges [OF fits len assms(4)]
  then obtain c where c: "c \<in> set (candidates w tm)" "c_id c = sel_system_peer sel" "candidate_fits w c" "is_fit c w"
    by blast
  let ?e = "tm_entries tm ! sel_system_peer sel"
  have i: "sel_system_peer sel < length (tm_entries tm)" "candidate_of w (sel_system_peer sel, ?e) = Some c"
    using candidates_fit(3) [OF assms(1) c(1)] by (simp_all add: c(2))
  let ?tm = "tm\<lparr>tm_entries := mark_states sel (candidates w tm) (map fall_back_state (tm_entries tm))\<rparr>"
  have "en_source (tm_entries ?tm ! sel_system_peer sel) = map en_source (tm_entries ?tm) ! sel_system_peer sel"
    using i(1) by (subst nth_map) (simp_all add: mark_states_sources)
  then have s: "en_source (tm_entries ?tm ! sel_system_peer sel) = en_source ?e"
    using i(1) by (simp add: mark_states_sources)
  note f = fit_candidate [OF c(3,4)]
  have "small (Suc 1) (fadd (c_root_dispersion c) (f_dispersion (c_filtered c)))" using f(2,3) by (intro small_add) simp_all
  then have "small 150 (fadd (c_root_dispersion c) (f_dispersion (c_filtered c)))" by (rule small_mono) simp
  then have "small (Suc 150) (fadd (fadd (c_root_dispersion c) (f_dispersion (c_filtered c))) (sel_jitter sel))"
    using r(2) by (intro small_add) simp_all
  then have disp: "small 151 (fadd (fadd (c_root_dispersion c) (f_dispersion (c_filtered c))) (sel_jitter sel))" by simp
  have "src_root_delay (en_source ?e) = c_root_delay c" "src_root_dispersion (en_source ?e) = c_root_dispersion c"
    "source_filtered (en_source ?e) w = Some (c_filtered c)"
    using i(2) by (auto simp: candidate_of_def Let_def)
  then show "in_range (selected_state K w sel tm)"
    using r f(4) disp assms(3) s by (simp add: selected_state_def follow_peer_def Let_def in_range_def)
  show "small 129 (sel_offset sel)" by (rule r)
qed

lemma apply_offset_in_range: "in_range tm \<Longrightarrow> small 129 x \<Longrightarrow> in_range (apply_offset K be x now w tm)"
  using servo_fits_update [of "tm_discipline tm" x now]
  by (auto simp: in_range_def apply_offset_def steer_def after_step_def Let_def servo_fits_reset
      split: prod.splits adjustment.splits sum.splits)

lemma put_in_effect_in_range: "in_range tm \<Longrightarrow> small 129 (sel_offset sel) \<Longrightarrow> in_range (put_in_effect K be sel now w tm)"
  using apply_offset_in_range [of "on_entries (\<lambda>e. e\<lparr>en_fresh := False\<rparr>) tm" "sel_offset sel" K be now w]
  by (simp add: in_range_def put_in_effect_def Let_def on_entries_def)

lemma decide_in_range:
  assumes "all_sources source_fits tm" "length (tm_entries tm) \<le> 2 ^ 40" "in_range tm"
  shows "in_range (decide K be took now tm)"
proof (cases rule: decide_cases [of K tm be took now])
  case (selected sel)
  have "servo_fits (tm_discipline tm)" using assms(3) by (simp add: in_range_def)
  note s = selected_state_in_range [OF assms(1,2) this selected(1)]
  then have "in_range (put_in_effect K be sel now (wall K tm) (selected_state K (wall K tm) sel tm))"
    by (rule put_in_effect_in_range)
  then show ?thesis by (simp add: selected(2) in_range_def publish_def)
qed (use assms(3) in \<open>simp_all add: in_range_def on_entries_def publish_def\<close>)

lemma rebuild_in_range: "in_range tm \<Longrightarrow> in_range (rebuild_sources tm)"
  by (simp add: in_range_def rebuild_sources_def)

lemma apply_zone_figures [simp]:
  "tm_offset (apply_zone now fl fl' tm) = tm_offset tm" "tm_jitter (apply_zone now fl fl' tm) = tm_jitter tm"
  "tm_root_delay (apply_zone now fl fl' tm) = tm_root_delay tm"
  "tm_root_dispersion (apply_zone now fl fl' tm) = tm_root_dispersion tm"
  by (simp_all add: apply_zone_def split: prod.splits)

lemma reload_in_range: "in_range tm \<Longrightarrow> in_range (reload reg now fl fl' tm)"
  unfolding reload_def Let_def by (intro rebuild_in_range) (simp add: in_range_def servo_fits_new)

lemma absorb_in_range: "in_range tm \<Longrightarrow> in_range (absorb_netd snapshots now tm)"
  using rebuild_in_range [of "(note_families (usable_families (last snapshots)) now tm)\<lparr>tm_dhcp_servers := s\<rparr>" for s]
  by (auto simp: absorb_netd_def Let_def in_range_def note_families_def)

lemma sockets_in_range:
  assumes "all_sources source_fits tm" "length (tm_entries tm) \<le> 2 ^ 40" "in_range tm"
  shows "in_range (service_sockets K A be took on_v4 on_v6 now tm)"
proof (rule fit.service_sockets_cases [of tm K A be took on_v4 on_v6 now])
  fix tm' assume k: "keeps source_fits tm tm'"
  then have tm': "all_sources source_fits tm'" "length (tm_entries tm') \<le> 2 ^ 40" "in_range tm'"
    using assms keepsD [OF k] in_range_keeps [OF k] by (simp_all add: keeps_def quiet_def)
  then show "service_sockets K A be took on_v4 on_v6 now tm = tm' \<Longrightarrow> ?thesis"
    "service_sockets K A be took on_v4 on_v6 now tm = decide K be took now tm' \<Longrightarrow> ?thesis"
    using decide_in_range [OF tm'] by simp_all
qed

lemma step_in_range:
  "daemon_step K A be tm tm' \<Longrightarrow> all_sources source_fits tm \<Longrightarrow> length (tm_entries tm) \<le> 2 ^ 40 \<Longrightarrow>
   in_range tm \<Longrightarrow> in_range tm'"
proof (induction rule: daemon_step.induct)
  case (poll luck now tm tm' sent)
  then show ?case using in_range_keeps [OF fit.poll_due_keeps, of tm K A luck now] by simp
next
  case (registry tm readable reg now fl fl')
  then show ?case by (auto simp: check_registry_def reload_in_range split: option.splits sum.splits bool.splits)
next
  case (reload_asked tm reg now fl fl')
  then show ?case using reload_in_range [of tm reg now fl fl'] by (simp add: reload_request_def Let_def in_range_def)
next
  case (by_hand seconds nanos caller tm r tm')
  then show ?case by (auto simp: set_by_hand_def Let_def in_range_def split: if_splits sum.splits prod.splits)
qed (auto intro: in_range_keeps [OF ensure_roots_keeps] in_range_keeps [OF maintain_keeps]
    in_range_keeps [OF fit.collect_work_keeps] in_range_keeps [OF fit.expire_keeps] in_range_keeps [OF persist_keeps(1)]
    in_range_keeps [OF persist_keeps(2)] absorb_in_range sockets_in_range, auto simp: in_range_def)

section \<open>Every state\<close>

text \<open>The states reached while the table never holds more than \<open>2\<^sup>4\<^sup>0\<close> sources.\<close>

inductive modest_reach :: "'k kernel \<Rightarrow> aead \<Rightarrow> int \<Rightarrow> 'k timed \<Rightarrow> bool"
  for K :: "'k kernel" and A :: aead and build_epoch :: int where
  start: "tm = started k events files reg precision v4 v6 now fl fl' \<Longrightarrow> length (tm_entries tm) \<le> 2 ^ 40 \<Longrightarrow>
    modest_reach K A build_epoch tm"
| step: "modest_reach K A build_epoch tm \<Longrightarrow> daemon_step K A build_epoch tm tm' \<Longrightarrow>
    length (tm_entries tm') \<le> 2 ^ 40 \<Longrightarrow> modest_reach K A build_epoch tm'"

lemma modest_reachable: "modest_reach K A be tm \<Longrightarrow> daemon_reach K A be tm \<and> length (tm_entries tm) \<le> 2 ^ 40"
  by (induction rule: modest_reach.induct) (auto intro: daemon_reach.intros)

lemma started_in_range: "in_range (started k events files reg precision v4 v6 now fl fl')"
  unfolding started_def by (rule rebuild_in_range) (simp add: in_range_def timed_new_def servo_fits_new)

lemma modest_in_range: "modest_reach K A be tm \<Longrightarrow> in_range tm"
proof (induction rule: modest_reach.induct)
  case (step tm tm')
  then show ?case using step_in_range [OF step(2)] fit.reach_sources modest_reachable by blast
qed (simp add: started_in_range)

text \<open>
  C6: the daemon never reports a NaN or an infinity: in every state it can reach, whatever the network,
  the servers, the settings and the people at it do and in whatever order, while it has at most
  2^40 sources, the offset, frequency, jitter, root distance, root delay and root dispersion of
  its status are finite numbers, and so are the jitter and the last offset its loop works with.
\<close>
theorem reported_figures_are_finite:
  assumes "modest_reach K A build_epoch tm" "status build_epoch now tm = Some s"
  shows "list_all is_finite [ss_offset s, ss_frequency_ppm s, ss_jitter s, ss_root_distance s, ss_root_delay s,
    ss_root_dispersion s, d_jitter (tm_discipline tm), d_last_offset (tm_discipline tm)]"
proof -
  have r: "in_range tm" using assms(1) by (rule modest_in_range)
  have "small 0 (d_frequency (tm_discipline tm))"
    using r bounded_rate_finite [of "d_frequency (tm_discipline tm)"] max_frequency_facts(4)
    by (auto simp: in_range_def servo_fits_def disc_ok_def small_def)
  moreover have "small 20 (lit 1000000)" by (simp add: small_def rnd_eval)
  ultimately have "small (0 + 20) (frequency_ppm (tm_discipline tm))"
    unfolding frequency_ppm_def by (intro small_mul) simp_all
  moreover have "small 3 (fdiv (tm_root_delay tm) (lit 2))"
    using r by (intro small_div) (simp_all add: in_range_def two_lit fle_def)
  then have "small 151 (fdiv (tm_root_delay tm) (lit 2))" by (rule small_mono) simp
  then have "small (Suc 151) (tm_distance tm)"
    unfolding tm_distance_def using r by (intro small_add) (simp_all add: in_range_def)
  ultimately show ?thesis
    using r assms(2) by (auto simp: status_def in_range_def servo_fits_def intro: small_finite split: if_splits)
qed

text \<open>A daemon started on the settings there are by default, so on the servers compiled into it.\<close>

definition default_daemon :: "int timed" where
  "default_daemon = started 0 [] Map.empty None (- 20) True True fzero NoFault NoFault"

lemma place_fresh:
  "list_all (\<lambda>spec. \<not> sp_unauthenticated spec) specs \<Longrightarrow>
   place_specs c og specs Map.empty out = out @ map (new_entry c og) specs"
  by (induction specs arbitrary: out) simp_all

lemma default_daemon_state:
  "tm_entries default_daemon = map (new_entry config_default OriginFallback) fallback" "tm_system_peer default_daemon = None"
proof -
  have "list_all (\<lambda>spec. \<not> sp_unauthenticated spec) fallback"
    by (simp add: fallback_def list_all_iff server_spec_new_def)
  then show "tm_entries default_daemon = map (new_entry config_default OriginFallback) fallback"
    "tm_system_peer default_daemon = None"
    by (simp_all add: default_daemon_def started_def rebuild_sources_def timed_new_def load_config_def config_default_def
        apply_zone_def chosen_specs_def chosen_origin_def has_explicit_servers_def dhcp_chosen_def kept_by_host_def
        place_fresh split: prod.splits)
qed

theorem reported_figures_are_finite_witness:
  "\<exists>s. modest_reach plain_kernel toy_aead 0 default_daemon \<and> tm_entries default_daemon \<noteq> []
    \<and> status 0 fzero default_daemon = Some s \<and> is_finite (ss_root_distance s) \<and> is_finite (ss_frequency_ppm s)"
proof -
  have some: "fallback \<noteq> []" "length fallback \<le> 2 ^ 40" by (simp_all add: fallback_def FALLBACK_SERVERS_def)
  have m: "modest_reach plain_kernel toy_aead 0 default_daemon"
    by (rule modest_reach.start [OF default_daemon_def]) (use some in \<open>simp add: default_daemon_state\<close>)
  obtain s where s: "status 0 fzero default_daemon = Some s"
    by (simp add: status_def default_daemon_state)
  show ?thesis using reported_figures_are_finite [OF m s] m s some by (auto simp: default_daemon_state)
qed

end
