(* ===== verification/Spec2Isabelle.thy ===== *)
theory Spec2Isabelle
  imports Selection Discipline PollSource SysClock Config Localtime StateFiles SourcesAnswer Shortfalls Service
    Handshake AuditRecord Entropy ControlGate CommandText ClockCommand Honesty EngineOps FuzzTargets
    Platform TrustRoots Precision Texts Health
begin

text \<open>
  A verification development for timed, the daemon that keeps a machine's clock by NTP with NTS.

  \<^bold>\<open>The program.\<close> Four crates. \<open>ntp\<close> holds the wire formats: time stamps, packets, extension fields,
  NTS. \<open>timed\<close> is the daemon: one thread runs a loop (\<open>Timed::run\<close> in \<open>timed/src/main.rs\<close>) that polls
  the servers, gives their replies to one association each (\<open>source.rs\<close>: checks, cookies, reach, poll
  interval), reduces an exchange to a sample (\<open>sample.rs\<close>) kept in an eight-stage register (\<open>filter.rs\<close>),
  selects the sources that agree (\<open>select.rs\<close>), feeds the combined offset to the servo
  (\<open>discipline.rs\<close>) and steers or steps the kernel's clock (\<open>clock.rs\<close>). Slow work (names, handshakes,
  the root store) is done by a worker thread (\<open>worker.rs\<close>) whose results the loop collects. Around the
  loop: the settings (\<open>config.rs\<close>), the files it keeps (\<open>state.rs\<close>), the time zone
  (\<open>localtime.rs\<close>), the channel from the network manager (\<open>netd_link.rs\<close>), the control socket
  (\<open>control.rs\<close>) and its protocol (\<open>libtimed\<close>). \<open>clock\<close> is the command that talks to that socket.

  \<^bold>\<open>The theories, in the order of their imports.\<close>
  \<^item> \<open>Prelude\<close>: machine integers, byte codecs and the two interfaces of the wire formats
    (\<open>fixed_codec\<close>, \<open>framed_item\<close>). \<open>F64\<close>: IEEE binary64 with signed zeros, infinities, NaN and
    rounding to nearest, ties to even. \<open>RustText\<close>, \<open>FloatText\<close>: what is used of Rust's text and of its
    printing and parsing of floating-point numbers. \<open>Files\<close>: the files as a map, with the atomic
    replacement the daemon writes by.
  \<^item> \<open>NtpTime\<close>, \<open>ExtField\<close>, \<open>NtpPacket\<close>, \<open>Nts\<close>: \<open>ntp/src/timestamp.rs\<close>, \<open>extension.rs\<close>, \<open>packet.rs\<close>,
    \<open>nts.rs\<close>. Their lemmas: decoding loses no byte, encoding is read back, an authenticator binds the
    prefix it covers, what a key-establishment answer must hold to be accepted.
  \<^item> \<open>Sample\<close>, \<open>ClockFilter\<close>, \<open>Selection\<close>, \<open>Discipline\<close>, \<open>PollSource\<close>: the files of \<open>timed/src\<close> with these
    names (\<open>PollSource\<close> is \<open>source.rs\<close>). Their lemmas: the truth lies within half the delay of a sample;
    the register never gives the same sample twice; the selected interval is what a majority agrees
    on; no step without persistence; the frequency is always within 500 parts per million; only
    authentic replies count; a source with NTS never falls back; the poll interval keeps its bounds.
  \<^item> \<open>Accuracy\<close>, \<open>Honesty\<close>: how wrong the clock can be made. A source that talks to a true server is within
    its own root distance of the truth (\<open>Honesty\<close>, from the timestamps up), and when most of the fit
    sources are, the offset selected is within twice that distance, rounding included (\<open>Accuracy\<close>).
    \<open>Magnitude\<close> bounds what binary64 operations can grow to, \<open>Ranges\<close> what the numbers of the engine can.
  \<^item> \<open>EngineOps\<close>, \<open>FuzzTargets\<close>: the fuzz targets that make assertions (\<open>fuzz/fuzz_targets\<close>), and that
    no input fails them: \<open>engine_ops.rs\<close> drives the register, the selection and the servo,
    \<open>ntp_packet.rs\<close> and \<open>source_accept.rs\<close> take a datagram, \<open>time_wire.rs\<close> a control message. One assertion
    of the last does fail, on a reply whose sources have no fields.
  \<^item> \<open>SysClock\<close>: \<open>clock.rs\<close>, the requests made of \<open>adjtimex\<close>. The kernel is a parameter; what is relied on
    is that an accepted offset moves the clock by it.
  \<^item> \<open>Servers\<close>, \<open>Zone\<close>, \<open>Config\<close>, \<open>StateFiles\<close>, \<open>Localtime\<close>: \<open>libtimed/src/servers.rs\<close>, \<open>zone.rs\<close>,
    \<open>timed/src/config.rs\<close>, \<open>state.rs\<close>, \<open>localtime.rs\<close>. Their lemmas: the grammar of a server, zone
    names that stay inside the zone directory, settings usable whatever the registry holds, and
    a file of cookies read as it was written, a write that fails part of the way included (the daemon
    only writes these files: \<open>read_cookies\<close> has no caller).
  \<^item> \<open>Protocol\<close>, \<open>ProtocolLaws\<close>, \<open>SourcesAnswer\<close>: \<open>libtimed/src/lib.rs\<close>, with the chunks of \<open>sources\<close> in
    \<open>timed/src/main.rs\<close> and the loop of \<open>clock/src/main.rs\<close> that reads them. MessagePack is a library:
    an argument, relied on to read back what it put (\<open>lossless\<close>).
  \<^item> \<open>NetdLink\<close>: \<open>netd_link.rs\<close>; the network manager's own decoder is an argument.
  \<^item> \<open>Daemon\<close>, \<open>Network\<close>, \<open>Decide\<close>: \<open>timed/src/main.rs\<close>, with \<open>Worker\<close>'s queue and \<open>audit.rs\<close>'s record of a
    step. The record \<open>timed\<close> is \<open>struct Timed\<close>, \<open>entry\<close> is \<open>struct Entry\<close>. \<open>Daemon\<close> has the settings, the
    table of sources and setting by hand; \<open>Network\<close> the worker's jobs and results, polling and
    replies; \<open>Decide\<close> the decision, steering, status, saving, deadlines and sockets.
  \<^item> \<open>Lifecycle\<close>: those operations as a transition system (\<open>daemon_step\<close>, \<open>daemon_reach\<close>). The locale
    \<open>source_law\<close> is a property of one source that each of the daemon's operations on it keeps, with what
    follows for every entry of a reachable state; it is interpreted twice, on the invariant of
    \<open>PollSource\<close> and, in \<open>Health\<close>, on the ranges of a source's numbers, from which the offset, the
    errors and the rates the daemon reports are never a NaN or infinite (with at most 2^40 sources).
    \<open>Behaviour\<close>: what the parts do together. \<open>Shortfalls\<close>: where the code falls short of what it says.
    \<open>Service\<close>: the start in \<open>main\<close>, one turn of the loop in the order of the code and the requests of
    the control socket, shown to be runs of the transition system.
  \<^item> \<open>Handshake\<close>: the thread of \<open>worker.rs\<close>, with \<open>nts_ke.rs\<close> on an open TLS session and \<open>resolve.rs\<close>. A
    handshake that succeeds has gone through every check, whatever the pieces its message came in.
    What the loop is handed in \<open>Service\<close> is what this thread makes of a job.
  \<^item> \<open>AuditRecord\<close>: \<open>audit.rs\<close>, the bytes of the record of a step, read back by a reader of MessagePack
    values. \<open>Entropy\<close>: \<open>random.rs\<close>, a loop that may wait for ever, and when it does not.
    \<open>ControlGate\<close>: the control object of \<open>control.rs\<close>, and who passes it by default.
  \<^item> \<open>TrustRoots\<close>: \<open>trust.rs\<close>, \<open>tls_config\<close> and the opening of a session in \<open>nts_ke.rs\<close>: keys come only over TLS
    1.3 with roots from a whole answer of the trust store. \<open>Precision\<close>: \<open>Clock::precision\<close>, which ends
    whatever the clock does. \<open>Platform\<close>: \<open>listen\<close> and \<open>protect\<close> of \<open>control.rs\<close> as the calls they make, in order,
    and that each later start finds the socket the one before left, removes it and binds anew; \<open>log.rs\<close>; \<open>wait\<close>, \<open>notify\<close> and \<open>bind\<close> of \<open>main.rs\<close>;
    \<open>own_sid\<close>. \<open>Texts\<close>: the \<open>Display\<close> of errors, refusals and reference ids.
  \<^item> \<open>CommandText\<close>, \<open>ClockCommand\<close>: \<open>clock/src/main.rs\<close>: reading times and printing numbers, the verbs and
    their exit codes, and the command with the daemon of \<open>Service\<close> at the other end of its socket: it
    reports success exactly when the daemon did what was asked, and shows what the daemon holds. This
    theory joins it with \<open>ControlGate\<close>: who can set the clock, and that it is never unseen.

  \<^bold>\<open>Conventions.\<close> A struct is a record, an enum a datatype, an error a value of a sum type, a panic
  \<open>None\<close> (or a constructor of its own), text its UTF-8 bytes. Integers keep their width as words
  where they wrap and are \<open>int\<close> or \<open>nat\<close> where the code checks them. The state of the daemon, of the
  kernel's clock and of the files is passed explicitly. What comes from outside (random draws,
  datagrams, readings of the monotonic clock, failures of writes and sends) is an argument of the
  operation that meets it.

  \<^bold>\<open>Loops and bounds.\<close> No definition that models the code takes fuel; the reader that \<open>AuditRecord\<close> judges
  records by takes a depth, four for maps nested as they are. The loop of \<open>random.rs\<close> is a partial
  function, which returns when the kernel interrupts it finitely often. Loops over bytes recurse on the bytes that are left
  and are shown to end by their number; the loops of the selection recurse over the candidates left
  and those of the grammar over the text. The loop of the daemon is its turns: any finite number.

  \<^bold>\<open>Not modelled.\<close> What other programs and libraries do. Arguments stand for what the code calls: the
  kernel's clock, the AEAD (crate \<open>aes-siv\<close>), MessagePack, the TLS library and its sessions, the trust
  store, the resolver, tokens, descriptors and the check of one, the answers to the calls on files and
  sockets, \<open>getrandom\<close>, \<open>log2\<close> and \<open>mktime\<close>. Watching the registry and \<open>poll\<close> itself are the system's. In
  the state of the daemon notes are kept as their kinds, and \<open>Debug\<close> texts are arguments. The fuzz
  targets that assert nothing (\<open>nts_ke.rs\<close>, \<open>nts_authenticator.rs\<close>) look for panics in functions that
  are total here; the build script and the packaging are not part of the program's behaviour.
\<close>

section \<open>The whole way from the keyboard to the clock\<close>

lemma set_by_hand_names_caller:
  assumes "set_by_hand K build_epoch seconds nanos caller tm = (Inr (), tm')"
  shows "\<exists>ev. tm_events tm' = tm_events tm @ [ev] \<and> ev_step ev = StepManual \<and> ev_caller ev = Some caller"
    and "\<not> cf_automatic (tm_config tm)"
  using assms by (auto simp: set_by_hand_def Let_def split: if_splits sum.splits prod.splits)

text \<open>
  C24: with the compiled descriptor in force (none is configured, or the one that is cannot be read),
  \<open>clock set\<close> succeeds only for the system and its administrators, only while \<open>Automatic\<close> is 0, and
  never unseen: the daemon set the clock by hand to the time that was typed, and its record of the
  step names the user of the peer's own token.
\<close>
theorem only_administrators_set_the_clock:
  assumes "rn_code (run_clock V (''set'' # words)) = EXIT_OK"
    and "parse_time (cm_calendar V) (spaced words) = Inr (seconds, nanos)"
    and "cm_connect V = Inr (daemon_server K build_epoch (cm_msgpack V) E now peer takes tm)"
    and "ce_permits E = gate S" "allow_lists_work S holds"
    and "case cf_control_security (tm_config tm) of None \<Rightarrow> True
      | Some bytes \<Rightarrow> (case so_from_bytes S bytes of Inl e \<Rightarrow> True | Inr sd \<Rightarrow> False)"
    and "lossless (cm_msgpack V)" "request_fits (cm_msgpack V) (ReqSet seconds nanos)"
    and "\<forall>r. reply_ok (set_reply (ce_clock_text E) r)" "frames (cm_msgpack V) ReplyOk"
  shows "\<exists>token user tm' ev. so_open_peer S peer = Inr token \<and> so_user S token = Inr user
    \<and> (SidSystem \<in> holds token \<or> SidAdministrators \<in> holds token)
    \<and> \<not> cf_automatic (tm_config tm) \<and> set_by_hand K build_epoch seconds nanos user tm = (Inr (), tm')
    \<and> tm_events tm' = tm_events tm @ [ev] \<and> ev_step ev = StepManual \<and> ev_caller ev = Some user"
proof -
  obtain user tm' where gate: "gate S (cf_control_security (tm_config tm)) peer (required_right ReqReload) = Some user"
    and set: "set_by_hand K build_epoch seconds nanos user tm = (Inr (), tm')"
    using clock_set_code [OF assms(7,8,3,9,10,2)] assms(1,4) by auto
  from gate obtain token where "so_open_peer S peer = Inr token" "so_user S token = Inr user"
    "SidSystem \<in> holds token \<or> SidAdministrators \<in> holds token"
    unfolding default_gate [OF assms(5,6)] by auto
  with set set_by_hand_names_caller [OF set] show ?thesis by blast
qed

text \<open>The daemon of the witnesses behind the toy system: peer 0 is the system, peer 1 an ordinary user.\<close>

definition gated_env :: control_env where
  "gated_env = owner_env\<lparr>ce_permits := gate toy_security\<rparr>"

definition typed_at :: "nat \<Rightarrow> command_env" where
  "typed_at peer = keyboard (daemon_server plain_kernel 1700000000 tagged gated_env fzero peer True owned_daemon)"

lemma typed_at_fields: "cm_msgpack (typed_at peer) = tagged"
  "cm_connect (typed_at peer) = Inr (daemon_server plain_kernel 1700000000 tagged gated_env fzero peer True owned_daemon)"
  "parse_time (cm_calendar (typed_at peer)) (spaced [''@1800000000'']) = Inr (1800000000, 0)"
  using owner_time by (simp_all add: typed_at_def keyboard_def owner_at_def)

lemma toy_lists_work: "allow_lists_work toy_security id"
  by (simp add: allow_lists_work_def toy_security_def TIME_CONTROL_def)

lemma toy_control: "gate toy_security sd 0 TIME_CONTROL = Some [18]"
  using default_gate [OF toy_lists_work, of sd 0 ReqReload "[18]"]
  by (simp add: toy_security_def split: option.split)

theorem only_administrators_set_the_clock_witness:
  "rn_code (run_clock (typed_at 0) [''set'', ''@1800000000'']) = EXIT_OK
   \<and> (\<exists>tm' ev. set_by_hand plain_kernel 1700000000 1800000000 0 [18] owned_daemon = (Inr (), tm')
        \<and> tm_events tm' = tm_events owned_daemon @ [ev] \<and> ev_caller ev = Some [18])"
proof -
  have texts: "\<forall>r. reply_ok (set_reply (ce_clock_text gated_env) r)" using owner_texts by (simp add: gated_env_def)
  have bad: "case cf_control_security (tm_config owned_daemon) of None \<Rightarrow> True
      | Some bytes \<Rightarrow> (case so_from_bytes toy_security bytes of Inl e \<Rightarrow> True | Inr sd \<Rightarrow> False)"
    by (simp add: toy_security_def split: option.split)
  note code = clock_set_code [where V = "typed_at 0", unfolded typed_at_fields(1),
      OF lossless_tagged set_request_fits(1) typed_at_fields(2) texts set_request_fits(2) typed_at_fields(3)]
  have "\<exists>tm'. set_by_hand plain_kernel 1700000000 1800000000 0 [18] owned_daemon = (Inr (), tm')"
    using owner_sets by (simp add: set_by_hand_def Let_def split: prod.splits sum.splits if_splits)
  then have ok: "rn_code (run_clock (typed_at 0) [''set'', ''@1800000000'']) = EXIT_OK"
    unfolding code using toy_control owner_permitted(2) by (simp add: gated_env_def MAX_CLIENTS_def)
  have permits: "ce_permits gated_env = gate toy_security" by (simp add: gated_env_def)
  obtain token user tm' ev where "so_open_peer toy_security 0 = Inr token" "so_user toy_security token = Inr user"
    "set_by_hand plain_kernel 1700000000 1800000000 0 user owned_daemon = (Inr (), tm')"
    "tm_events tm' = tm_events owned_daemon @ [ev]" "ev_caller ev = Some user"
    using only_administrators_set_the_clock [where V = "typed_at 0", unfolded typed_at_fields(1),
      OF ok typed_at_fields(3,2) permits toy_lists_work bad lossless_tagged set_request_fits(1) texts set_request_fits(2)] by blast
  moreover from this have "user = [18]" by (auto simp: toy_security_def)
  ultimately show ?thesis using ok by blast
qed

end
